(* ===== verification/Prelude.thy ===== *)
theory Prelude
  imports Main "HOL-Library.Word"
begin

unbundle bit_operations_syntax

text \<open>
  Shared vocabulary of the development: the machine integers and byte strings of the
  Rust sources, the \<open>Result\<close> type and its \<open>?\<close> operator, little-endian integer
  conversion (\<open>to_le_bytes\<close> / \<open>from_le_bytes\<close>), \<open>next_multiple_of\<close>, the heap
  vectors (\<open>Vec<u8>\<close>, with their capacity, which the outgoing batch accounts for),
  and the error kinds of the standard library and of \<open>capnp\<close> that the components
  exchange. The locale \<open>codec\<close> is the contract between a wire format and its users.
\<close>

named_theorems defs \<open>definitions unfolded by the component proofs\<close>
named_theorems lens \<open>lengths of encodings\<close>

section \<open>Integers, bytes and results\<close>

type_synonym u8 = "8 word"
type_synonym u16 = "16 word"
type_synonym u32 = "32 word"
type_synonym u64 = "64 word"
type_synonym bytes = "u8 list"

text \<open>\<open>Result<T, E>\<close> is a sum with the error on the left; \<open>bindr\<close> is \<open>?\<close>.\<close>

type_synonym ('e, 'a) result = "'e + 'a"

definition bindr :: "('e, 'a) result \<Rightarrow> ('a \<Rightarrow> ('e, 'b) result) \<Rightarrow> ('e, 'b) result" where
  "bindr m f = case_sum Inl f m"

lemma bindr_simps [simp]: "bindr (Inr a) f = f a" "bindr (Inl e) f = Inl e"
  by (simp_all add: bindr_def)

lemma bindr_eq_Inr_iff: "bindr m f = Inr b \<longleftrightarrow> (\<exists>a. m = Inr a \<and> f a = Inr b)"
  by (cases m) auto

text \<open>The bytes of an ASCII string (\<open>str::as_bytes\<close>).\<close>

definition as_bytes :: "string \<Rightarrow> bytes" where
  "as_bytes s = map of_char s"

lemma length_as_bytes [simp]: "length (as_bytes s) = length s"
  by (simp add: as_bytes_def)

section \<open>Standard error kinds\<close>

text \<open>The \<open>std::io::ErrorKind\<close>s the sources tell apart; the others carry a number.\<close>

datatype io_error =
    NotFound
  | PermissionDenied
  | AlreadyExists
  | AddrInUse
  | ConnectionRefused
  | UnexpectedEof
  | InvalidInput
  | InvalidData
  | Unsupported
  | Interrupted
  | OtherIo nat

text \<open>The \<open>capnp::ErrorKind\<close>s the sources name; the others carry a number.\<close>

datatype capnp_kind =
    Failed
  | Overloaded
  | Disconnected
  | Unimplemented
  | PrematureEndOfFile
  | FailedToFillTheWholeBuffer
  | InvalidNumberOfSegments nat
  | MessageTooLarge nat
  | MessageSizeOverflow
  | OtherKind nat

section \<open>Reports\<close>

text \<open>
  \<open>Report<C>\<close> where the code only builds and returns it: its current context and the texts
  attached to it, the first attached first; the contexts below (the i/o error under
  \<open>TransportError::Io\<close>) are not kept. \<open>LossyUtf8 bs\<close> is \<open>String::from_utf8_lossy(bs)\<close>.
\<close>

datatype annotation = Text string | LossyUtf8 bytes

datatype 'c report = Report (context_of: 'c) (attached: "annotation list")

definition attach_text :: "string \<Rightarrow> 'c report \<Rightarrow> 'c report" where
  "attach_text s r = Report (context_of r) (attached r @ [Text s])"

text \<open>\<open>change_context(c).attach(s)\<close> on the error of a standard library call.\<close>

fun in_context :: "'c \<Rightarrow> string \<Rightarrow> 'e + 'a \<Rightarrow> 'c report + 'a" where
  "in_context c s (Inl e) = Inl (Report c [Text s])"
| "in_context c s (Inr a) = Inr a"

section \<open>Little-endian integers\<close>

text \<open>
  \<open>to_le n w\<close> are the \<open>n\<close> low bytes of \<open>w\<close>, least significant first; \<open>from_le\<close>
  reads them back. \<open>u16::to_le_bytes\<close> is \<open>to_le 2\<close>, \<open>u32::to_le_bytes\<close> is \<open>to_le 4\<close>
  and so on.
\<close>

primrec to_le :: "nat \<Rightarrow> 'a::len word \<Rightarrow> bytes" where
  "to_le 0 w = []"
| "to_le (Suc n) w = ucast w # to_le n (drop_bit 8 w)"

primrec from_le :: "bytes \<Rightarrow> 'a::len word" where
  "from_le [] = 0"
| "from_le (b # bs) = ucast b OR push_bit 8 (from_le bs)"

lemma length_to_le [simp, lens]: "length (to_le n w) = n"
  by (induction n arbitrary: w) simp_all

lemma take_bit_step_8:
  fixes w :: "'a::len word"
  shows "take_bit (8 + n) w = take_bit 8 w OR push_bit 8 (take_bit n (drop_bit 8 w))"
  by (rule bit_word_eqI) (auto simp: bit_simps)

lemma ucast_ucast_8:
  fixes w :: "'a::len word"
  shows "(ucast (ucast w :: u8) :: 'a word) = take_bit 8 w"
  by (rule bit_word_eqI) (auto simp: bit_simps)

lemma from_le_to_le_take: "from_le (to_le n w) = take_bit (8 * n) (w :: 'a::len word)"
proof (induction n arbitrary: w)
  case (Suc n)
  have "take_bit (8 * Suc n) w = take_bit (8 + 8 * n) w" by simp
  also have "\<dots> = take_bit 8 w OR push_bit 8 (take_bit (8 * n) (drop_bit 8 w))"
    by (rule take_bit_step_8)
  finally show ?case by (simp add: Suc.IH ucast_ucast_8)
qed simp

lemma from_le_to_le:
  "LENGTH('a) \<le> 8 * n \<Longrightarrow> from_le (to_le n w) = (w :: 'a::len word)"
  by (simp add: from_le_to_le_take take_bit_word_eq_self)

lemma bit_from_le:
  "bit (from_le bs :: 'a::len word) i \<longleftrightarrow>
     i < LENGTH('a) \<and> i div 8 < length bs \<and> bit (bs ! (i div 8)) (i mod 8)"
proof (induction bs arbitrary: i)
  case (Cons b bs)
  show ?case
  proof (cases "i < 8")
    case True
    then show ?thesis by (auto simp: bit_simps)
  next
    case False
    then have "i div 8 = Suc ((i - 8) div 8)" and "i mod 8 = (i - 8) mod 8"
      by (simp_all add: le_div_geq le_mod_geq)
    moreover have "\<not> bit b i"
      using False by (auto dest: bit_imp_le_length)
    ultimately show ?thesis
      using False Cons.IH [of "i - 8"] by (auto simp: bit_simps)
  qed
qed simp

lemma nth_to_le:
  fixes w :: "'a::len word"
  shows "i < n \<Longrightarrow> to_le n w ! i = ucast (drop_bit (8 * i) w)"
proof (induction n arbitrary: w i)
  case (Suc n)
  show ?case
  proof (cases i)
    case (Suc j)
    with Suc.prems have "j < n" by simp
    then show ?thesis using Suc by (simp add: Suc.IH add.commute)
  qed simp
qed simp

lemma to_le_from_le:
  assumes "8 * length bs \<le> LENGTH('a)"
  shows "to_le (length bs) (from_le bs :: 'a::len word) = bs"
proof (rule nth_equalityI)
  fix i assume i: "i < length (to_le (length bs) (from_le bs :: 'a word))"
  have "ucast (drop_bit (8 * i) (from_le bs :: 'a word)) = bs ! i"
  proof (rule bit_word_eqI)
    fix m assume m: "m < LENGTH(8)"
    then have "8 * i + m < LENGTH('a)" using i assms by auto
    with m i show "bit (ucast (drop_bit (8 * i) (from_le bs :: 'a word)) :: u8) m = bit (bs ! i) m"
      by (simp add: bit_simps bit_from_le)
  qed
  then show "to_le (length bs) (from_le bs :: 'a word) ! i = bs ! i"
    using i by (simp add: nth_to_le)
qed simp

section \<open>Wire formats\<close>

text \<open>
  What a wire format promises to the code that uses it: for the values \<open>wf\<close> admits,
  decoding what was encoded gives the value back and leaves the bytes behind it
  untouched, and whatever decodes is the encoding of the decoded value.
\<close>

locale codec =
  fixes wf :: "'a \<Rightarrow> bool"
    and enc :: "'a \<Rightarrow> bytes"
    and dec :: "bytes \<Rightarrow> ('a \<times> bytes) option"
  assumes dec_enc: "wf a \<Longrightarrow> dec (enc a @ r) = Some (a, r)"
    and dec_sound: "dec bs = Some (a, r) \<Longrightarrow> wf a \<and> bs = enc a @ r"
begin

lemma dec_iff: "dec bs = Some (a, r) \<longleftrightarrow> wf a \<and> bs = enc a @ r"
  by (auto dest: dec_sound simp: dec_enc)

lemma enc_unique:
  assumes "wf a" and "wf b" and "enc a @ r = enc b @ s"
  shows "a = b" and "r = s"
proof -
  have "Some (a, r) = dec (enc a @ r)"
    using assms(1) by (simp add: dec_enc)
  also have "\<dots> = Some (b, s)"
    using assms(2,3) by (simp add: dec_enc)
  finally show "a = b" and "r = s" by simp_all
qed

end

text \<open>A fixed-width little-endian integer field of \<open>n\<close> bytes.\<close>

definition read_le :: "nat \<Rightarrow> bytes \<Rightarrow> ('a::len word \<times> bytes) option" where
  "read_le n bs = (if length bs < n then None else Some (from_le (take n bs), drop n bs))"

lemma read_le_codec:
  assumes "8 * n = LENGTH('a)"
  shows "codec (\<lambda>_. True) (to_le n :: 'a::len word \<Rightarrow> bytes) (read_le n)"
proof
  fix a :: "'a word" and r
  show "read_le n (to_le n a @ r) = Some (a, r)"
    using assms by (simp add: read_le_def from_le_to_le)
next
  fix bs r and a :: "'a word"
  assume "read_le n bs = Some (a, r)"
  then have n: "length (take n bs) = n" and a: "a = from_le (take n bs)" and r: "r = drop n bs"
    by (auto simp: read_le_def split: if_splits)
  have "to_le (length (take n bs)) a = take n bs"
    unfolding a by (rule to_le_from_le) (use assms n in simp)
  then show "True \<and> bs = to_le n a @ r"
    using n r by simp
qed

interpretation u8_le: codec "\<lambda>_. True" "to_le 1 :: u8 \<Rightarrow> bytes" "read_le 1"
  by (rule read_le_codec) simp

interpretation u16_le: codec "\<lambda>_. True" "to_le 2 :: u16 \<Rightarrow> bytes" "read_le 2"
  by (rule read_le_codec) simp

interpretation u32_le: codec "\<lambda>_. True" "to_le 4 :: u32 \<Rightarrow> bytes" "read_le 4"
  by (rule read_le_codec) simp

interpretation u64_le: codec "\<lambda>_. True" "to_le 8 :: u64 \<Rightarrow> bytes" "read_le 8"
  by (rule read_le_codec) simp

text \<open>A counted byte vector: \<open>count\<close> bytes, as many as a field before it said.\<close>

definition read_count :: "nat \<Rightarrow> bytes \<Rightarrow> (bytes \<times> bytes) option" where
  "read_count n bs = (if length bs < n then None else Some (take n bs, drop n bs))"

interpretation counted: codec "\<lambda>v. length v = n" "\<lambda>v. v" "read_count n" for n
  by unfold_locales (auto simp: read_count_def split: if_splits)

section \<open>Arithmetic helpers\<close>

definition next_multiple_of :: "nat \<Rightarrow> nat \<Rightarrow> nat" where
  "next_multiple_of a b = (a + b - 1) div b * b"

lemma next_multiple_of_ge: "0 < b \<Longrightarrow> a \<le> next_multiple_of a b"
proof -
  assume b: "0 < b"
  have "a + b - 1 = (a + b - 1) div b * b + (a + b - 1) mod b" by simp
  moreover have "(a + b - 1) mod b < b" using b by simp
  ultimately show ?thesis unfolding next_multiple_of_def by linarith
qed

lemma unat_of_nat_u32: "n < 2 ^ 32 \<Longrightarrow> unat (word_of_nat n :: u32) = n"
  by (simp add: unat_of_nat take_bit_eq_mod)

lemma unat_of_nat_u16: "n < 2 ^ 16 \<Longrightarrow> unat (word_of_nat n :: u16) = n"
  by (simp add: unat_of_nat take_bit_eq_mod)

lemma unat_u32_less: "unat (w :: u32) < 2 ^ 32"
  using unsigned_less [of w] by simp

lemma unat_u16_less: "unat (w :: u16) < 2 ^ 16"
  using unsigned_less [of w] by simp

section \<open>Numbers as text\<close>

text \<open>\<open>{}\<close> of an unsigned integer and \<open>{:0w x}\<close>, \<open>w\<close> lower-case hexadecimal digits.\<close>

definition digit :: "nat \<Rightarrow> char" where
  "digit n = (if n < 10 then char_of (48 + n) else char_of (87 + n))"

fun show_nat :: "nat \<Rightarrow> string" where
  "show_nat n = (if n < 10 then [digit n] else show_nat (n div 10) @ [digit (n mod 10)])"

declare show_nat.simps [simp del]

primrec show_hex :: "nat \<Rightarrow> 'a::len word \<Rightarrow> string" where
  "show_hex 0 w = []"
| "show_hex (Suc n) w = show_hex n (drop_bit 4 w) @ [digit (unat (w AND 15))]"

lemma length_show_hex [simp]: "length (show_hex n w) = n"
  by (induction n arbitrary: w) simp_all

lemma length_show_nat: "n < 10 ^ k \<Longrightarrow> 0 < k \<Longrightarrow> length (show_nat n) \<le> k"
proof (induction k arbitrary: n)
  case (Suc j)
  have "length (show_nat (n div 10)) \<le> j" if "10 \<le> n"
    using Suc that by (cases j) (auto simp: less_mult_imp_div_less mult.commute)
  then show ?case by (auto simp: show_nat.simps [of n])
qed simp

section \<open>Heap vectors\<close>

text \<open>
  \<open>Vec<u8>\<close> with the capacity its allocation has. \<open>extend_from_slice\<close> grows an
  allocation that is too small to the larger of twice the old capacity, the length
  needed and eight bytes; \<open>reserve_exact\<close> to the length asked for; \<open>clear\<close> and
  \<open>drain(..n)\<close> keep it.
\<close>

record vec =
  vec_bytes :: bytes
  vec_cap :: nat

definition vec_wf :: "vec \<Rightarrow> bool" where
  "vec_wf v \<longleftrightarrow> length (vec_bytes v) \<le> vec_cap v"

definition vec_with_capacity :: "nat \<Rightarrow> vec" where
  "vec_with_capacity n = \<lparr>vec_bytes = [], vec_cap = n\<rparr>"

definition vec_new :: vec where
  "vec_new = vec_with_capacity 0"

definition vec_extend :: "vec \<Rightarrow> bytes \<Rightarrow> vec" where
  "vec_extend v bs =
     (let needed = length (vec_bytes v) + length bs in
      \<lparr>vec_bytes = vec_bytes v @ bs,
       vec_cap = (if needed \<le> vec_cap v then vec_cap v else max (max (2 * vec_cap v) needed) 8)\<rparr>)"

definition vec_clear :: "vec \<Rightarrow> vec" where
  "vec_clear v = v\<lparr>vec_bytes := []\<rparr>"

definition vec_drain :: "nat \<Rightarrow> vec \<Rightarrow> vec" where
  "vec_drain n v = v\<lparr>vec_bytes := drop n (vec_bytes v)\<rparr>"

definition vec_reserve_exact :: "nat \<Rightarrow> vec \<Rightarrow> vec" where
  "vec_reserve_exact additional v =
     v\<lparr>vec_cap := max (vec_cap v) (length (vec_bytes v) + additional)\<rparr>"

lemma vec_bytes_simps [simp]:
  "vec_bytes vec_new = []"
  "vec_bytes (vec_with_capacity n) = []"
  "vec_bytes (vec_extend v bs) = vec_bytes v @ bs"
  "vec_bytes (vec_clear v) = []"
  "vec_bytes (vec_drain n v) = drop n (vec_bytes v)"
  "vec_bytes (vec_reserve_exact n v) = vec_bytes v"
  by (simp_all add: vec_new_def vec_with_capacity_def vec_extend_def vec_clear_def
      vec_drain_def vec_reserve_exact_def Let_def)

lemma vec_cap_simps [simp]:
  "vec_cap vec_new = 0"
  "vec_cap (vec_with_capacity n) = n"
  "vec_cap (vec_clear v) = vec_cap v"
  "vec_cap (vec_drain n v) = vec_cap v"
  "vec_cap (vec_reserve_exact n v) = max (vec_cap v) (length (vec_bytes v) + n)"
  by (simp_all add: vec_new_def vec_with_capacity_def vec_clear_def vec_drain_def
      vec_reserve_exact_def)

lemma vec_wf_intros [simp, intro]:
  "vec_wf vec_new"
  "vec_wf (vec_with_capacity n)"
  "vec_wf (vec_extend v bs)"
  "vec_wf (vec_clear v)"
  "vec_wf v \<Longrightarrow> vec_wf (vec_drain n v)"
  by (auto simp: vec_wf_def vec_extend_def Let_def)

end
