(* ===== verification/Frame_Batch.thy ===== *)
theory Frame_Batch
  imports Prelude
begin

text \<open>
  The outgoing half of \<open>src/src/rpc/frame.rs\<close>: \<open>Batch\<close> collects messages as chunks for
  one vectored write. Small segments are copied into inline buffers, large ones are
  referenced in place, and the inline buffers are recycled within a memory budget.
  A message is the list of segments \<open>get_segments_for_output\<close> yields. \<open>serialize\<close> is the
  stream framing documented for Cap'n Proto, the reference the batch is compared with;
  the locale \<open>out_batch\<close> is what the connection's writer relies on.
\<close>

section \<open>Data\<close>

type_synonym out_message = "bytes list"

definition WORD :: nat where
  "WORD = 8"

definition SPARE_BUDGET :: nat where
  "SPARE_BUDGET = 2 * 1024 * 1024"

text \<open>
  \<open>SegmentRef\<close>: a raw pointer to a segment, its length, and the message that keeps the
  segment alive. The pointer is the index of the segment in that message.
\<close>

record segment_ref =
  seg_message :: out_message
  seg_ptr :: nat
  seg_len :: nat

definition segment_as_init :: "segment_ref \<Rightarrow> bytes" where
  "segment_as_init s = take (seg_len s) (seg_message s ! seg_ptr s)"

datatype chunk = Inline vec | Segment segment_ref

fun chunk_as_init :: "chunk \<Rightarrow> bytes" where
  "chunk_as_init (Inline v) = vec_bytes v"
| "chunk_as_init (Segment s) = segment_as_init s"

record batch =
  chunks :: "chunk list"
  spare :: "vec list"
  spare_bytes :: nat
  inline_limit :: nat
  batch_bytes :: nat

section \<open>Operations\<close>

definition batch_new :: "nat \<Rightarrow> batch" where
  "batch_new limit =
     \<lparr>chunks = [], spare = [], spare_bytes = 0, inline_limit = limit, batch_bytes = 0\<rparr>"

fun is_inline :: "chunk \<Rightarrow> bool" where
  "is_inline (Inline _) = True"
| "is_inline (Segment _) = False"

text \<open>\<open>inline_tail\<close> makes sure the last chunk is inline; \<open>extend_last\<close> is an
  \<open>extend_from_slice\<close> on the reference it returns.\<close>

definition inline_tail :: "batch \<Rightarrow> batch" where
  "inline_tail b =
     (if chunks b \<noteq> [] \<and> is_inline (last (chunks b)) then b
      else if spare b \<noteq> [] then
        b\<lparr>spare := butlast (spare b),
          spare_bytes := spare_bytes b - vec_cap (last (spare b)),
          chunks := chunks b @ [Inline (last (spare b))]\<rparr>
      else b\<lparr>chunks := chunks b @ [Inline vec_new]\<rparr>)"

fun extend_chunk :: "bytes \<Rightarrow> chunk \<Rightarrow> chunk" where
  "extend_chunk bs (Inline v) = Inline (vec_extend v bs)"
| "extend_chunk bs (Segment s) = Segment s"

definition extend_last :: "bytes \<Rightarrow> batch \<Rightarrow> batch" where
  "extend_last bs b =
     b\<lparr>chunks := butlast (chunks b) @ [extend_chunk bs (last (chunks b))]\<rparr>"

definition push_table :: "out_message \<Rightarrow> batch \<Rightarrow> batch" where
  "push_table segments b =
     (let b = inline_tail b;
          b = extend_last (to_le 4 (word_of_nat (length segments) - 1 :: u32)) b;
          b = fold (\<lambda>segment. extend_last (to_le 4 (word_of_nat (length segment div WORD) :: u32)))
                segments b;
          b = (if length segments mod 2 = 0 then extend_last [0, 0, 0, 0] b else b)
      in b\<lparr>batch_bytes := batch_bytes b + next_multiple_of (4 * (length segments + 1)) WORD\<rparr>)"

definition push_segment :: "out_message \<Rightarrow> nat \<times> bytes \<Rightarrow> batch \<Rightarrow> batch" where
  "push_segment message isegment b =
     (let segment = snd isegment in
      if segment = [] then b
      else
        let b = (if length segment \<le> inline_limit b then extend_last segment (inline_tail b)
                 else b\<lparr>chunks := chunks b @
                     [Segment \<lparr>seg_message = message, seg_ptr = fst isegment, seg_len = length segment\<rparr>]\<rparr>)
        in b\<lparr>batch_bytes := batch_bytes b + length segment\<rparr>)"

definition push :: "batch \<Rightarrow> out_message \<Rightarrow> batch" where
  "push b message =
     fold (push_segment message) (List.enumerate 0 message) (push_table message b)"

definition is_empty :: "batch \<Rightarrow> bool" where
  "is_empty b \<longleftrightarrow> chunks b = []"

definition chunk_count :: "batch \<Rightarrow> nat" where
  "chunk_count b = length (chunks b)"

definition byte_count :: "batch \<Rightarrow> nat" where
  "byte_count b = batch_bytes b"

definition take_chunks :: "batch \<Rightarrow> chunk list \<times> batch" where
  "take_chunks b = (chunks b, b\<lparr>batch_bytes := 0, chunks := []\<rparr>)"

definition recycle_chunk :: "chunk \<Rightarrow> batch \<Rightarrow> batch" where
  "recycle_chunk c b =
     (case c of
        Inline v \<Rightarrow>
          if spare_bytes b + vec_cap v \<le> SPARE_BUDGET then
            b\<lparr>spare_bytes := spare_bytes b + vec_cap (vec_clear v), spare := spare b @ [vec_clear v]\<rparr>
          else b
      | Segment _ \<Rightarrow> b)"

definition recycle :: "batch \<Rightarrow> chunk list \<Rightarrow> batch" where
  "recycle b cs = (fold recycle_chunk cs b)\<lparr>chunks := []\<rparr>"

section \<open>The reference framing\<close>

text \<open>
  The segment count minus one, each segment's length in words, padding to a word
  boundary, then the segments: all counts little-endian 32-bit.
\<close>

definition frame_table :: "out_message \<Rightarrow> bytes" where
  "frame_table m =
     to_le 4 (word_of_nat (length m - 1) :: u32)
     @ concat (map (\<lambda>s. to_le 4 (word_of_nat (length s div 8) :: u32)) m)
     @ (if even (length m) then [0, 0, 0, 0] else [])"

definition serialize :: "out_message \<Rightarrow> bytes" where
  "serialize m = frame_table m @ concat m"

definition content :: "chunk list \<Rightarrow> bytes" where
  "content cs = concat (map chunk_as_init cs)"

text \<open>
  The invariant of a batch: the byte counter is the number of bytes in the chunks, no chunk
  is empty, two inline chunks never follow each other, a referenced segment is a whole
  segment of the message it keeps alive and longer than the inline limit, and the spare
  buffers are empty, counted at their capacity and within the budget.
\<close>

fun chunk_ok :: "nat \<Rightarrow> chunk \<Rightarrow> bool" where
  "chunk_ok limit (Inline v) \<longleftrightarrow> vec_bytes v \<noteq> []"
| "chunk_ok limit (Segment s) \<longleftrightarrow>
     seg_ptr s < length (seg_message s) \<and> seg_len s = length (seg_message s ! seg_ptr s)
     \<and> limit < seg_len s"

definition spread :: "chunk list \<Rightarrow> bool" where
  "spread cs \<longleftrightarrow> successively (\<lambda>c d. \<not> (is_inline c \<and> is_inline d)) cs"

definition spare_ok :: "batch \<Rightarrow> bool" where
  "spare_ok b \<longleftrightarrow>
     list_all (\<lambda>v. vec_bytes v = []) (spare b)
     \<and> spare_bytes b = sum_list (map vec_cap (spare b)) \<and> spare_bytes b \<le> SPARE_BUDGET"

definition batch_inv :: "batch \<Rightarrow> bool" where
  "batch_inv b \<longleftrightarrow>
     batch_bytes b = length (content (chunks b)) \<and> list_all (chunk_ok (inline_limit b)) (chunks b)
     \<and> spread (chunks b) \<and> spare_ok b"

section \<open>Lemmas\<close>

lemma content_simps [simp]:
  "content [] = []"
  "content (c # cs) = chunk_as_init c @ content cs"
  "content (cs @ ds) = content cs @ content ds"
  by (simp_all add: content_def)

lemma length_concat_le4:
  "length (concat (map (\<lambda>s. to_le 4 (f s :: u32)) m)) = 4 * length m"
  by (induction m) simp_all

lemma length_frame_table: "length (frame_table m) = next_multiple_of (4 * (length m + 1)) WORD"
proof -
  have "length (frame_table m) = 4 + 4 * length m + (if even (length m) then 4 else 0)"
    by (simp add: frame_table_def length_concat_le4)
  also have "\<dots> = next_multiple_of (4 * (length m + 1)) 8"
    unfolding next_multiple_of_def by (cases "even (length m)"; auto elim!: evenE oddE)
  finally show ?thesis by (simp add: WORD_def)
qed

text \<open>
  \<open>chunks_ok\<close> is the invariant without the byte counter, which the operations update
  last; \<open>open_tail\<close> is the state behind \<open>inline_tail\<close>: the last chunk is inline and may
  still be empty.
\<close>

definition chunks_ok :: "batch \<Rightarrow> bool" where
  "chunks_ok b \<longleftrightarrow>
     list_all (chunk_ok (inline_limit b)) (chunks b) \<and> spread (chunks b) \<and> spare_ok b"

definition open_tail :: "batch \<Rightarrow> bool" where
  "open_tail b \<longleftrightarrow>
     (\<exists>cs v. chunks b = cs @ [Inline v] \<and> list_all (chunk_ok (inline_limit b)) cs)
     \<and> spread (chunks b) \<and> spare_ok b"

lemma batch_inv_iff:
  "batch_inv b \<longleftrightarrow> chunks_ok b \<and> batch_bytes b = length (content (chunks b))"
  by (auto simp: batch_inv_def chunks_ok_def)

lemma spread_snoc:
  "spread (cs @ [c]) \<longleftrightarrow> spread cs \<and> (cs = [] \<or> \<not> (is_inline (last cs) \<and> is_inline c))"
  by (auto simp: spread_def successively_append_iff)

lemma inline_tail_open:
  assumes "chunks_ok b"
  shows "open_tail (inline_tail b)"
    and "content (chunks (inline_tail b)) = content (chunks b)"
    and "inline_limit (inline_tail b) = inline_limit b"
    and "batch_bytes (inline_tail b) = batch_bytes b"
proof -
  consider (keep) cs v where "chunks b = cs @ [Inline v]"
    | (reuse) vs v where "chunks b = [] \<or> \<not> is_inline (last (chunks b))" "spare b = vs @ [v]"
    | (fresh) "chunks b = [] \<or> \<not> is_inline (last (chunks b))" "spare b = []"
    by (cases "chunks b" rule: rev_cases; cases "spare b" rule: rev_cases)
      (auto elim: is_inline.elims)
  then show "open_tail (inline_tail b)"
    and "content (chunks (inline_tail b)) = content (chunks b)"
    and "inline_limit (inline_tail b) = inline_limit b"
    and "batch_bytes (inline_tail b) = batch_bytes b"
    by (cases; use assms in
        \<open>auto simp: inline_tail_def chunks_ok_def open_tail_def spread_snoc spare_ok_def\<close>)+
qed

lemma extend_last_ready:
  assumes "open_tail b"
  shows "bs \<noteq> [] \<Longrightarrow> chunks_ok (extend_last bs b)"
    and "open_tail (extend_last bs b)"
    and "content (chunks (extend_last bs b)) = content (chunks b) @ bs"
    and "inline_limit (extend_last bs b) = inline_limit b"
    and "batch_bytes (extend_last bs b) = batch_bytes b"
  using assms
  by (auto simp: open_tail_def extend_last_def chunks_ok_def spread_snoc spare_ok_def)

text \<open>A run of extensions of the open tail.\<close>

lemma fold_extend_last:
  assumes "open_tail b" and "chunks_ok b" and "\<And>s. f s \<noteq> []"
  shows "open_tail (fold (\<lambda>s. extend_last (f s)) ss b) \<and> chunks_ok (fold (\<lambda>s. extend_last (f s)) ss b)
    \<and> content (chunks (fold (\<lambda>s. extend_last (f s)) ss b)) = content (chunks b) @ concat (map f ss)
    \<and> inline_limit (fold (\<lambda>s. extend_last (f s)) ss b) = inline_limit b
    \<and> batch_bytes (fold (\<lambda>s. extend_last (f s)) ss b) = batch_bytes b"
  using assms(1,2)
proof (induction ss arbitrary: b)
  case (Cons s ss)
  then show ?case
    using Cons.IH [of "extend_last (f s) b"] extend_last_ready [OF Cons.prems(1), of "f s"] assms(3)
    by simp
qed simp

lemma to_le_4_nonempty: "to_le 4 w \<noteq> []"
  using length_to_le [of 4 w] by fastforce

lemma push_table_frame:
  assumes "chunks_ok b" and "m \<noteq> []"
  shows "chunks_ok (push_table m b)"
    and "content (chunks (push_table m b)) = content (chunks b) @ frame_table m"
    and "inline_limit (push_table m b) = inline_limit b"
    and "batch_bytes (push_table m b) = batch_bytes b + length (frame_table m)"
proof -
  define b1 where "b1 = extend_last (to_le 4 (word_of_nat (length m) - 1 :: u32)) (inline_tail b)"
  define b2 where "b2 = fold (\<lambda>segment. extend_last (to_le 4 (word_of_nat (length segment div WORD) :: u32))) m b1"
  define b3 where "b3 = (if length m mod 2 = 0 then extend_last [0, 0, 0, 0] b2 else b2)"
  have push: "push_table m b =
      b3\<lparr>batch_bytes := batch_bytes b3 + next_multiple_of (4 * (length m + 1)) WORD\<rparr>"
    by (simp add: push_table_def b1_def b2_def b3_def Let_def)
  have count: "(word_of_nat (length m) - 1 :: u32) = word_of_nat (length m - 1)"
    using assms(2) by (cases m) simp_all
  have b1: "open_tail b1" "chunks_ok b1" "inline_limit b1 = inline_limit b" "batch_bytes b1 = batch_bytes b"
    "content (chunks b1) = content (chunks b) @ to_le 4 (word_of_nat (length m - 1) :: u32)"
    using extend_last_ready [OF inline_tail_open(1) [OF assms(1)]] inline_tail_open [OF assms(1)]
    by (simp_all add: b1_def count to_le_4_nonempty)
  have b2: "open_tail b2" "chunks_ok b2" "inline_limit b2 = inline_limit b" "batch_bytes b2 = batch_bytes b"
    "content (chunks b2) = content (chunks b1)
       @ concat (map (\<lambda>s. to_le 4 (word_of_nat (length s div WORD) :: u32)) m)"
    using fold_extend_last [OF b1(1,2), of "\<lambda>s. to_le 4 (word_of_nat (length s div WORD) :: u32)" m]
      b1(3,4) to_le_4_nonempty
    unfolding b2_def by auto
  have "chunks_ok b3" "inline_limit b3 = inline_limit b" "batch_bytes b3 = batch_bytes b"
    "content (chunks b3) = content (chunks b2) @ (if even (length m) then [0, 0, 0, 0] else [])"
    using extend_last_ready [OF b2(1), of "[0, 0, 0, 0]"] b2(2,3,4)
    by (auto simp: b3_def even_iff_mod_2_eq_zero)
  then show "chunks_ok (push_table m b)"
    and "content (chunks (push_table m b)) = content (chunks b) @ frame_table m"
    and "inline_limit (push_table m b) = inline_limit b"
    and "batch_bytes (push_table m b) = batch_bytes b + length (frame_table m)"
    using b1(5) b2(5) length_frame_table [of m]
    by (auto simp: push chunks_ok_def spare_ok_def frame_table_def WORD_def)
qed

lemma push_segment_frame:
  assumes "chunks_ok b" and "fst is < length m" and "snd is = m ! fst is"
  shows "chunks_ok (push_segment m is b)"
    and "content (chunks (push_segment m is b)) = content (chunks b) @ snd is"
    and "inline_limit (push_segment m is b) = inline_limit b"
    and "batch_bytes (push_segment m is b) = batch_bytes b + length (snd is)"
proof -
  note tail = extend_last_ready [OF inline_tail_open(1) [OF assms(1)], of "snd is"]
    inline_tail_open(2-4) [OF assms(1)]
  show "chunks_ok (push_segment m is b)"
    using tail assms
    by (auto simp: push_segment_def Let_def chunks_ok_def spare_ok_def spread_snoc)
  show "content (chunks (push_segment m is b)) = content (chunks b) @ snd is"
    and "inline_limit (push_segment m is b) = inline_limit b"
    and "batch_bytes (push_segment m is b) = batch_bytes b + length (snd is)"
    using tail assms by (auto simp: push_segment_def Let_def segment_as_init_def)
qed

lemma fold_push_segment:
  assumes "chunks_ok b" and "\<forall>is \<in> set iss. fst is < length m \<and> snd is = m ! fst is"
  shows "chunks_ok (fold (push_segment m) iss b)
    \<and> content (chunks (fold (push_segment m) iss b)) = content (chunks b) @ concat (map snd iss)
    \<and> inline_limit (fold (push_segment m) iss b) = inline_limit b
    \<and> batch_bytes (fold (push_segment m) iss b) = batch_bytes b + length (concat (map snd iss))"
  using assms
proof (induction iss arbitrary: b)
  case (Cons i iss)
  then show ?case
    using Cons.IH [of "push_segment m i b"] push_segment_frame [OF Cons.prems(1), of i m] by simp
qed simp

lemma push_frame:
  assumes "chunks_ok b" and "m \<noteq> []"
  shows "chunks_ok (push b m)"
    and "content (chunks (push b m)) = content (chunks b) @ serialize m"
    and "inline_limit (push b m) = inline_limit b"
    and "batch_bytes (push b m) = batch_bytes b + length (serialize m)"
proof -
  have "\<forall>is \<in> set (List.enumerate 0 m). fst is < length m \<and> snd is = m ! fst is"
    by (auto simp: in_set_enumerate_eq)
  from fold_push_segment [OF push_table_frame(1) [OF assms] this] push_table_frame [OF assms]
  show "chunks_ok (push b m)"
    and "content (chunks (push b m)) = content (chunks b) @ serialize m"
    and "inline_limit (push b m) = inline_limit b"
    and "batch_bytes (push b m) = batch_bytes b + length (serialize m)"
    by (auto simp: push_def serialize_def)
qed

lemma push_inv: "batch_inv b \<Longrightarrow> m \<noteq> [] \<Longrightarrow> batch_inv (push b m)"
  by (simp add: batch_inv_iff push_frame)

lemma batch_inv_new: "batch_inv (batch_new limit)"
  by (simp add: batch_inv_def batch_new_def spread_def spare_ok_def)

lemma batch_inv_take: "batch_inv b \<Longrightarrow> batch_inv (snd (take_chunks b))"
  by (simp add: batch_inv_def take_chunks_def spread_def spare_ok_def)

lemma take_chunks_simps [simp]:
  "fst (take_chunks b) = chunks b"
  "chunks (snd (take_chunks b)) = []"
  by (simp_all add: take_chunks_def)

lemma recycle_chunk_frame:
  "spare_ok b \<Longrightarrow> spare_ok (recycle_chunk c b)"
  "batch_bytes (recycle_chunk c b) = batch_bytes b"
  "inline_limit (recycle_chunk c b) = inline_limit b"
  by (auto simp: recycle_chunk_def spare_ok_def split: chunk.split)

lemma fold_recycle_chunk:
  assumes "spare_ok b"
  shows "spare_ok (fold recycle_chunk cs b) \<and> batch_bytes (fold recycle_chunk cs b) = batch_bytes b
     \<and> inline_limit (fold recycle_chunk cs b) = inline_limit b"
  using assms by (induction cs arbitrary: b) (simp_all add: recycle_chunk_frame)

lemma batch_inv_recycle:
  assumes "batch_inv b" and "chunks b = []"
  shows "batch_inv (recycle b cs)"
  using assms fold_recycle_chunk [of b cs]
  by (simp add: batch_inv_def recycle_def spread_def spare_ok_def)

lemma content_empty_iff: "batch_inv b \<Longrightarrow> content (chunks b) = [] \<longleftrightarrow> chunks b = []"
proof (cases "chunks b")
  case (Cons c cs)
  moreover assume "batch_inv b"
  ultimately have "chunk_as_init c \<noteq> []"
    by (cases c) (auto simp: batch_inv_def segment_as_init_def)
  then show ?thesis by (simp add: Cons)
qed simp

section \<open>The contract of a batch\<close>

text \<open>
  What the connection's writer relies on: pushing appends the message's framing to the
  bytes held, taking hands out exactly those bytes and leaves none, recycling the chunks
  of an emptied batch keeps it empty, and the counters tell the truth.
\<close>

locale out_batch =
  fixes inv :: "'b \<Rightarrow> bool"
    and held :: "'b \<Rightarrow> bytes"
    and push_op :: "'b \<Rightarrow> out_message \<Rightarrow> 'b"
    and take_op :: "'b \<Rightarrow> chunk list \<times> 'b"
    and recycle_op :: "'b \<Rightarrow> chunk list \<Rightarrow> 'b"
    and empty_op :: "'b \<Rightarrow> bool"
    and count_op :: "'b \<Rightarrow> nat"
  assumes inv_push: "inv b \<Longrightarrow> m \<noteq> [] \<Longrightarrow> inv (push_op b m)"
    and held_push: "inv b \<Longrightarrow> m \<noteq> [] \<Longrightarrow> held (push_op b m) = held b @ serialize m"
    and take_held: "inv b \<Longrightarrow> content (fst (take_op b)) = held b"
    and inv_take: "inv b \<Longrightarrow> inv (snd (take_op b))"
    and take_empty: "inv b \<Longrightarrow> held (snd (take_op b)) = []"
    and inv_recycle: "inv b \<Longrightarrow> held b = [] \<Longrightarrow> inv (recycle_op b cs)"
    and held_recycle: "inv b \<Longrightarrow> held b = [] \<Longrightarrow> held (recycle_op b cs) = []"
    and empty_iff: "inv b \<Longrightarrow> empty_op b \<longleftrightarrow> held b = []"
    and count_held: "inv b \<Longrightarrow> count_op b = length (held b)"
begin

lemma push_all:
  assumes "inv b" and "list_all (\<lambda>m. m \<noteq> []) ms"
  shows "inv (foldl push_op b ms) \<and> held (foldl push_op b ms) = held b @ concat (map serialize ms)"
  using assms
proof (induction ms arbitrary: b)
  case (Cons m ms)
  then show ?case using Cons.IH [of "push_op b m"] by (simp add: inv_push held_push)
qed simp

text \<open>One round of the writer: push, take, write, recycle.\<close>

lemma round_trip:
  assumes "inv b" and "held b = []" and "list_all (\<lambda>m. m \<noteq> []) ms"
  shows "let (cs, b') = take_op (foldl push_op b ms) in
         content cs = concat (map serialize ms) \<and> inv (recycle_op b' cs) \<and> held (recycle_op b' cs) = []"
  using push_all [OF assms(1,3)] assms(2) take_held inv_take take_empty inv_recycle held_recycle
  by (auto split: prod.split) (metis fst_conv snd_conv)+

end

interpretation frame_batch: out_batch batch_inv "\<lambda>b. content (chunks b)" push take_chunks recycle
    is_empty byte_count
proof unfold_locales
  fix b :: batch and m :: out_message
  assume "batch_inv b" and "m \<noteq> []"
  then show "content (chunks (push b m)) = content (chunks b) @ serialize m"
    by (simp add: push_frame batch_inv_iff)
next
  fix b :: batch and cs
  show "content (chunks (recycle b cs)) = []"
    by (simp add: recycle_def)
next
  fix b :: batch and cs
  assume "batch_inv b"
  then show "byte_count b = length (content (chunks b))"
    by (simp add: byte_count_def batch_inv_def)
qed (simp_all add: push_inv batch_inv_take batch_inv_recycle content_empty_iff is_empty_def)

section \<open>Properties\<close>

text \<open>
  The life of a batch: created, pushed to, and emptied by a write that hands the taken
  chunks back for recycling.
\<close>

inductive batch_reach :: "nat \<Rightarrow> batch \<Rightarrow> bool" for limit where
  reach_new: "batch_reach limit (batch_new limit)"
| reach_push: "batch_reach limit b \<Longrightarrow> m \<noteq> [] \<Longrightarrow> batch_reach limit (push b m)"
| reach_write: "batch_reach limit b \<Longrightarrow> take_chunks b = (cs, b') \<Longrightarrow>
     batch_reach limit (recycle b' cs)"

lemma batch_reach_inv: "batch_reach limit b \<Longrightarrow> batch_inv b \<and> inline_limit b = limit"
proof (induction rule: batch_reach.induct)
  case reach_new
  then show ?case by (simp add: batch_inv_new) (simp add: batch_new_def)
next
  case (reach_push b m)
  then show ?case by (simp add: push_inv push_frame batch_inv_iff)
next
  case (reach_write b cs b')
  then have "batch_inv b'" and "chunks b' = []" and "inline_limit b' = limit"
    using batch_inv_take [of b] by (auto simp: take_chunks_def)
  then show ?case
    using fold_recycle_chunk [of b' cs] batch_inv_recycle
    by (simp add: recycle_def batch_inv_def)
qed

text \<open>C23: A batch is byte for byte the documented stream framing. Whatever was pushed before
  and however chunks were split, inlined or recycled, the chunks taken after pushing
  messages hold the earlier bytes followed by the framing of every message in order, and
  the byte counter is their length.\<close>

theorem batch_writes_capnp_framing:
  assumes "batch_reach limit b" and "list_all (\<lambda>m. m \<noteq> []) ms"
  shows "content (fst (take_chunks (foldl push b ms)))
         = content (chunks b) @ concat (map serialize ms)
       \<and> byte_count (foldl push b ms) = length (content (chunks b) @ concat (map serialize ms))"
proof -
  have "batch_inv b" using assms(1) by (simp add: batch_reach_inv)
  then show ?thesis
    using frame_batch.push_all [OF _ assms(2)] frame_batch.take_held frame_batch.count_held
    by metis
qed

theorem batch_writes_capnp_framing_witness:
  "content (fst (take_chunks (foldl push (batch_new 4) [[[1,2,3,4,5,6,7,8], []]])))
   = [1,0,0,0, 1,0,0,0, 0,0,0,0, 0,0,0,0, 1,2,3,4,5,6,7,8]"
proof -
  have "content (chunks (batch_new 4)) @ concat (map serialize [[[1,2,3,4,5,6,7,8], []]])
        = [1,0,0,0, 1,0,0,0, 0,0,0,0, 0,0,0,0, 1,2,3,4,5,6,7,8]"
    by code_simp
  then show ?thesis
    using batch_writes_capnp_framing [OF reach_new, of "[[[1,2,3,4,5,6,7,8], []]]" 4] by simp
qed

text \<open>C26: Every reachable batch is memory-safe and bounded: a chunk that references a segment
  covers exactly one whole segment of the message it keeps alive and is longer than the
  inline limit, no chunk handed to the write is empty, and the recycled buffers never hold
  more than the spare budget.\<close>

theorem batch_chunks_safe:
  assumes "batch_reach limit b"
  shows "list_all (\<lambda>c. chunk_as_init c \<noteq> [] \<and>
           (case c of
              Inline v \<Rightarrow> True
            | Segment s \<Rightarrow> seg_ptr s < length (seg_message s)
                \<and> segment_as_init s = seg_message s ! seg_ptr s \<and> limit < seg_len s)) (chunks b)
       \<and> sum_list (map vec_cap (spare b)) \<le> SPARE_BUDGET
       \<and> spare_bytes b = sum_list (map vec_cap (spare b))"
proof -
  have inv: "batch_inv b" and limit: "inline_limit b = limit"
    using assms batch_reach_inv by blast+
  have "chunk_as_init c \<noteq> [] \<and>
           (case c of
              Inline v \<Rightarrow> True
            | Segment s \<Rightarrow> seg_ptr s < length (seg_message s)
                \<and> segment_as_init s = seg_message s ! seg_ptr s \<and> limit < seg_len s)"
    if "chunk_ok limit c" for c
    using that by (cases c) (auto simp: segment_as_init_def)
  then have "list_all (chunk_ok limit) cs \<Longrightarrow> list_all (\<lambda>c. chunk_as_init c \<noteq> [] \<and>
           (case c of
              Inline v \<Rightarrow> True
            | Segment s \<Rightarrow> seg_ptr s < length (seg_message s)
                \<and> segment_as_init s = seg_message s ! seg_ptr s \<and> limit < seg_len s)) cs" for cs
    by (simp add: list.pred_mono_strong)
  then show ?thesis
    using inv limit by (simp add: batch_inv_def spare_ok_def)
qed

theorem batch_chunks_safe_witness:
  "list_all (\<lambda>c. chunk_as_init c \<noteq> []) (chunks (push (batch_new 4) [[1,2,3,4,5,6,7,8]]))
   \<and> length (chunks (push (batch_new 4) [[1,2,3,4,5,6,7,8]])) = 2"
proof
  have "batch_reach 4 (push (batch_new 4) [[1,2,3,4,5,6,7,8]])"
    by (intro reach_push reach_new) simp
  from batch_chunks_safe [OF this]
  show "list_all (\<lambda>c. chunk_as_init c \<noteq> []) (chunks (push (batch_new 4) [[1,2,3,4,5,6,7,8]]))"
    by (auto simp: list.pred_set)
  show "length (chunks (push (batch_new 4) [[1,2,3,4,5,6,7,8]])) = 2"
    by code_simp
qed

end
