(* ===== verification/Frame_Inbound.thy ===== *)
theory Frame_Inbound
  imports Frame_Batch
begin

text \<open>
  The incoming half of \<open>src/src/rpc/frame.rs\<close>: \<open>Inbound\<close> reads framed messages from a
  stream through a staging buffer, and the \<open>check\<close> module's \<open>Trickle\<close> reader and
  \<open>ours\<close> loop. The stream is a parameter (\<open>reader_ops\<close>: \<open>append\<close> into the spare
  capacity of a vector and \<open>read_exact\<close>, both of \<open>compio\<close>), and so are the segment
  containers of \<open>capnp\<close> (\<open>capnp_ops\<close>). \<open>byte_stream\<close> and \<open>capnp_framing\<close> are
  the laws the code relies on; \<open>Trickle\<close> is a \<open>byte_stream\<close>. \<open>parse_frame\<close> is what
  a message on the wire means, independent of how the bytes arrive.
\<close>

section \<open>Interfaces of the crates the reader is built on\<close>

record 'r reader_ops =
  read_append :: "'r \<Rightarrow> nat \<Rightarrow> (io_error + bytes) \<times> 'r"
  read_exact :: "'r \<Rightarrow> nat \<Rightarrow> (io_error + bytes) \<times> 'r"

text \<open>
  \<open>'b\<close> is \<open>SegmentLengthsBuilder\<close> and \<open>'s\<close> is \<open>OwnedSegments\<close>; \<open>segments_write s at bs\<close>
  is \<open>s[at..at + bs.len()].copy_from_slice(bs)\<close>.
\<close>

record ('b, 's) capnp_ops =
  segments_count_limit :: nat
  from_io :: "io_error \<Rightarrow> capnp_kind"
  lengths_with_capacity :: "nat \<Rightarrow> 'b"
  try_push_segment :: "'b \<Rightarrow> nat \<Rightarrow> capnp_kind + 'b"
  total_words :: "'b \<Rightarrow> nat"
  into_owned_segments :: "'b \<Rightarrow> 's"
  segments_write :: "'s \<Rightarrow> nat \<Rightarrow> bytes \<Rightarrow> 's"
  segment_count :: "'s \<Rightarrow> nat"
  get_segment :: "'s \<Rightarrow> nat \<Rightarrow> bytes option"

record reader_options =
  traversal_limit_in_words :: "nat option"
  nesting_limit :: nat

section \<open>The inbound reader\<close>

record inbound =
  staging :: vec
  pos :: nat
  capacity :: nat
  options :: reader_options

definition inbound_new :: "reader_options \<Rightarrow> nat \<Rightarrow> inbound" where
  "inbound_new opts cap =
     \<lparr>staging = vec_with_capacity cap, pos = 0, capacity = cap, options = opts\<rparr>"

definition word_at :: "inbound \<Rightarrow> nat \<Rightarrow> u32" where
  "word_at ib index = from_le (take 4 (drop (pos ib + index * 4) (vec_bytes (staging ib))))"

text \<open>
  The head of the loop body of \<open>fill\<close>: drop what was consumed and reserve room for the
  bytes wanted.
\<close>

definition make_room :: "nat \<Rightarrow> inbound \<Rightarrow> inbound" where
  "make_room needed ib =
     (let ib = (if 0 < pos ib then ib\<lparr>staging := vec_drain (pos ib) (staging ib), pos := 0\<rparr> else ib);
          wanted = max (capacity ib) needed
      in if vec_cap (staging ib) < wanted
         then ib\<lparr>staging := vec_reserve_exact (wanted - length (vec_bytes (staging ib))) (staging ib)\<rparr>
         else ib)"

definition append_staging :: "bytes \<Rightarrow> inbound \<Rightarrow> inbound" where
  "append_staging got ib = ib\<lparr>staging := (staging ib)\<lparr>vec_bytes := vec_bytes (staging ib) @ got\<rparr>\<rparr>"

lemma make_room_simps [simp]:
  "vec_bytes (staging (make_room needed ib)) = drop (pos ib) (vec_bytes (staging ib))"
  "pos (make_room needed ib) = 0"
  "capacity (make_room needed ib) = capacity ib"
  "options (make_room needed ib) = options ib"
  by (auto simp: make_room_def Let_def)

lemma append_staging_simps [simp]:
  "vec_bytes (staging (append_staging got ib)) = vec_bytes (staging ib) @ got"
  "vec_cap (staging (append_staging got ib)) = vec_cap (staging ib)"
  "pos (append_staging got ib) = pos ib"
  "capacity (append_staging got ib) = capacity ib"
  "options (append_staging got ib) = options ib"
  by (simp_all add: append_staging_def)

function fill :: "'r reader_ops \<Rightarrow> (io_error \<Rightarrow> capnp_kind) \<Rightarrow> inbound \<Rightarrow> 'r \<Rightarrow> nat \<Rightarrow> bool
    \<Rightarrow> (capnp_kind + bool) \<times> inbound \<times> 'r" where
  "fill rd conv ib r needed eof_ok =
     (if length (vec_bytes (staging ib)) - pos ib < needed then
        let ib = make_room needed ib
        in (case read_append rd r (vec_cap (staging ib) - length (vec_bytes (staging ib))) of
              (Inl e, r') \<Rightarrow> (Inl (conv e), ib, r')
            | (Inr got, r') \<Rightarrow>
                let ib' = append_staging got ib
                in if got = [] then
                     (if eof_ok \<and> vec_bytes (staging ib') = [] then (Inr False, ib', r')
                      else (Inl PrematureEndOfFile, ib', r'))
                   else fill rd conv ib' r' needed eof_ok)
      else (Inr True, ib, r))"
  by pat_completeness auto
termination
  by (relation "measure (\<lambda>(rd, conv, ib, r, needed, eof_ok).
        needed - (length (vec_bytes (staging ib)) - pos ib))")
    (auto simp: diff_less_mono2 simp flip: length_greater_0_conv)

declare fill.simps [simp del]

text \<open>The loop over the segment table: \<open>lengths.try_push_segment(word_at(index + 1))?\<close>.\<close>

fun push_lengths :: "('b, 's) capnp_ops \<Rightarrow> inbound \<Rightarrow> nat list \<Rightarrow> 'b \<Rightarrow> capnp_kind + 'b" where
  "push_lengths ops ib [] lengths = Inr lengths"
| "push_lengths ops ib (index # is) lengths =
     bindr (try_push_segment ops lengths (unat (word_at ib (index + 1))))
       (push_lengths ops ib is)"

definition exceeds :: "nat option \<Rightarrow> nat \<Rightarrow> bool" where
  "exceeds limit n = (case limit of Some l \<Rightarrow> l < n | None \<Rightarrow> False)"

definition read_body :: "('b, 's) capnp_ops \<Rightarrow> 'r reader_ops \<Rightarrow> inbound \<Rightarrow> 'r \<Rightarrow> 'b
    \<Rightarrow> (capnp_kind + 's option) \<times> inbound \<times> 'r" where
  "read_body ops rd ib r lengths =
     (let body_len = total_words ops lengths * WORD;
          segments = into_owned_segments ops lengths
      in if body_len \<le> capacity ib then
           (case fill rd (from_io ops) ib r body_len False of
              (Inl e, ib, r) \<Rightarrow> (Inl e, ib, r)
            | (Inr _, ib, r) \<Rightarrow>
                (Inr (Some (segments_write ops segments 0
                              (take body_len (drop (pos ib) (vec_bytes (staging ib)))))),
                 ib\<lparr>pos := pos ib + body_len\<rparr>, r))
         else
           let buffered = min (length (vec_bytes (staging ib)) - pos ib) body_len;
               segments = segments_write ops segments 0
                            (take buffered (drop (pos ib) (vec_bytes (staging ib))));
               ib = ib\<lparr>pos := pos ib + buffered\<rparr>
           in (case read_exact rd r (body_len - buffered) of
                 (Inl e, r) \<Rightarrow> (Inl (from_io ops e), ib, r)
               | (Inr bs, r) \<Rightarrow> (Inr (Some (segments_write ops segments buffered bs)), ib, r)))"

definition read_table :: "('b, 's) capnp_ops \<Rightarrow> 'r reader_ops \<Rightarrow> inbound \<Rightarrow> 'r \<Rightarrow> nat
    \<Rightarrow> (capnp_kind + 's option) \<times> inbound \<times> 'r" where
  "read_table ops rd ib r count =
     (let table_len = next_multiple_of (4 * (count + 1)) WORD in
      case fill rd (from_io ops) ib r table_len False of
        (Inl e, ib, r) \<Rightarrow> (Inl e, ib, r)
      | (Inr _, ib, r) \<Rightarrow>
          (case push_lengths ops ib [0..<count] (lengths_with_capacity ops count) of
             Inl e \<Rightarrow> (Inl e, ib, r)
           | Inr lengths \<Rightarrow>
               if exceeds (traversal_limit_in_words (options ib)) (total_words ops lengths)
               then (Inl (MessageTooLarge (total_words ops lengths)), ib, r)
               else read_body ops rd (ib\<lparr>pos := pos ib + table_len\<rparr>) r lengths))"

definition inbound_next :: "('b, 's) capnp_ops \<Rightarrow> 'r reader_ops \<Rightarrow> inbound \<Rightarrow> 'r
    \<Rightarrow> (capnp_kind + 's option) \<times> inbound \<times> 'r" where
  "inbound_next ops rd ib r =
     (case fill rd (from_io ops) ib r WORD True of
        (Inl e, ib, r) \<Rightarrow> (Inl e, ib, r)
      | (Inr False, ib, r) \<Rightarrow> (Inr None, ib, r)
      | (Inr True, ib, r) \<Rightarrow>
          let count = unat (word_at ib 0 + 1) in
          if count = 0 \<or> segments_count_limit ops \<le> count
          then (Inl (InvalidNumberOfSegments count), ib, r)
          else read_table ops rd ib r count)"

section \<open>Reading a whole stream\<close>

text \<open>The segments of a message that was read (\<open>check::segments\<close>).\<close>

definition read_segments :: "('b, 's) capnp_ops \<Rightarrow> 's \<Rightarrow> bytes list" where
  "read_segments ops s = List.map_filter (get_segment ops s) [0..<segment_count ops s]"

text \<open>The loop of \<open>check::ours\<close>; \<open>None\<close> when the fuel runs out.\<close>

fun read_all :: "nat \<Rightarrow> ('b, 's) capnp_ops \<Rightarrow> 'r reader_ops \<Rightarrow> inbound \<Rightarrow> 'r
    \<Rightarrow> (bytes list list \<times> (capnp_kind + unit)) option" where
  "read_all 0 ops rd ib r = None"
| "read_all (Suc fuel) ops rd ib r =
     (case inbound_next ops rd ib r of
        (Inl e, ib, r) \<Rightarrow> Some ([], Inl e)
      | (Inr None, ib, r) \<Rightarrow> Some ([], Inr ())
      | (Inr (Some m), ib, r) \<Rightarrow>
          map_option (\<lambda>(ms, res). (read_segments ops m # ms, res)) (read_all fuel ops rd ib r))"

text \<open>\<open>Trickle\<close>: a reader that hands out its data in pieces of the given sizes.\<close>

record trickle =
  t_data :: bytes
  t_pos :: nat
  t_steps :: "nat list"
  t_step :: nat

definition trickle_new :: "bytes \<Rightarrow> nat list \<Rightarrow> trickle" where
  "trickle_new d s = \<lparr>t_data = d, t_pos = 0, t_steps = s, t_step = 0\<rparr>"

definition trickle_read :: "trickle \<Rightarrow> nat \<Rightarrow> bytes \<times> trickle" where
  "trickle_read t room =
     (let index = t_step t mod max (length (t_steps t)) 1;
          step = max (if index < length (t_steps t) then t_steps t ! index else 2 ^ 64 - 1) 1;
          source = drop (t_pos t) (t_data t);
          n = min (min step room) (length source)
      in (take n source, t\<lparr>t_step := t_step t + 1, t_pos := t_pos t + n\<rparr>))"

text \<open>\<open>append\<close> and \<open>read_exact\<close> over \<open>Trickle::read\<close>.\<close>

definition trickle_append :: "trickle \<Rightarrow> nat \<Rightarrow> (io_error + bytes) \<times> trickle" where
  "trickle_append t room = (case trickle_read t room of (bs, t') \<Rightarrow> (Inr bs, t'))"

function trickle_read_exact :: "trickle \<Rightarrow> nat \<Rightarrow> (io_error + bytes) \<times> trickle" where
  "trickle_read_exact t n =
     (if n = 0 then (Inr [], t)
      else (case trickle_read t n of
              (bs, t') \<Rightarrow>
                if bs = [] then (Inl UnexpectedEof, t')
                else (case trickle_read_exact t' (n - length bs) of
                        (Inl e, t'') \<Rightarrow> (Inl e, t'')
                      | (Inr cs, t'') \<Rightarrow> (Inr (bs @ cs), t''))))"
  by pat_completeness auto
termination
  by (relation "measure snd") (auto simp flip: length_greater_0_conv)

declare trickle_read_exact.simps [simp del]

definition trickle_ops :: "trickle reader_ops" where
  "trickle_ops = \<lparr>read_append = trickle_append, read_exact = trickle_read_exact\<rparr>"

definition ours :: "('b, 's) capnp_ops \<Rightarrow> bytes \<Rightarrow> nat list \<Rightarrow> nat \<Rightarrow> reader_options
    \<Rightarrow> (bytes list list \<times> (capnp_kind + unit)) option" where
  "ours ops stream steps cap opts =
     read_all (length stream + 1) ops trickle_ops (inbound_new opts cap) (trickle_new stream steps)"

section \<open>What the bytes on the wire mean\<close>

fun split_words :: "nat list \<Rightarrow> bytes \<Rightarrow> bytes list" where
  "split_words [] bs = []"
| "split_words (n # ns) bs = take (8 * n) bs # split_words ns (drop (8 * n) bs)"

definition table_lengths :: "nat \<Rightarrow> bytes \<Rightarrow> nat list" where
  "table_lengths count bs =
     map (\<lambda>i. unat (from_le (take 4 (drop (4 * (i + 1)) bs)) :: u32)) [0..<count]"

definition parse_table :: "nat option \<Rightarrow> nat \<Rightarrow> bytes \<Rightarrow> capnp_kind + (bytes list \<times> bytes) option" where
  "parse_table limit count bs =
     (let table_len = next_multiple_of (4 * (count + 1)) 8; ns = table_lengths count bs in
      if length bs < table_len then Inl PrematureEndOfFile
      else if exceeds limit (sum_list ns) then Inl (MessageTooLarge (sum_list ns))
      else if length bs < table_len + 8 * sum_list ns then Inl PrematureEndOfFile
      else Inr (Some (split_words ns (drop table_len bs), drop (table_len + 8 * sum_list ns) bs)))"

definition parse_frame :: "nat \<Rightarrow> nat option \<Rightarrow> bytes \<Rightarrow> capnp_kind + (bytes list \<times> bytes) option" where
  "parse_frame count_limit limit bs =
     (if bs = [] then Inr None
      else if length bs < 8 then Inl PrematureEndOfFile
      else
        let count = unat (from_le (take 4 bs) + 1 :: u32) in
        if count = 0 \<or> count_limit \<le> count then Inl (InvalidNumberOfSegments count)
        else parse_table limit count bs)"

section \<open>Laws\<close>

text \<open>The bytes received but not consumed yet.\<close>

definition buffered :: "inbound \<Rightarrow> bytes" where
  "buffered ib = drop (pos ib) (vec_bytes (staging ib))"

definition inbound_inv :: "inbound \<Rightarrow> bool" where
  "inbound_inv ib \<longleftrightarrow> pos ib \<le> length (vec_bytes (staging ib))"

text \<open>
  \<open>delivers\<close> says that a result of the reader is what parsing the incoming bytes gave,
  with the rest of them still to come.
\<close>

definition delivers :: "('b, 's) capnp_ops \<Rightarrow> ('r \<Rightarrow> bytes) \<Rightarrow> capnp_kind + (bytes list \<times> bytes) option
    \<Rightarrow> inbound \<Rightarrow> (capnp_kind + 's option) \<times> inbound \<times> 'r \<Rightarrow> bool" where
  "delivers ops rest parsed ib out =
     (case out of (res, ib', r') \<Rightarrow>
        capacity ib' = capacity ib \<and> options ib' = options ib
        \<and> vec_cap (staging ib') \<le> max (vec_cap (staging ib)) (max (capacity ib) 2048)
        \<and> (case parsed of
             Inl e \<Rightarrow> res = Inl e
           | Inr None \<Rightarrow> res = Inr None \<and> inbound_inv ib' \<and> buffered ib' @ rest r' = []
           | Inr (Some (segs, tail)) \<Rightarrow> (\<exists>m. res = Inr (Some m) \<and> read_segments ops m = segs)
               \<and> inbound_inv ib' \<and> buffered ib' @ rest r' = tail))"

text \<open>\<open>body_read\<close> says the same of the body of a message whose table gave the lengths \<open>ns\<close>.\<close>

definition body_read :: "('b, 's) capnp_ops \<Rightarrow> ('r \<Rightarrow> bytes) \<Rightarrow> nat list \<Rightarrow> inbound \<Rightarrow> bytes
    \<Rightarrow> (capnp_kind + 's option) \<times> inbound \<times> 'r \<Rightarrow> bool" where
  "body_read ops rest ns ib body out =
     (case out of (res, ib', r') \<Rightarrow>
        capacity ib' = capacity ib \<and> options ib' = options ib
        \<and> vec_cap (staging ib') \<le> max (vec_cap (staging ib)) (capacity ib)
        \<and> (if length body < 8 * sum_list ns then res = Inl PrematureEndOfFile
           else (\<exists>m. res = Inr (Some m) \<and> read_segments ops m = split_words ns (take (8 * sum_list ns) body))
              \<and> inbound_inv ib' \<and> buffered ib' @ rest r' = drop (8 * sum_list ns) body))"

lemma parse_table_shorter:
  "parse_table limit count bs = Inr (Some (m, tail)) \<Longrightarrow> length tail < length bs"
  using next_multiple_of_ge [of 8 "4 * (count + 1)"]
  by (auto simp: parse_table_def Let_def split: if_splits)

lemma parse_frame_shorter:
  "parse_frame cl limit bs = Inr (Some (m, tail)) \<Longrightarrow> length tail < length bs"
  by (auto simp: parse_frame_def Let_def dest: parse_table_shorter split: if_splits)

text \<open>All the messages of a stream and how it ends.\<close>

function parse_all :: "nat \<Rightarrow> nat option \<Rightarrow> bytes \<Rightarrow> bytes list list \<times> (capnp_kind + unit)" where
  "parse_all cl limit bs =
     (case parse_frame cl limit bs of
        Inl e \<Rightarrow> ([], Inl e)
      | Inr None \<Rightarrow> ([], Inr ())
      | Inr (Some (m, tail)) \<Rightarrow> (case parse_all cl limit tail of (ms, res) \<Rightarrow> (m # ms, res)))"
  by pat_completeness auto
termination
  by (relation "measure (\<lambda>(cl, limit, bs). length bs)") (auto dest: parse_frame_shorter)

declare parse_all.simps [simp del]

text \<open>
  A stream without i/o failures: \<open>rest\<close> are the bytes still to come. \<open>append\<close> delivers
  some of them, at least one if there are any and room for it, and none at the end;
  \<open>read_exact\<close> delivers as many as asked for or fails at the end of the stream.
\<close>

locale byte_stream =
  fixes rd :: "'r reader_ops" and rest :: "'r \<Rightarrow> bytes"
  assumes append_some: "0 < room \<Longrightarrow> \<exists>got r'. read_append rd r room = (Inr got, r')
        \<and> rest r = got @ rest r' \<and> length got \<le> room \<and> (got = [] \<longrightarrow> rest r = [])"
    and exact_some: "n \<le> length (rest r) \<Longrightarrow>
        \<exists>r'. read_exact rd r n = (Inr (take n (rest r)), r') \<and> rest r' = drop n (rest r)"
    and exact_eof: "length (rest r) < n \<Longrightarrow> \<exists>r'. read_exact rd r n = (Inl UnexpectedEof, r')"
begin

lemma fill_step:
  assumes "inbound_inv ib" and "length (buffered ib) < needed"
  shows "\<exists>got ib2 r'. rest r = got @ rest r' \<and> (got = [] \<longrightarrow> rest r = [])
    \<and> fill rd conv ib r needed eof_ok =
        (if got = [] then
           (if eof_ok \<and> buffered ib2 = [] then (Inr False, ib2, r') else (Inl PrematureEndOfFile, ib2, r'))
         else fill rd conv ib2 r' needed eof_ok)
    \<and> buffered ib2 = buffered ib @ got \<and> inbound_inv ib2 \<and> capacity ib2 = capacity ib \<and> options ib2 = options ib
    \<and> vec_cap (staging ib2) \<le> max (vec_cap (staging ib)) (max (capacity ib) needed)"
proof -
  define ib1 where "ib1 = make_room needed ib"
  have ib1: "vec_bytes (staging ib1) = buffered ib" "pos ib1 = 0" "capacity ib1 = capacity ib" "options ib1 = options ib"
    by (simp_all add: ib1_def buffered_def)
  have cap: "max (capacity ib) needed \<le> vec_cap (staging ib1)"
    "vec_cap (staging ib1) \<le> max (vec_cap (staging ib)) (max (capacity ib) needed)"
    using assms by (auto simp: ib1_def make_room_def Let_def buffered_def inbound_inv_def)
  then have room: "0 < vec_cap (staging ib1) - length (vec_bytes (staging ib1))"
    using assms(2) ib1(1) by simp
  obtain got r' where rd: "read_append rd r (vec_cap (staging ib1) - length (vec_bytes (staging ib1)))
        = (Inr got, r')" and rest: "rest r = got @ rest r'" "got = [] \<longrightarrow> rest r = []"
    using append_some [OF room, of r] by blast
  define ib2 where "ib2 = append_staging got ib1"
  have ib2: "buffered ib2 = buffered ib @ got" "vec_bytes (staging ib2) = buffered ib @ got" "inbound_inv ib2"
    "capacity ib2 = capacity ib" "options ib2 = options ib" "vec_cap (staging ib2) = vec_cap (staging ib1)"
    using ib1 by (simp_all add: ib2_def buffered_def inbound_inv_def)
  have "fill rd conv ib r needed eof_ok =
      (if got = [] then
         (if eof_ok \<and> buffered ib2 = [] then (Inr False, ib2, r') else (Inl PrematureEndOfFile, ib2, r'))
       else fill rd conv ib2 r' needed eof_ok)"
    using assms(2) rd ib2(1,2) by (subst fill.simps) (simp add: buffered_def ib1_def ib2_def Let_def)
  with rest ib2 cap(2) show ?thesis by (intro exI [of _ got] exI [of _ ib2] exI [of _ r']) simp
qed

lemma fill_spec:
  assumes "inbound_inv ib"
  shows "\<exists>ib' r'. fill rd conv ib r needed eof_ok =
           (if needed \<le> length (buffered ib @ rest r) then Inr True
            else if eof_ok \<and> buffered ib @ rest r = [] then Inr False
            else Inl PrematureEndOfFile, ib', r')
         \<and> inbound_inv ib' \<and> buffered ib' @ rest r' = buffered ib @ rest r
         \<and> (needed \<le> length (buffered ib @ rest r) \<longrightarrow> needed \<le> length (buffered ib'))
         \<and> capacity ib' = capacity ib \<and> options ib' = options ib
         \<and> vec_cap (staging ib') \<le> max (vec_cap (staging ib)) (max (capacity ib) needed)"
  using assms
proof (induction "needed - length (buffered ib)" arbitrary: ib r rule: less_induct)
  case less
  show ?case
  proof (cases "length (buffered ib) < needed")
    case False
    then show ?thesis
      using less.prems by (auto simp: fill.simps buffered_def inbound_inv_def)
  next
    case True
    from fill_step [OF less.prems True, of r conv eof_ok] obtain got ib2 r' where
      rest: "rest r = got @ rest r'" "got = [] \<longrightarrow> rest r = []"
      and step: "fill rd conv ib r needed eof_ok =
        (if got = [] then
           (if eof_ok \<and> buffered ib2 = [] then (Inr False, ib2, r') else (Inl PrematureEndOfFile, ib2, r'))
         else fill rd conv ib2 r' needed eof_ok)"
      and ib2: "buffered ib2 = buffered ib @ got" "inbound_inv ib2" "capacity ib2 = capacity ib" "options ib2 = options ib"
        "vec_cap (staging ib2) \<le> max (vec_cap (staging ib)) (max (capacity ib) needed)"
      by blast
    show ?thesis
    proof (cases "got = []")
      case True
      then show ?thesis using step rest ib2 \<open>length (buffered ib) < needed\<close> by auto
    next
      case False
      then have "needed - length (buffered ib2) < needed - length (buffered ib)"
        using True ib2(1) by (auto intro: diff_less_mono2)
      from less.hyps [OF this ib2(2), of r'] show ?thesis
        using step False ib2 rest(1) by auto
    qed
  qed
qed

end

text \<open>
  The documented behaviour of \<open>capnp\<close>'s segment containers: the builder is the list of
  the lengths pushed, pushing fails only when the total overflows a \<open>usize\<close>, and the owned
  segments are one zeroed block cut up by those lengths.
\<close>

locale capnp_framing =
  fixes ops :: "('b, 's) capnp_ops"
    and lens_of :: "'b \<Rightarrow> nat list" and raw_of :: "'s \<Rightarrow> bytes" and table_of :: "'s \<Rightarrow> nat list"
  assumes count_limit: "segments_count_limit ops = 512"
    and eof_kind: "from_io ops UnexpectedEof = PrematureEndOfFile"
    and lens_new: "lens_of (lengths_with_capacity ops n) = []"
    and lens_push: "sum_list (lens_of b) + n < 2 ^ 64 \<Longrightarrow>
        \<exists>b'. try_push_segment ops b n = Inr b' \<and> lens_of b' = lens_of b @ [n]"
    and total: "total_words ops b = sum_list (lens_of b)"
    and owned_raw: "length (raw_of (into_owned_segments ops b)) = 8 * sum_list (lens_of b)"
    and owned_table: "table_of (into_owned_segments ops b) = lens_of b"
    and write_raw: "at + length bs \<le> length (raw_of s) \<Longrightarrow>
        raw_of (segments_write ops s at bs) = take at (raw_of s) @ bs @ drop (at + length bs) (raw_of s)"
    and write_table: "table_of (segments_write ops s at bs) = table_of s"
    and count_segments: "segment_count ops s = length (table_of s)"
    and get_split: "i < length (table_of s) \<Longrightarrow>
        get_segment ops s i = Some (split_words (table_of s) (raw_of s) ! i)"
begin

lemma length_split_words [simp]: "length (split_words ns bs) = length ns"
  by (induction ns bs rule: split_words.induct) simp_all

lemma read_segments_eq: "read_segments ops s = split_words (table_of s) (raw_of s)"
proof -
  have "read_segments ops s = map (\<lambda>i. split_words (table_of s) (raw_of s) ! i) [0..<length (table_of s)]"
    unfolding read_segments_def count_segments List.map_filter_def
    by (simp add: get_split)
  then show ?thesis
    by (simp add: map_nth [of "split_words (table_of s) (raw_of s)", simplified])
qed

lemma push_lengths_spec:
  assumes "sum_list (lens_of b) + length is * 2 ^ 32 < 2 ^ 64"
  shows "\<exists>b'. push_lengths ops ib is b = Inr b'
           \<and> lens_of b' = lens_of b @ map (\<lambda>i. unat (word_at ib (i + 1))) is"
  using assms
proof (induction "is" arbitrary: b)
  case (Cons i "is")
  let ?n = "unat (word_at ib (i + 1))"
  have n: "?n < 2 ^ 32"
    by (rule unat_u32_less)
  then have "sum_list (lens_of b) + ?n < 2 ^ 64"
    using Cons.prems by simp
  from lens_push [OF this] obtain b1 where
    b1: "try_push_segment ops b ?n = Inr b1" "lens_of b1 = lens_of b @ [?n]" by blast
  then have "sum_list (lens_of b1) + length is * 2 ^ 32 < 2 ^ 64"
    using Cons.prems n by simp
  from Cons.IH [OF this] show ?case using b1 by simp
qed simp

end

locale framed_stream = byte_stream rd rest + capnp_framing ops lens_of raw_of table_of
  for rd :: "'r reader_ops" and rest :: "'r \<Rightarrow> bytes"
    and ops :: "('b, 's) capnp_ops" and lens_of raw_of table_of
begin

lemma staged_body:
  assumes "inbound_inv ib" and staged: "8 * sum_list (lens_of lengths) \<le> capacity ib"
  shows "body_read ops rest (lens_of lengths) ib (buffered ib @ rest r) (read_body ops rd ib r lengths)"
proof -
  define body n where "body = buffered ib @ rest r" and "n = 8 * sum_list (lens_of lengths)"
  obtain res ib1 r1 where fill: "fill rd (from_io ops) ib r n False = (res, ib1, r1)"
    and res: "res = (if n \<le> length body then Inr True else Inl PrematureEndOfFile)"
    and ib1: "inbound_inv ib1" "buffered ib1 @ rest r1 = body" "n \<le> length body \<longrightarrow> n \<le> length (buffered ib1)"
      "capacity ib1 = capacity ib" "options ib1 = options ib"
      "vec_cap (staging ib1) \<le> max (vec_cap (staging ib)) (max (capacity ib) n)"
    using fill_spec [OF assms(1), of "from_io ops" r n False] unfolding body_def by auto
  have bytes: "take n (drop (pos ib1) (vec_bytes (staging ib1))) = take n body" if "n \<le> length body"
    using that ib1(2,3) by (auto simp: buffered_def simp flip: ib1(2))
  have raw: "raw_of (segments_write ops (into_owned_segments ops lengths) 0 (take n body)) = take n body"
    if "n \<le> length body"
    using that write_raw [of 0 "take n body" "into_owned_segments ops lengths"]
    by (simp add: owned_raw n_def)
  have "inbound_inv (ib1\<lparr>pos := pos ib1 + n\<rparr>) \<and> buffered (ib1\<lparr>pos := pos ib1 + n\<rparr>) @ rest r1 = drop n body"
    if "n \<le> length body"
    using that ib1(1,2,3)
    by (auto simp: inbound_inv_def buffered_def add.commute simp flip: ib1(2) drop_drop)
  then show ?thesis
    using staged fill res ib1(4-) bytes raw unfolding body_def [symmetric]
    by (auto simp: body_read_def read_body_def total WORD_def n_def mult.commute read_segments_eq write_table
        owned_table Let_def split: if_splits)
qed

lemma direct_body:
  assumes "inbound_inv ib" and direct: "capacity ib < 8 * sum_list (lens_of lengths)"
  shows "body_read ops rest (lens_of lengths) ib (buffered ib @ rest r) (read_body ops rd ib r lengths)"
proof -
  define body n where "body = buffered ib @ rest r" and "n = 8 * sum_list (lens_of lengths)"
  define k where "k = min (length (buffered ib)) n"
  define segs where "segs = segments_write ops (into_owned_segments ops lengths) 0 (take k (buffered ib))"
  have k: "k \<le> length (buffered ib)" "k \<le> n" by (auto simp: k_def)
  have cut: "length (rest r) < n - k \<longleftrightarrow> length body < n" by (auto simp: k_def body_def)
  have joined: "take k (buffered ib) @ take (n - k) (rest r) = take n body"
      "drop k (buffered ib) @ drop (n - k) (rest r) = drop n body"
    by (auto simp: body_def k_def min_def)
  have read: "read_body ops rd ib r lengths =
      (case read_exact rd r (n - k) of
         (Inl e, r) \<Rightarrow> (Inl (from_io ops e), ib\<lparr>pos := pos ib + k\<rparr>, r)
       | (Inr bs, r) \<Rightarrow> (Inr (Some (segments_write ops segs k bs)), ib\<lparr>pos := pos ib + k\<rparr>, r))"
    using direct
    by (simp add: read_body_def total WORD_def n_def mult.commute k_def segs_def buffered_def Let_def
        split: prod.split sum.split)
  have inv: "inbound_inv (ib\<lparr>pos := pos ib + k\<rparr>)" "buffered (ib\<lparr>pos := pos ib + k\<rparr>) = drop k (buffered ib)"
    using assms(1) k(1) by (auto simp: inbound_inv_def buffered_def add.commute)
  have raw: "raw_of (segments_write ops segs k (take (n - k) (rest r))) = take n body" if "\<not> length body < n"
    using write_raw [of k "take (n - k) (rest r)" segs] write_raw [of 0 "take k (buffered ib)" "into_owned_segments ops lengths"]
      that k cut joined(1) by (simp add: segs_def owned_raw n_def)
  show ?thesis
  proof (cases "length body < n")
    case True
    then show ?thesis
      using exact_eof [of r "n - k"] cut by (auto simp: read eof_kind body_read_def simp flip: body_def n_def)
  next
    case False
    then obtain r1 where "read_exact rd r (n - k) = (Inr (take (n - k) (rest r)), r1)" "rest r1 = drop (n - k) (rest r)"
      using exact_some [of "n - k" r] cut by (auto simp: not_less)
    then show ?thesis
      using False inv raw joined(2)
      by (simp add: read body_read_def read_segments_eq write_table segs_def owned_table flip: body_def n_def)
  qed
qed

lemma read_body_spec:
  "inbound_inv ib \<Longrightarrow> body_read ops rest (lens_of lengths) ib (buffered ib @ rest r) (read_body ops rd ib r lengths)"
  using staged_body direct_body not_less by blast

lemma split_words_take: "split_words ns (take (8 * sum_list ns) bs) = split_words ns bs"
  by (induction ns arbitrary: bs) (simp_all add: drop_take [symmetric] take_drop [symmetric] min_def
      add_mult_distrib2 drop_take)

lemma word_at_stream:
  assumes "4 * i + 4 \<le> length (buffered ib)"
  shows "word_at ib i = from_le (take 4 (drop (4 * i) (buffered ib @ t)))"
proof -
  have "take 4 (drop (4 * i) (buffered ib @ t)) = take 4 (drop (4 * i) (buffered ib))"
    using assms by simp
  also have "drop (4 * i) (buffered ib) = drop (pos ib + i * 4) (vec_bytes (staging ib))"
    by (simp add: buffered_def add.commute mult.commute)
  finally show ?thesis by (simp add: word_at_def)
qed

lemma table_len_bounds:
  assumes "count < 512"
  shows "4 * (count + 1) \<le> next_multiple_of (4 * (count + 1)) WORD"
    and "next_multiple_of (4 * (count + 1)) WORD \<le> 2048"
  using assms next_multiple_of_ge [of WORD "4 * (count + 1)"]
  by (auto simp: WORD_def next_multiple_of_def)

text \<open>The segment table, once it is buffered.\<close>

lemma table_spec:
  assumes "count < 512" and "4 * (count + 1) \<le> length (buffered ib)"
  shows "\<exists>b. push_lengths ops ib [0..<count] (lengths_with_capacity ops count) = Inr b
           \<and> lens_of b = table_lengths count (buffered ib @ t)"
proof -
  have "sum_list (lens_of (lengths_with_capacity ops count)) + length [0..<count] * 2 ^ 32 < 2 ^ 64"
    using assms(1) by (simp add: lens_new)
  from push_lengths_spec [OF this, of ib] obtain b where
    b: "push_lengths ops ib [0..<count] (lengths_with_capacity ops count) = Inr b"
    "lens_of b = map (\<lambda>i. unat (word_at ib (i + 1))) [0..<count]"
    by (auto simp: lens_new)
  moreover have "map (\<lambda>i. unat (word_at ib (i + 1))) [0..<count] = table_lengths count (buffered ib @ t)"
    unfolding table_lengths_def
  proof (rule map_cong)
    fix i assume "i \<in> set [0..<count]"
    then have "4 * (i + 1) + 4 \<le> length (buffered ib)" using assms(2) by auto
    then show "unat (word_at ib (i + 1)) = unat (from_le (take 4 (drop (4 * (i + 1)) (buffered ib @ t))) :: u32)"
      by (simp only: word_at_stream [where t = t])
  qed simp
  ultimately show ?thesis by simp
qed

lemma read_table_spec:
  fixes ib r count
  assumes "inbound_inv ib" and "count < 512"
  defines "S \<equiv> buffered ib @ rest r"
  shows "delivers ops rest (parse_table (traversal_limit_in_words (options ib)) count S) ib
           (read_table ops rd ib r count)"
proof -
  define tlen where "tlen = next_multiple_of (4 * (count + 1)) WORD"
  let ?ns = "table_lengths count S"
  let ?over = "exceeds (traversal_limit_in_words (options ib)) (sum_list ?ns)"
  have tlen: "4 * (count + 1) \<le> tlen" "tlen \<le> 2048"
    unfolding tlen_def using assms(2) table_len_bounds by simp_all
  obtain ib2 r2 where fill2: "fill rd (from_io ops) ib r tlen False =
        (if tlen \<le> length S then Inr True else Inl PrematureEndOfFile, ib2, r2)"
    and ib2: "inbound_inv ib2" "buffered ib2 @ rest r2 = S" "tlen \<le> length S \<longrightarrow> tlen \<le> length (buffered ib2)"
      "capacity ib2 = capacity ib" "options ib2 = options ib"
      "vec_cap (staging ib2) \<le> max (vec_cap (staging ib)) (max (capacity ib) 2048)"
    using fill_spec [OF assms(1), of "from_io ops" r tlen False] tlen(2) unfolding S_def by auto
  have parse: "parse_table limit count S =
      (if length S < tlen then Inl PrematureEndOfFile
       else if exceeds limit (sum_list ?ns) then Inl (MessageTooLarge (sum_list ?ns))
       else if length S < tlen + 8 * sum_list ?ns then Inl PrematureEndOfFile
       else Inr (Some (split_words ?ns (drop tlen S), drop (tlen + 8 * sum_list ?ns) S)))" for limit
    by (simp add: parse_table_def tlen_def WORD_def Let_def)
  show ?thesis
  proof (cases "tlen \<le> length S")
    case False
    then show ?thesis
      using fill2 ib2(4-) parse by (simp add: delivers_def read_table_def tlen_def Let_def)
  next
    case True
    then obtain b where b: "push_lengths ops ib2 [0..<count] (lengths_with_capacity ops count) = Inr b"
      "lens_of b = ?ns"
      using table_spec [of count ib2 "rest r2"] assms(2) tlen(1) ib2(2,3) by auto
    define ib3 where "ib3 = ib2\<lparr>pos := pos ib2 + tlen\<rparr>"
    have ib3: "inbound_inv ib3" "buffered ib3 @ rest r2 = drop tlen S"
      "capacity ib3 = capacity ib" "options ib3 = options ib" "staging ib3 = staging ib2"
      using ib2 True
      by (auto simp: ib3_def inbound_inv_def buffered_def add.commute simp flip: ib2(2))
    have table: "read_table ops rd ib r count =
        (if ?over then (Inl (MessageTooLarge (sum_list ?ns)), ib2, r2) else read_body ops rd ib3 r2 b)"
      using True b fill2 by (simp add: read_table_def tlen_def Let_def total ib2(5) ib3_def)
    have tail: "drop (8 * sum_list ?ns) (drop tlen S) = drop (tlen + 8 * sum_list ?ns) S"
      by (simp add: add.commute)
    have short: "length (drop tlen S) < 8 * sum_list ?ns \<longleftrightarrow> length S < tlen + 8 * sum_list ?ns"
      using True by auto
    show ?thesis
      using read_body_spec [OF ib3(1), of b r2] True ib2(4-)
      unfolding ib3(2-) b(2) body_read_def tail short split_words_take table parse delivers_def
      by (auto split: if_splits)
  qed
qed

lemma next_spec:
  fixes ib r
  assumes "inbound_inv ib"
  defines "S \<equiv> buffered ib @ rest r"
  shows "delivers ops rest (parse_frame 512 (traversal_limit_in_words (options ib)) S) ib
           (inbound_next ops rd ib r)"
proof -
  define count where "count = unat (from_le (take 4 S) + 1 :: u32)"
  obtain ib1 r1 where fill1: "fill rd (from_io ops) ib r WORD True =
        (if 8 \<le> length S then Inr True else if S = [] then Inr False else Inl PrematureEndOfFile, ib1, r1)"
    and ib1: "inbound_inv ib1" "buffered ib1 @ rest r1 = S" "8 \<le> length S \<longrightarrow> 8 \<le> length (buffered ib1)"
      "capacity ib1 = capacity ib" "options ib1 = options ib"
      "vec_cap (staging ib1) \<le> max (vec_cap (staging ib)) (max (capacity ib) 8)"
    using fill_spec [OF assms(1), of "from_io ops" r WORD True] unfolding WORD_def S_def by auto
  have word0: "word_at ib1 0 = from_le (take 4 S)" if "8 \<le> length S"
    using word_at_stream [of 0 ib1 "rest r1"] that ib1(2,3) by simp
  have invalid: "inbound_next ops rd ib r = (Inl (InvalidNumberOfSegments count), ib1, r1)"
    if "8 \<le> length S" and "count = 0 \<or> 512 \<le> count"
    using fill1 that word0 by (auto simp: inbound_next_def count_def count_limit Let_def)
  have table: "inbound_next ops rd ib r = read_table ops rd ib1 r1 count"
    if "8 \<le> length S" and "\<not> (count = 0 \<or> 512 \<le> count)"
    using fill1 that word0 by (auto simp: inbound_next_def count_def count_limit Let_def)
  have deliver: "delivers ops rest parsed ib out" if "delivers ops rest parsed ib1 out" for parsed and out
    using that ib1(4-) by (auto simp: delivers_def split: prod.splits)
  consider (short) "length S < 8" | (bad) "8 \<le> length S" "count = 0 \<or> 512 \<le> count"
    | (good) "8 \<le> length S" "\<not> (count = 0 \<or> 512 \<le> count)" by linarith
  then show ?thesis
  proof cases
    case short
    then show ?thesis
      using fill1 ib1 by (auto simp: inbound_next_def parse_frame_def delivers_def)
  next
    case bad
    then show ?thesis
      using ib1(4-)
      by (auto simp: invalid parse_frame_def
          count_def [symmetric] delivers_def Let_def)
  next
    case good
    then have "parse_frame 512 (traversal_limit_in_words (options ib)) S
        = parse_table (traversal_limit_in_words (options ib1)) count S"
      by (auto simp: parse_frame_def count_def [symmetric] ib1(5) Let_def)
    then show ?thesis
      using good read_table_spec [OF ib1(1), of count r1] ib1(2)
      by (simp add: deliver table)
  qed
qed

lemma read_all_spec:
  assumes "inbound_inv ib" and "length (buffered ib @ rest r) < fuel"
  shows "read_all fuel ops rd ib r
         = Some (parse_all 512 (traversal_limit_in_words (options ib)) (buffered ib @ rest r))"
  using assms
proof (induction fuel arbitrary: ib r)
  case (Suc fuel)
  let ?S = "buffered ib @ rest r" and ?limit = "traversal_limit_in_words (options ib)"
  obtain res ib' r' where next_eq: "inbound_next ops rd ib r = (res, ib', r')"
    by (cases "inbound_next ops rd ib r") auto
  note del = next_spec [OF Suc.prems(1), of r, unfolded next_eq delivers_def, simplified]
  show ?case
  proof (cases "parse_frame 512 ?limit ?S")
    case (Inl e)
    then show ?thesis using del next_eq by (simp add: parse_all.simps)
  next
    case (Inr p)
    show ?thesis
    proof (cases p)
      case None
      then show ?thesis using Inr del next_eq by (simp add: parse_all.simps)
    next
      case (Some x)
      then obtain segs tail where x: "parse_frame 512 ?limit ?S = Inr (Some (segs, tail))"
        using Inr by (cases x) auto
      then obtain m where m: "res = Inr (Some m)" "read_segments ops m = segs" "inbound_inv ib'"
        "buffered ib' @ rest r' = tail" "options ib' = options ib"
        using del by auto
      have "length (buffered ib' @ rest r') < fuel"
        using parse_frame_shorter [OF x] Suc.prems(2) m(4) by simp
      from Suc.IH [OF m(3) this] show ?thesis
        using x m next_eq by (simp add: parse_all.simps [of _ _ ?S] split: prod.split)
    qed
  qed
qed simp

end

section \<open>Instances\<close>

text \<open>\<open>Trickle\<close> is a stream whose remaining bytes are the unread part of its data.\<close>

definition trickle_rest :: "trickle \<Rightarrow> bytes" where
  "trickle_rest t = drop (t_pos t) (t_data t)"

lemma trickle_read_spec:
  assumes "trickle_read t room = (got, t')"
  shows "trickle_rest t = got @ trickle_rest t'" and "length got \<le> room"
    and "0 < room \<Longrightarrow> got = [] \<Longrightarrow> trickle_rest t = []"
proof -
  obtain n where n: "got = take n (trickle_rest t)"
      "trickle_rest t' = drop n (trickle_rest t)" "n \<le> room"
      "0 < room \<Longrightarrow> n = 0 \<Longrightarrow> length (t_data t) \<le> t_pos t"
    using assms by (auto simp: trickle_read_def trickle_rest_def Let_def add.commute split: if_splits)
  show "trickle_rest t = got @ trickle_rest t'" using n by simp
  show "length got \<le> room" using n by simp
  show "0 < room \<Longrightarrow> got = [] \<Longrightarrow> trickle_rest t = []"
    using n by (auto simp: trickle_rest_def)
qed

lemma trickle_read_exact_spec:
  "\<exists>t'. trickle_read_exact t n =
      (if n \<le> length (trickle_rest t) then Inr (take n (trickle_rest t)) else Inl UnexpectedEof, t')
    \<and> (n \<le> length (trickle_rest t) \<longrightarrow> trickle_rest t' = drop n (trickle_rest t))"
proof (induction t n rule: trickle_read_exact.induct)
  case (1 t n)
  show ?case
  proof (cases "n = 0")
    case True
    then show ?thesis by (simp add: trickle_read_exact.simps)
  next
    case False
    obtain got t1 where read: "trickle_read t n = (got, t1)" by (cases "trickle_read t n") auto
    note spec = trickle_read_spec [OF read]
    show ?thesis
    proof (cases "got = []")
      case True
      then show ?thesis
        using False read spec by (auto simp: trickle_read_exact.simps [of t])
    next
      case got: False
      from "1.IH" [OF False read [symmetric] got] show ?thesis
        using False got read spec(1,2) by (auto simp: trickle_read_exact.simps [of t])
    qed
  qed
qed

interpretation trickle: byte_stream trickle_ops trickle_rest
proof
  fix room r assume "0 < (room :: nat)"
  then show "\<exists>got r'. read_append trickle_ops r room = (Inr got, r')
        \<and> trickle_rest r = got @ trickle_rest r' \<and> length got \<le> room \<and> (got = [] \<longrightarrow> trickle_rest r = [])"
    using trickle_read_spec [of r room]
    by (cases "trickle_read r room") (auto simp: trickle_ops_def trickle_append_def)
next
  fix n r assume "n \<le> length (trickle_rest r)"
  then show "\<exists>r'. read_exact trickle_ops r n = (Inr (take n (trickle_rest r)), r')
      \<and> trickle_rest r' = drop n (trickle_rest r)"
    using trickle_read_exact_spec [of r n] by (auto simp: trickle_ops_def)
next
  fix n r assume "length (trickle_rest r) < n"
  then show "\<exists>r'. read_exact trickle_ops r n = (Inl UnexpectedEof, r')"
    using trickle_read_exact_spec [of r n] by (auto simp: trickle_ops_def)
qed

text \<open>Segment containers as a list of lengths and a block of bytes satisfy the laws.\<close>

definition list_capnp :: "(nat list, nat list \<times> bytes) capnp_ops" where
  "list_capnp =
     \<lparr>segments_count_limit = 512,
      from_io = (\<lambda>e. case e of UnexpectedEof \<Rightarrow> PrematureEndOfFile | _ \<Rightarrow> Failed),
      lengths_with_capacity = (\<lambda>_. []),
      try_push_segment = (\<lambda>b n. if sum_list b + n < 2 ^ 64 then Inr (b @ [n]) else Inl MessageSizeOverflow),
      total_words = sum_list,
      into_owned_segments = (\<lambda>b. (b, replicate (8 * sum_list b) 0)),
      segments_write = (\<lambda>s at bs. (fst s, take at (snd s) @ bs @ drop (at + length bs) (snd s))),
      segment_count = (\<lambda>s. length (fst s)),
      get_segment = (\<lambda>s i. if i < length (fst s) then Some (split_words (fst s) (snd s) ! i) else None)\<rparr>"

interpretation list_framing: capnp_framing list_capnp "\<lambda>b. b" snd fst
  by unfold_locales (simp_all add: list_capnp_def)

interpretation trickle_framing: framed_stream trickle_ops trickle_rest list_capnp "\<lambda>b. b" snd fst
  ..

end
