(* ===== verification/Framing.thy ===== *)
theory Framing
  imports Frame_Inbound
begin

text \<open>
  The two halves of \<open>src/src/rpc/frame.rs\<close> together: what \<open>Batch\<close> writes is what
  \<open>Inbound\<close> reads. A message survives the trip when it satisfies \<open>wf_message\<close>, which
  is what the reader accepts: at least one segment and fewer than 512, whole words, lengths
  that fit the table, and no more words than the traversal limit.
\<close>

section \<open>Parsing what was serialized\<close>

definition message_words :: "out_message \<Rightarrow> nat" where
  "message_words m = sum_list (map (\<lambda>s. length s div 8) m)"

definition wf_message :: "nat option \<Rightarrow> out_message \<Rightarrow> bool" where
  "wf_message limit m \<longleftrightarrow>
     m \<noteq> [] \<and> length m < 512
     \<and> list_all (\<lambda>s. length s mod 8 = 0 \<and> length s div 8 < 2 ^ 32) m
     \<and> \<not> exceeds limit (message_words m)"

lemma take_drop_concat_fixed:
  assumes "\<And>x. x \<in> set xs \<Longrightarrow> length (f x) = w" and "i < length xs"
  shows "take w (drop (w * i) (concat (map f xs) @ t)) = f (xs ! i)"
  using assms
proof (induction xs arbitrary: i)
  case (Cons x xs)
  then show ?case by (cases i) (auto simp: drop_append)
qed simp

lemma split_words_concat:
  "list_all (\<lambda>s. length s mod 8 = 0) m \<Longrightarrow> split_words (map (\<lambda>s. length s div 8) m) (concat m @ t) = m"
  by (induction m) (auto simp: mod_0_imp_dvd)

lemma message_bytes:
  "list_all (\<lambda>s. length s mod 8 = 0) m \<Longrightarrow> 8 * message_words m = length (concat m)"
  by (induction m) (auto simp: message_words_def algebra_simps mod_0_imp_dvd)

lemma frame_count:
  assumes "m \<noteq> []" and "length m < 512"
  shows "unat (from_le (take 4 (frame_table m @ t)) + 1 :: u32) = length m"
proof -
  have "from_le (take 4 (frame_table m @ t)) = (word_of_nat (length m - 1) :: u32)"
    by (simp add: frame_table_def from_le_to_le)
  moreover have "(word_of_nat (length m - 1) + 1 :: u32) = word_of_nat (length m)"
    using assms(1) by (cases m) (simp_all add: add.commute)
  ultimately show ?thesis using assms(2) by (simp add: unat_of_nat_u32)
qed

lemma frame_table_lengths:
  assumes "list_all (\<lambda>s. length s div 8 < 2 ^ 32) m"
  shows "table_lengths (length m) (frame_table m @ t) = map (\<lambda>s. length s div 8) m"
proof (rule nth_equalityI)
  fix i assume "i < length (table_lengths (length m) (frame_table m @ t))"
  then have i: "i < length m" by (simp add: table_lengths_def)
  let ?f = "\<lambda>s :: bytes. to_le 4 (word_of_nat (length s div 8) :: u32)"
  have "drop (4 + 4 * i) (to_le 4 (w :: u32) @ xs) = drop (4 * i) xs" for w xs by simp
  then have "take 4 (drop (4 * (i + 1)) (frame_table m @ t)) = ?f (m ! i)"
    using take_drop_concat_fixed [OF _ i, of ?f 4]
    by (simp add: frame_table_def del: take_append drop_append)
  then show "table_lengths (length m) (frame_table m @ t) ! i = map (\<lambda>s. length s div 8) m ! i"
    using i assms
    by (simp add: table_lengths_def from_le_to_le unat_of_nat_u32 list_all_length)
qed (simp add: table_lengths_def)

lemma parse_frame_counted:
  assumes "8 \<le> length bs" and "unat (from_le (take 4 bs) + 1 :: u32) = n" and "0 < n" and "n < cl"
  shows "parse_frame cl limit bs = parse_table limit n bs"
  using assms by (auto simp: parse_frame_def)

lemma wf_messageD:
  assumes "wf_message limit m"
  shows "m \<noteq> []" and "length m < 512" and "list_all (\<lambda>s. length s mod 8 = 0) m"
    and "list_all (\<lambda>s. length s div 8 < 2 ^ 32) m" and "\<not> exceeds limit (message_words m)"
  using assms by (auto simp: wf_message_def list_all_iff)

lemma length_frame_table_ge: "m \<noteq> [] \<Longrightarrow> 8 \<le> length (frame_table m)"
  by (cases m) (auto simp: frame_table_def)

text \<open>
  A stream that starts with the table of a message parses to it when the segments are
  there, and to a premature end when some of them are missing.
\<close>

lemma parse_frame_table:
  assumes "wf_message limit m"
  shows "parse_frame 512 limit (frame_table m @ t) =
           (if length t < length (concat m) then Inl PrematureEndOfFile
            else Inr (Some (split_words (map (\<lambda>s. length s div 8) m) t, drop (length (concat m)) t)))"
proof -
  note wf = wf_messageD [OF assms]
  have parse: "parse_frame 512 limit (frame_table m @ t) = parse_table limit (length m) (frame_table m @ t)"
    using length_frame_table_ge [OF wf(1)] wf(1,2) frame_count [OF wf(1,2), of t]
    by (intro parse_frame_counted) simp_all
  have "length (frame_table m) = next_multiple_of (4 * (length m + 1)) 8"
    using length_frame_table [of m] by (simp add: WORD_def)
  then show ?thesis
    using frame_table_lengths [OF wf(4), of t] message_bytes [OF wf(3)] wf(5)
    by (simp add: parse parse_table_def Let_def message_words_def)
qed

lemma parse_serialize:
  "wf_message limit m \<Longrightarrow> parse_frame 512 limit (serialize m @ t) = Inr (Some (m, t))"
  using parse_frame_table [of limit m "concat m @ t"] wf_messageD(3) [of limit m]
  by (simp add: serialize_def split_words_concat)

lemma parse_truncated:
  assumes "wf_message limit m" and "0 < k" and "k < length (serialize m)"
  shows "parse_frame 512 limit (take k (serialize m)) = Inl PrematureEndOfFile"
proof (cases "k < length (frame_table m)")
  case False
  then have "take k (serialize m) = frame_table m @ take (k - length (frame_table m)) (concat m)"
    by (simp add: serialize_def)
  moreover have "length (take (k - length (frame_table m)) (concat m)) < length (concat m)"
    using False assms(3) by (simp add: serialize_def)
  ultimately show ?thesis using parse_frame_table [OF assms(1)] by simp
next
  case True
  note wf = wf_messageD [OF assms(1)]
  have len: "length (take k (serialize m)) = k" using assms(3) by simp
  show ?thesis
  proof (cases "8 \<le> k")
    case True
    then have "take 4 (take k (serialize m)) = take 4 (frame_table m @ concat m)"
      by (simp add: serialize_def min_def del: take_append)
    with True len wf(1,2) have "parse_frame 512 limit (take k (serialize m))
        = parse_table limit (length m) (take k (serialize m))"
      using frame_count [OF wf(1,2), of "concat m"] by (intro parse_frame_counted) simp_all
    moreover have "k < next_multiple_of (4 * (length m + 1)) 8"
      using \<open>k < length (frame_table m)\<close> length_frame_table [of m] by (simp add: WORD_def)
    ultimately show ?thesis using len by (simp add: parse_table_def Let_def)
  next
    case False
    then show ?thesis using len assms(2) by (auto simp: parse_frame_def)
  qed
qed

lemma parse_all_serialized:
  "list_all (wf_message limit) ms \<Longrightarrow>
     parse_all 512 limit (concat (map serialize ms) @ t)
     = (case parse_all 512 limit t of (ms', res) \<Rightarrow> (ms @ ms', res))"
  by (induction ms) (auto simp: parse_all.simps [of _ _ "_ @ _"] parse_serialize split: prod.split)

lemma parse_all_Nil: "parse_all 512 limit [] = ([], Inr ())"
  by (simp add: parse_all.simps parse_frame_def)

lemma ours_parses:
  assumes "capnp_framing ops lens_of raw_of table_of"
  shows "ours ops stream steps cap opts
         = Some (parse_all 512 (traversal_limit_in_words opts) stream)"
proof -
  have framed: "framed_stream trickle_ops trickle_rest ops lens_of raw_of table_of"
    using assms trickle.byte_stream_axioms by (simp add: framed_stream_def)
  have "buffered (inbound_new opts cap) @ trickle_rest (trickle_new stream steps) = stream"
    "inbound_inv (inbound_new opts cap)" "options (inbound_new opts cap) = opts"
    by (simp_all add: buffered_def inbound_new_def trickle_rest_def trickle_new_def
        inbound_inv_def vec_with_capacity_def)
  then show ?thesis
    using framed_stream.read_all_spec [OF framed, of "inbound_new opts cap"
        "trickle_new stream steps" "length stream + 1"]
    by (simp add: ours_def)
qed

text \<open>A stream cut in the middle of a message is reported as a premature end of file after
  the complete messages before the cut, never as a clean end and never as a message.\<close>

lemma truncated_stream_is_premature:
  assumes "capnp_framing ops lens_of raw_of table_of"
    and "list_all (wf_message (traversal_limit_in_words opts)) ms"
    and "wf_message (traversal_limit_in_words opts) m"
    and "0 < k" and "k < length (serialize m)"
  shows "ours ops (concat (map serialize ms) @ take k (serialize m)) steps cap opts
         = Some (ms, Inl PrematureEndOfFile)"
  using ours_parses [OF assms(1)] parse_all_serialized [OF assms(2)] parse_truncated [OF assms(3-5)]
  by (simp add: parse_all.simps [of _ _ "take k (serialize m)"])

section \<open>The stock reader\<close>

text \<open>
  \<open>check::stock\<close> reads a stream with \<open>capnp::serialize::try_read_message\<close>, which takes a message from
  the front of a slice and is a parameter here. The loop is a partial function: \<open>None\<close> is a loop
  that does not end.
\<close>

type_synonym 's stock_read = "bytes \<Rightarrow> reader_options \<Rightarrow> (capnp_kind + 's option) \<times> bytes"

partial_function (option) stock_loop :: "('b, 's) capnp_ops \<Rightarrow> 's stock_read \<Rightarrow> reader_options \<Rightarrow> bytes
    \<Rightarrow> bytes list list \<Rightarrow> (bytes list list \<times> (capnp_kind + unit)) option" where
  "stock_loop ops try_read_message opts rest messages =
     (case try_read_message rest opts of
        (Inr (Some message), rest) \<Rightarrow>
          stock_loop ops try_read_message opts rest (messages @ [read_segments ops message])
      | (Inr None, rest) \<Rightarrow> Some (messages, Inr ())
      | (Inl kind, rest) \<Rightarrow>
          if kind = FailedToFillTheWholeBuffer then Some (messages, Inl PrematureEndOfFile)
          else Some (messages, Inl kind))"

definition stock :: "('b, 's) capnp_ops \<Rightarrow> 's stock_read \<Rightarrow> bytes \<Rightarrow> reader_options
    \<Rightarrow> (bytes list list \<times> (capnp_kind + unit)) option" where
  "stock ops try_read_message stream opts = stock_loop ops try_read_message opts stream []"

text \<open>The assertion of \<open>fuzzing::inbound_matches_stock\<close>.\<close>

definition inbound_matches_stock :: "('b, 's) capnp_ops \<Rightarrow> 's stock_read \<Rightarrow> reader_options \<Rightarrow> bytes
    \<Rightarrow> nat list \<Rightarrow> nat \<Rightarrow> nat \<Rightarrow> bool" where
  "inbound_matches_stock ops try_read_message new_options stream steps cap limit \<longleftrightarrow>
     (let opts = new_options\<lparr>traversal_limit_in_words := Some limit\<rparr> in
      ours ops stream steps cap opts = stock ops try_read_message stream opts)"

text \<open>
  What \<open>try_read_message\<close> promises: it takes one message in the stream framing from the front,
  nothing at the clean end of the slice, and reports a message that is cut short by one of two kinds.
\<close>

locale stock_reader =
  fixes ops :: "('b, 's) capnp_ops" and try_read_message :: "'s stock_read"
  assumes stock_end: "parse_frame 512 (traversal_limit_in_words opts) bs = Inr None
          \<Longrightarrow> fst (try_read_message bs opts) = Inr None"
    and stock_message: "parse_frame 512 (traversal_limit_in_words opts) bs = Inr (Some (segs, tail))
          \<Longrightarrow> \<exists>m. try_read_message bs opts = (Inr (Some m), tail) \<and> read_segments ops m = segs"
    and stock_error: "parse_frame 512 (traversal_limit_in_words opts) bs = Inl kind
          \<Longrightarrow> fst (try_read_message bs opts) = Inl kind
            \<or> kind = PrematureEndOfFile \<and> fst (try_read_message bs opts) = Inl FailedToFillTheWholeBuffer"
begin

lemma stock_loop_parses:
  "stock_loop ops try_read_message opts bs messages
   = Some (case parse_all 512 (traversal_limit_in_words opts) bs of (ms, end) \<Rightarrow> (messages @ ms, end))"
proof (induction "length bs" arbitrary: bs messages rule: less_induct)
  case less
  let ?parsed = "parse_frame 512 (traversal_limit_in_words opts) bs"
  consider kind where "?parsed = Inl kind" | "?parsed = Inr None" | segs tail where "?parsed = Inr (Some (segs, tail))"
    by (metis option.exhaust sum.exhaust surj_pair)
  then show ?case
  proof cases
    case 1
    then have "kind \<noteq> FailedToFillTheWholeBuffer"
      by (auto simp: parse_frame_def parse_table_def Let_def split: if_splits)
    with 1 stock_error [OF 1] show ?thesis
      by (subst stock_loop.simps) (auto simp: parse_all.simps [of _ _ bs] split: prod.splits)
  next
    case 2
    with stock_end [OF 2] show ?thesis
      by (subst stock_loop.simps) (auto simp: parse_all.simps [of _ _ bs] split: prod.splits)
  next
    case 3
    from stock_message [OF 3] obtain m where "try_read_message bs opts = (Inr (Some m), tail)"
        "read_segments ops m = segs" by blast
    with 3 less [OF parse_frame_shorter [OF 3]] show ?thesis
      by (subst stock_loop.simps) (simp add: parse_all.simps [of _ _ bs] split: prod.splits)
  qed
qed

end

text \<open>The framing itself as a stock reader.\<close>

definition list_try_read :: "(nat list \<times> bytes) stock_read" where
  "list_try_read bs opts =
     (case parse_frame 512 (traversal_limit_in_words opts) bs of
        Inl kind \<Rightarrow> (Inl (if kind = PrematureEndOfFile then FailedToFillTheWholeBuffer else kind), bs)
      | Inr None \<Rightarrow> (Inr None, bs)
      | Inr (Some (segs, tail)) \<Rightarrow> (Inr (Some (map (\<lambda>s. length s div 8) segs, concat segs)), tail))"

lemma split_words_whole: "8 * sum_list ns \<le> length bs \<Longrightarrow> list_all (\<lambda>s. length s mod 8 = 0) (split_words ns bs)"
  by (induction ns arbitrary: bs) auto

lemma list_read_segments:
  assumes "list_all (\<lambda>s. length s mod 8 = 0) segs"
  shows "read_segments list_capnp (map (\<lambda>s. length s div 8) segs, concat segs) = segs"
  using split_words_concat [OF assms, of "[]"] by (simp add: list_framing.read_segments_eq)

lemma parse_frame_whole:
  assumes "parse_frame 512 limit bs = Inr (Some (segs, tail))"
  shows "list_all (\<lambda>s. length s mod 8 = 0) segs"
  using assms
  by (auto simp: parse_frame_def parse_table_def Let_def not_less intro!: split_words_whole split: if_splits)

interpretation list_stock: stock_reader list_capnp list_try_read
  by unfold_locales (auto simp: list_try_read_def list_read_segments parse_frame_whole)

section \<open>Properties\<close>

text \<open>C16: Reading one message refines parsing the bytes. On a stream that neither invents,
  loses nor reorders bytes, however it splits them, \<open>Inbound::next\<close> always returns, and its
  result is the frame at the head of the buffered and incoming bytes: the segments of the
  message with the rest of the bytes left to read, the end of the stream, or the error the
  framing prescribes; the staging buffer never outgrows its capacity or 2048 bytes.\<close>

theorem inbound_refines_framing:
  assumes "byte_stream rd rest" and "capnp_framing ops lens_of raw_of table_of"
    and "inbound_inv ib"
  shows "delivers ops rest
           (parse_frame 512 (traversal_limit_in_words (options ib)) (buffered ib @ rest r)) ib
           (inbound_next ops rd ib r)"
  using assms by (intro framed_stream.next_spec) (simp_all add: framed_stream_def)

theorem inbound_refines_framing_witness:
  "delivers list_capnp trickle_rest (Inr (Some ([[1,2,3,4,5,6,7,8]], [9])))
     (inbound_new \<lparr>traversal_limit_in_words = Some 1, nesting_limit = 64\<rparr> 16)
     (inbound_next list_capnp trickle_ops
        (inbound_new \<lparr>traversal_limit_in_words = Some 1, nesting_limit = 64\<rparr> 16)
        (trickle_new [0,0,0,0, 1,0,0,0, 1,2,3,4,5,6,7,8, 9] [3]))"
proof -
  let ?ib = "inbound_new \<lparr>traversal_limit_in_words = Some 1, nesting_limit = 64\<rparr> 16"
  let ?r = "trickle_new [0,0,0,0, 1,0,0,0, 1,2,3,4,5,6,7,8, 9] [3]"
  have "parse_frame 512 (traversal_limit_in_words (options ?ib)) (buffered ?ib @ trickle_rest ?r)
        = Inr (Some ([[1,2,3,4,5,6,7,8]], [9]))"
    by code_simp
  moreover have "inbound_inv ?ib" by code_simp
  ultimately show ?thesis
    using inbound_refines_framing [OF trickle.byte_stream_axioms list_framing.capnp_framing_axioms,
        of ?ib ?r] by simp
qed

text \<open>C15: The reader is equivalent to the stock reader of capnp. For every stream, valid or not, every
  fragmentation, every staging capacity and every limit on the words of a message, both loops end, with
  the same messages and the same end: clean, cut short, or refused for the same reason.\<close>

theorem inbound_equals_stock:
  assumes "capnp_framing ops lens_of raw_of table_of" and "stock_reader ops try_read_message"
  shows "inbound_matches_stock ops try_read_message new_options stream steps cap limit
    \<and> (\<exists>outcome. ours ops stream steps cap opts = Some outcome)"
  using ours_parses [OF assms(1)] stock_reader.stock_loop_parses [OF assms(2)]
  by (simp add: inbound_matches_stock_def stock_def Let_def split: prod.splits)

theorem inbound_equals_stock_witness:
  "inbound_matches_stock list_capnp list_try_read \<lparr>traversal_limit_in_words = None, nesting_limit = 64\<rparr>
     [0,0,0,0, 0,0,0,0, 7] [1, 2] 0 4
   \<and> stock list_capnp list_try_read [0,0,0,0, 0,0,0,0, 7] \<lparr>traversal_limit_in_words = Some 4, nesting_limit = 64\<rparr>
     = Some ([[[]]], Inl PrematureEndOfFile)"
proof -
  have "parse_all 512 (Some 4) [0,0,0,0, 0,0,0,0, 7] = ([[[]]], Inl PrematureEndOfFile)"
    by code_simp
  then show ?thesis
    using inbound_equals_stock [OF list_framing.capnp_framing_axioms list_stock.stock_reader_axioms]
      list_stock.stock_loop_parses
    by (simp add: stock_def)
qed

text \<open>C6: Round trip. Messages within the limits of the format and of the reader, pushed to a fresh batch and written as its chunks, come back from
  the reader as the same segments in the same order and the stream then ends cleanly,
  whatever the inline limit, the fragmentation and the staging capacity.\<close>

theorem batch_inbound_roundtrip:
  assumes "capnp_framing ops lens_of raw_of table_of"
    and "list_all (wf_message (traversal_limit_in_words opts)) ms"
  shows "ours ops (content (fst (take_chunks (foldl push (batch_new limit) ms)))) steps cap opts
         = Some (ms, Inr ())"
proof -
  have "list_all (\<lambda>m. m \<noteq> []) ms"
    using assms(2) by (auto simp: list_all_iff dest: wf_messageD(1))
  then have "content (fst (take_chunks (foldl push (batch_new limit) ms))) = concat (map serialize ms)"
    using frame_batch.push_all [of "batch_new limit" ms] batch_reach_inv [OF reach_new [of limit]]
    by (simp add: frame_batch.take_held batch_new_def content_def)
  then show ?thesis
    using ours_parses [OF assms(1)] parse_all_serialized [OF assms(2), of "[]"]
    by (simp add: parse_all_Nil)
qed

theorem batch_inbound_roundtrip_witness:
  "ours list_capnp
     (content (fst (take_chunks (foldl push (batch_new 4) [[[1,2,3,4,5,6,7,8], []], [[]]])))) [5] 8
     \<lparr>traversal_limit_in_words = Some 1, nesting_limit = 64\<rparr>
   = Some ([[[1,2,3,4,5,6,7,8], []], [[]]], Inr ())"
proof -
  have "list_all (wf_message (Some 1)) [[[1,2,3,4,5,6,7,8], []], [[]]]"
    by (simp add: wf_message_def exceeds_def message_words_def)
  then show ?thesis
    by (intro batch_inbound_roundtrip [OF list_framing.capnp_framing_axioms]) simp
qed

end
