(* ===== verification/Gate.thy ===== *)
theory Gate
  imports Prelude "HOL-Library.Multiset"
begin

text \<open>
  \<open>ConnectionGate\<close> and \<open>ConnectionLease\<close> of \<open>src/src/auth/handshake.rs\<close>. The clones of a gate
  and its leases share one cell (\<open>Rc<Cell<bool>>\<close>), so a gate with the leases it has given out is
  one cell and a collection of leases; dropping a lease is a step of its own, in any order. The
  locale \<open>admission\<close> is what the code that holds leases relies on.
\<close>

datatype connection_mode = OneToOne | OneToMany

record connection_gate =
  mode :: connection_mode
  active :: bool

datatype connection_lease = Lease (tracked: bool)

definition gate_new :: "connection_mode \<Rightarrow> connection_gate" where
  "gate_new m = \<lparr>mode = m, active = False\<rparr>"

definition try_acquire :: "connection_gate \<Rightarrow> connection_lease option \<times> connection_gate" where
  "try_acquire g =
     (case mode g of
        OneToMany \<Rightarrow> (Some (Lease False), g)
      | OneToOne \<Rightarrow> if \<not> active g then (Some (Lease True), g\<lparr>active := True\<rparr>) else (None, g))"

definition drop_lease :: "connection_lease \<Rightarrow> connection_gate \<Rightarrow> connection_gate" where
  "drop_lease l g = (if tracked l then g\<lparr>active := False\<rparr> else g)"

section \<open>Histories\<close>

text \<open>The gate with the leases that are alive, after any sequence of acquisitions and drops.\<close>

inductive gate_reach :: "connection_mode \<Rightarrow> connection_gate \<times> connection_lease multiset \<Rightarrow> bool" for m where
  gate_fresh: "gate_reach m (gate_new m, {#})"
| gate_acquire: "gate_reach m (g, ls) \<Longrightarrow> try_acquire g = (Some l, g') \<Longrightarrow> gate_reach m (g', add_mset l ls)"
| gate_refused: "gate_reach m (g, ls) \<Longrightarrow> try_acquire g = (None, g') \<Longrightarrow> gate_reach m (g', ls)"
| gate_drop: "gate_reach m (g, ls) \<Longrightarrow> l \<in># ls \<Longrightarrow> gate_reach m (drop_lease l g, ls - {#l#})"

definition gate_inv :: "connection_gate \<times> connection_lease multiset \<Rightarrow> bool" where
  "gate_inv s =
     (case s of (g, ls) \<Rightarrow>
        (case mode g of
           OneToOne \<Rightarrow> ls = (if active g then {#Lease True#} else {#})
         | OneToMany \<Rightarrow> \<not> active g \<and> set_mset ls \<subseteq> {Lease False}))"

text \<open>
  What a gate promises: an invariant of the gate and the leases alive, kept by every operation,
  and an admission that is refused only to protect a lease that is alive.
\<close>

locale admission =
  fixes inv :: "'g \<times> 'l multiset \<Rightarrow> bool"
    and acquire :: "'g \<Rightarrow> 'l option \<times> 'g"
    and release :: "'l \<Rightarrow> 'g \<Rightarrow> 'g"
    and exclusive :: "'g \<Rightarrow> bool"
  assumes acquire_inv: "inv (g, ls) \<Longrightarrow> acquire g = (Some l, g') \<Longrightarrow> inv (g', add_mset l ls)"
    and refuse_inv: "inv (g, ls) \<Longrightarrow> acquire g = (None, g') \<Longrightarrow> inv (g', ls)"
    and release_inv: "inv (g, ls) \<Longrightarrow> l \<in># ls \<Longrightarrow> inv (release l g, ls - {#l#})"
    and refused_iff: "inv (g, ls) \<Longrightarrow> fst (acquire g) = None \<longleftrightarrow> exclusive g \<and> ls \<noteq> {#}"
    and release_exclusive: "exclusive (release l g) \<longleftrightarrow> exclusive g"
    and acquire_exclusive: "exclusive (snd (acquire g)) \<longleftrightarrow> exclusive g"
    and exclusive_one: "inv (g, ls) \<Longrightarrow> exclusive g \<Longrightarrow> size ls \<le> 1"
begin

text \<open>Dropping the lease of an exclusive gate makes the next admission succeed.\<close>

lemma readmits:
  assumes "inv (g, ls)" and "exclusive g" and "l \<in># ls"
  shows "fst (acquire (release l g)) \<noteq> None"
proof -
  obtain rest where "ls = add_mset l rest" using assms(3) by (metis multi_member_split)
  then have "ls - {#l#} = {#}" using exclusive_one [OF assms(1,2)] by simp
  then show ?thesis
    using refused_iff [OF release_inv [OF assms(1,3)]] by simp
qed

end

interpretation gate: admission gate_inv try_acquire drop_lease "\<lambda>g. mode g = OneToOne"
  by unfold_locales
    (auto simp: gate_inv_def try_acquire_def drop_lease_def split: connection_mode.splits if_splits
      dest: in_diffD)

lemma gate_reach_inv: "gate_reach m s \<Longrightarrow> gate_inv s \<and> mode (fst s) = m"
proof (induction rule: gate_reach.induct)
  case gate_fresh
  show ?case by (simp add: gate_inv_def gate_new_def split: connection_mode.split)
next
  case (gate_acquire g ls l g')
  then show ?case
    using gate.acquire_inv [of g ls l g'] by (auto simp: try_acquire_def split: connection_mode.splits if_splits)
next
  case (gate_refused g ls g')
  then show ?case
    using gate.refuse_inv [of g ls g'] by (auto simp: try_acquire_def split: connection_mode.splits if_splits)
next
  case (gate_drop g ls l)
  then show ?case using gate.release_inv [of g ls l] by (auto simp: drop_lease_def)
qed

section \<open>Properties\<close>

text \<open>C33: A one-to-one gate has at most one lease alive after any history of acquisitions and
  drops, refuses exactly while one is alive, and admits again once it is dropped; a one-to-many
  gate never refuses.\<close>

theorem gate_is_exclusive:
  assumes "gate_reach m (g, ls)"
  shows "(m = OneToOne \<longrightarrow> size ls \<le> 1) \<and> (fst (try_acquire g) = None \<longleftrightarrow> m = OneToOne \<and> ls \<noteq> {#})
    \<and> (\<forall>l \<in># ls. fst (try_acquire (drop_lease l g)) \<noteq> None)"
proof -
  have inv: "gate_inv (g, ls)" "mode g = m" using gate_reach_inv [OF assms] by auto
  have "fst (try_acquire (drop_lease l g)) \<noteq> None" if "l \<in># ls" for l
  proof (cases "m = OneToOne")
    case True
    then show ?thesis using gate.readmits [OF inv(1) _ that] inv(2) by simp
  next
    case False
    then show ?thesis
      using inv(2) gate.refused_iff [OF gate.release_inv [OF inv(1) that]] gate.release_exclusive by auto
  qed
  then show ?thesis
    using gate.refused_iff [OF inv(1)] gate.exclusive_one [OF inv(1)] inv(2) by auto
qed

theorem gate_is_exclusive_witness:
  "size {#Lease True#} \<le> 1 \<and> fst (try_acquire \<lparr>mode = OneToOne, active = True\<rparr>) = None"
proof -
  have "try_acquire (gate_new OneToOne) = (Some (Lease True), \<lparr>mode = OneToOne, active = True\<rparr>)"
    by (simp add: try_acquire_def gate_new_def)
  from gate_is_exclusive [OF gate_acquire [OF gate_fresh this]] show ?thesis by simp
qed

end
