(* ===== verification/Wire_Error.thy ===== *)
theory Wire_Error
  imports Prelude
begin

text \<open>
  The error layers of \<open>src/src/error\<close>: the four context enums with their \<open>Display\<close>
  texts, and the projection of local reports onto \<open>capnp\<close> exceptions and back
  (\<open>error/rpc.rs\<close>). Reports belong to the \<open>error_stack\<close> crate; the code only
  creates them, attaches to them and asks them for the most recent value of a type, so
  those operations are a record of parameters (\<open>report_ops\<close>) whose documented laws are
  the locale \<open>error_stack\<close>.
\<close>

section \<open>Error contexts\<close>

datatype endpoint_error =
    InvalidServiceName
  | InvalidVsockTarget
  | UnsupportedOnPlatform
  | NoRuntimeDirectory
  | WslNotRunning
  | WslVmAmbiguous

fun endpoint_error_fmt :: "endpoint_error \<Rightarrow> string" where
  "endpoint_error_fmt InvalidServiceName = ''invalid service name''"
| "endpoint_error_fmt InvalidVsockTarget = ''invalid vsock target''"
| "endpoint_error_fmt UnsupportedOnPlatform = ''transport not supported on this platform''"
| "endpoint_error_fmt NoRuntimeDirectory = ''no usable runtime directory''"
| "endpoint_error_fmt WslNotRunning = ''no running WSL VM''"
| "endpoint_error_fmt WslVmAmbiguous = ''cannot tell the WSL VM from the others''"

datatype transport_error = Bind | Connect | Accept | Io

fun transport_error_fmt :: "transport_error \<Rightarrow> string" where
  "transport_error_fmt Bind = ''failed to bind transport listener''"
| "transport_error_fmt Connect = ''failed to connect''"
| "transport_error_fmt Accept = ''failed to accept connection''"
| "transport_error_fmt transport_error.Io = ''transport i/o error''"

datatype handshake_error =
    UnsupportedVersion
  | SchemeMismatch
  | ProtocolMismatch
  | IncompatibleVersion
  | InvalidProof
  | Rejected
  | Timeout
  | MalformedPacket
  | PeerAttestationUnavailable
  | SignedProcessVerificationFailed
  | ConnectionLimitReached
  | Io

fun handshake_error_fmt :: "handshake_error \<Rightarrow> string" where
  "handshake_error_fmt UnsupportedVersion = ''unsupported handshake version''"
| "handshake_error_fmt SchemeMismatch = ''handshake auth scheme mismatch''"
| "handshake_error_fmt ProtocolMismatch = ''peer speaks a different protocol''"
| "handshake_error_fmt IncompatibleVersion =
     ''peer speaks an incompatible major version of the protocol''"
| "handshake_error_fmt InvalidProof = ''invalid handshake proof''"
| "handshake_error_fmt Rejected = ''handshake rejected by peer''"
| "handshake_error_fmt Timeout = ''handshake timed out''"
| "handshake_error_fmt MalformedPacket = ''malformed handshake packet''"
| "handshake_error_fmt PeerAttestationUnavailable =
     ''signed-process auth requires a transport that can attest the peer's identity''"
| "handshake_error_fmt SignedProcessVerificationFailed = ''signed-process verification failed''"
| "handshake_error_fmt ConnectionLimitReached =
     ''connection rejected: server is in one-to-one mode''"
| "handshake_error_fmt handshake_error.Io = ''i/o failure during handshake''"

section \<open>Wire codes\<close>

datatype wire_code =
    Unauthenticated
  | PermissionDenied
  | InvalidArgument
  | NotFound
  | Unavailable
  | LimitExceeded
  | Internal
  | Unknown

fun as_str :: "wire_code \<Rightarrow> string" where
  "as_str Unauthenticated = ''unauthenticated''"
| "as_str wire_code.PermissionDenied = ''permission-denied''"
| "as_str InvalidArgument = ''invalid-argument''"
| "as_str wire_code.NotFound = ''not-found''"
| "as_str Unavailable = ''unavailable''"
| "as_str LimitExceeded = ''limit-exceeded''"
| "as_str Internal = ''internal''"
| "as_str Unknown = ''unknown''"

definition from_slug :: "string \<Rightarrow> wire_code" where
  "from_slug slug =
     (if slug = ''unauthenticated'' then Unauthenticated
      else if slug = ''permission-denied'' then wire_code.PermissionDenied
      else if slug = ''invalid-argument'' then InvalidArgument
      else if slug = ''not-found'' then wire_code.NotFound
      else if slug = ''unavailable'' then Unavailable
      else if slug = ''limit-exceeded'' then LimitExceeded
      else if slug = ''internal'' then Internal
      else Unknown)"

definition capnp_kind_of :: "wire_code \<Rightarrow> capnp_kind" where
  "capnp_kind_of code = (case code of Unavailable \<Rightarrow> Overloaded | _ \<Rightarrow> Failed)"

datatype remote_error_kind = Failed | Overloaded | Disconnected | Unimplemented | Other

datatype rpc_error =
    Setup
  | Remote remote_error_kind "wire_code option"
  | Handler
  | Unimplemented
  | LimitExceeded

text \<open>The derived \<open>Debug\<close> text of a kind, printed by \<open>{kind:?}\<close>.\<close>

fun remote_error_kind_debug :: "remote_error_kind \<Rightarrow> string" where
  "remote_error_kind_debug remote_error_kind.Failed = ''Failed''"
| "remote_error_kind_debug remote_error_kind.Overloaded = ''Overloaded''"
| "remote_error_kind_debug remote_error_kind.Disconnected = ''Disconnected''"
| "remote_error_kind_debug remote_error_kind.Unimplemented = ''Unimplemented''"
| "remote_error_kind_debug Other = ''Other''"

fun rpc_error_fmt :: "rpc_error \<Rightarrow> string" where
  "rpc_error_fmt Setup = ''failed to establish rpc connection''"
| "rpc_error_fmt (Remote kind (Some code)) =
     ''remote rpc error ('' @ remote_error_kind_debug kind @ '', '' @ as_str code @ '')''"
| "rpc_error_fmt (Remote kind None) =
     ''remote rpc error ('' @ remote_error_kind_debug kind @ '')''"
| "rpc_error_fmt Handler = ''local handler failed''"
| "rpc_error_fmt rpc_error.Unimplemented = ''method not implemented''"
| "rpc_error_fmt rpc_error.LimitExceeded = ''message exceeded configured limits''"

section \<open>The wire text\<close>

definition WIRE_PREFIX :: string where
  "WIRE_PREFIX = ''[ogurpchik:''"

fun strip_prefix :: "'a list \<Rightarrow> 'a list \<Rightarrow> 'a list option" where
  "strip_prefix [] xs = Some xs"
| "strip_prefix (p # ps) [] = None"
| "strip_prefix (p # ps) (x # xs) = (if p = x then strip_prefix ps xs else None)"

text \<open>\<open>str::find\<close>: the index of the first occurrence of a character.\<close>

fun find_char :: "char \<Rightarrow> string \<Rightarrow> nat option" where
  "find_char c [] = None"
| "find_char c (x # xs) = (if x = c then Some 0 else map_option Suc (find_char c xs))"

definition encode_wire_text :: "wire_code option \<Rightarrow> string \<Rightarrow> string" where
  "encode_wire_text code message =
     (case code of
        Some code \<Rightarrow> WIRE_PREFIX @ as_str code @ ''] '' @ message
      | None \<Rightarrow> message)"

definition decode_wire_text :: "string \<Rightarrow> wire_code option \<times> string" where
  "decode_wire_text extra =
     (case strip_prefix WIRE_PREFIX extra of
        None \<Rightarrow> (None, extra)
      | Some rest \<Rightarrow>
          (case find_char (CHR '']'') rest of
             None \<Rightarrow> (None, extra)
           | Some end_idx \<Rightarrow>
               let tl_text = drop (end_idx + 1) rest;
                   message = (case strip_prefix '' '' tl_text of Some m \<Rightarrow> m | None \<Rightarrow> tl_text)
               in (Some (from_slug (take end_idx rest)), message)))"

text \<open>\<open>capnp::Error\<close>: a kind and the text that crosses the wire.\<close>

record capnp_error =
  kind :: capnp_kind
  extra :: string

definition exception :: "wire_code \<Rightarrow> string \<Rightarrow> capnp_error" where
  "exception code message =
     \<lparr>kind = capnp_kind_of code, extra = encode_wire_text (Some code) message\<rparr>"

section \<open>Reports\<close>

text \<open>
  The contexts a report is made of (an \<open>RpcError\<close>, a \<open>TransportError\<close>, or any other context,
  known by its \<open>Display\<close> text) and the attachments the code tells apart.
\<close>

datatype report_context = RpcContext rpc_error | TransportContext transport_error | OtherContext string

fun context_fmt :: "report_context \<Rightarrow> string" where
  "context_fmt (RpcContext e) = rpc_error_fmt e"
| "context_fmt (TransportContext e) = transport_error_fmt e"
| "context_fmt (OtherContext s) = s"

datatype attachment =
    CodeAttachment wire_code
  | MessageAttachment string
  | RemoteMessage string
  | OpaqueAttachment string

record 'r report_ops =
  report_new :: "report_context \<Rightarrow> 'r"
  attach :: "'r \<Rightarrow> attachment \<Rightarrow> 'r"
  change_context :: "'r \<Rightarrow> report_context \<Rightarrow> 'r"
  current_context :: "'r \<Rightarrow> report_context"
  downcast_code :: "'r \<Rightarrow> wire_code option"
  downcast_message :: "'r \<Rightarrow> string option"
  downcast_remote_message :: "'r \<Rightarrow> string option"
  downcast_rpc_error :: "'r \<Rightarrow> rpc_error option"
  downcast_transport_error :: "'r \<Rightarrow> transport_error option"

definition from_capnp_exception :: "'r report_ops \<Rightarrow> capnp_error \<Rightarrow> 'r" where
  "from_capnp_exception ops err =
     (let k = (case kind err of
                 capnp_kind.Failed \<Rightarrow> remote_error_kind.Failed
               | capnp_kind.Overloaded \<Rightarrow> remote_error_kind.Overloaded
               | capnp_kind.Disconnected \<Rightarrow> remote_error_kind.Disconnected
               | capnp_kind.Unimplemented \<Rightarrow> remote_error_kind.Unimplemented
               | _ \<Rightarrow> Other);
          (code, message) = decode_wire_text (extra err)
      in attach ops (report_new ops (RpcContext (Remote k code))) (RemoteMessage message))"

definition to_capnp_exception :: "'r report_ops \<Rightarrow> 'r \<Rightarrow> capnp_error" where
  "to_capnp_exception ops report =
     (let code = downcast_code ops report;
          message = (case downcast_message ops report of
                       Some message \<Rightarrow> message
                     | None \<Rightarrow> context_fmt (current_context ops report));
          text = encode_wire_text code message;
          knd = (case code of
                     Some code \<Rightarrow> capnp_kind_of code
                   | None \<Rightarrow>
                       (case downcast_rpc_error ops report of
                          Some rpc_error.Unimplemented \<Rightarrow> capnp_kind.Unimplemented
                        | Some (Remote _ _) \<Rightarrow> capnp_kind.Disconnected
                        | _ \<Rightarrow> capnp_kind.Failed))
      in \<lparr>kind = knd, extra = text\<rparr>)"

section \<open>What the code relies on of reports\<close>

text \<open>
  The documented behaviour of \<open>error_stack::Report\<close>: a query by type returns the most
  recent value of that type in the stack, attaching leaves the context alone, and a
  change of context keeps everything below it.
\<close>

locale error_stack =
  fixes ops :: "'r report_ops"
  assumes new_context: "current_context ops (report_new ops c) = c"
    and attach_context: "current_context ops (attach ops r a) = current_context ops r"
    and change_current: "current_context ops (change_context ops r c) = c"
    and new_code: "downcast_code ops (report_new ops c) = None"
    and attach_code: "downcast_code ops (attach ops r a) =
          (case a of CodeAttachment code \<Rightarrow> Some code | _ \<Rightarrow> downcast_code ops r)"
    and change_code: "downcast_code ops (change_context ops r c) = downcast_code ops r"
    and new_message: "downcast_message ops (report_new ops c) = None"
    and attach_message: "downcast_message ops (attach ops r a) =
          (case a of MessageAttachment m \<Rightarrow> Some m | _ \<Rightarrow> downcast_message ops r)"
    and change_message: "downcast_message ops (change_context ops r c) = downcast_message ops r"
    and new_remote: "downcast_remote_message ops (report_new ops c) = None"
    and attach_remote: "downcast_remote_message ops (attach ops r a) =
          (case a of RemoteMessage m \<Rightarrow> Some m | _ \<Rightarrow> downcast_remote_message ops r)"
    and new_rpc: "downcast_rpc_error ops (report_new ops c) =
          (case c of RpcContext e \<Rightarrow> Some e | _ \<Rightarrow> None)"
    and attach_rpc: "downcast_rpc_error ops (attach ops r a) = downcast_rpc_error ops r"
    and change_rpc: "downcast_rpc_error ops (change_context ops r c) =
          (case c of RpcContext e \<Rightarrow> Some e | _ \<Rightarrow> downcast_rpc_error ops r)"
    and new_transport: "downcast_transport_error ops (report_new ops c) =
          (case c of TransportContext e \<Rightarrow> Some e | _ \<Rightarrow> None)"
    and attach_transport: "downcast_transport_error ops (attach ops r a) = downcast_transport_error ops r"
    and change_transport: "downcast_transport_error ops (change_context ops r c) =
          (case c of TransportContext e \<Rightarrow> Some e | _ \<Rightarrow> downcast_transport_error ops r)"
begin

lemmas report_laws =
  new_context attach_context change_current new_code attach_code change_code
  new_message attach_message change_message new_remote attach_remote
  new_rpc attach_rpc change_rpc new_transport attach_transport change_transport

lemma to_exception_attach:
  assumes "a = OpaqueAttachment s \<or> a = RemoteMessage s"
  shows "to_capnp_exception ops (attach ops r a) = to_capnp_exception ops r"
  using assms by (auto simp: to_capnp_exception_def report_laws Let_def split: option.split)

lemma to_exception_code:
  "to_capnp_exception ops (attach ops r (CodeAttachment c)) =
     exception c (case downcast_message ops r of
                    Some m \<Rightarrow> m | None \<Rightarrow> context_fmt (current_context ops r))"
  by (simp add: to_capnp_exception_def exception_def report_laws Let_def split: option.split)

lemma to_exception_attach_list:
  assumes "list_all (\<lambda>a. \<exists>s. a = OpaqueAttachment s \<or> a = RemoteMessage s) as"
  shows "to_capnp_exception ops (foldl (attach ops) r as) = to_capnp_exception ops r"
  using assms by (induction as arbitrary: r) (auto simp: to_exception_attach)

lemma from_exception_code:
  "downcast_rpc_error ops (from_capnp_exception ops err) =
     Some (Remote (case kind err of
                     capnp_kind.Failed \<Rightarrow> remote_error_kind.Failed
                   | capnp_kind.Overloaded \<Rightarrow> remote_error_kind.Overloaded
                   | capnp_kind.Disconnected \<Rightarrow> remote_error_kind.Disconnected
                   | capnp_kind.Unimplemented \<Rightarrow> remote_error_kind.Unimplemented
                   | _ \<Rightarrow> Other) (fst (decode_wire_text (extra err))))"
  by (simp add: from_capnp_exception_def report_laws split: prod.split)

lemma from_exception_message:
  "downcast_remote_message ops (from_capnp_exception ops err) =
     Some (snd (decode_wire_text (extra err)))"
  by (simp add: from_capnp_exception_def report_laws split: prod.split)

lemma from_exception_quiet:
  "downcast_code ops (from_capnp_exception ops err) = None"
  "downcast_message ops (from_capnp_exception ops err) = None"
  "\<exists>k c. current_context ops (from_capnp_exception ops err) = RpcContext (Remote k c)
     \<and> downcast_rpc_error ops (from_capnp_exception ops err) = Some (Remote k c)"
  by (auto simp: from_capnp_exception_def report_laws split: prod.split)

end

text \<open>
  A stack of frames, newest first, with the queries by type as searches from the top:
  the laws hold of it.
\<close>

datatype frame = ContextFrame report_context | AttachmentFrame attachment

fun frames_context :: "frame list \<Rightarrow> report_context" where
  "frames_context (ContextFrame c # fs) = c"
| "frames_context (AttachmentFrame a # fs) = frames_context fs"
| "frames_context [] = OtherContext []"

definition first_of :: "(frame \<Rightarrow> 'a option) \<Rightarrow> frame list \<Rightarrow> 'a option" where
  "first_of f fs = (case List.map_filter f fs of [] \<Rightarrow> None | x # _ \<Rightarrow> Some x)"

lemma first_of_simps [simp]:
  "first_of f [] = None"
  "first_of f (x # fs) = (case f x of Some y \<Rightarrow> Some y | None \<Rightarrow> first_of f fs)"
  by (auto simp: first_of_def List.map_filter_def split: option.splits)

definition frame_ops :: "frame list report_ops" where
  "frame_ops =
     \<lparr>report_new = (\<lambda>c. [ContextFrame c]),
      attach = (\<lambda>fs a. AttachmentFrame a # fs),
      change_context = (\<lambda>fs c. ContextFrame c # fs),
      current_context = frames_context,
      downcast_code = first_of (\<lambda>f. case f of AttachmentFrame (CodeAttachment c) \<Rightarrow> Some c | _ \<Rightarrow> None),
      downcast_message =
        first_of (\<lambda>f. case f of AttachmentFrame (MessageAttachment m) \<Rightarrow> Some m | _ \<Rightarrow> None),
      downcast_remote_message =
        first_of (\<lambda>f. case f of AttachmentFrame (RemoteMessage m) \<Rightarrow> Some m | _ \<Rightarrow> None),
      downcast_rpc_error =
        first_of (\<lambda>f. case f of ContextFrame (RpcContext e) \<Rightarrow> Some e | _ \<Rightarrow> None),
      downcast_transport_error =
        first_of (\<lambda>f. case f of ContextFrame (TransportContext e) \<Rightarrow> Some e | _ \<Rightarrow> None)\<rparr>"

interpretation frame_stack: error_stack frame_ops
  by unfold_locales
    (simp_all add: frame_ops_def split: attachment.splits report_context.splits)

section \<open>Lemmas on the wire text\<close>

lemma strip_prefix_append [simp]: "strip_prefix p (p @ xs) = Some xs"
  by (induction p) simp_all

lemma strip_prefix_iff: "strip_prefix p xs = Some ys \<longleftrightarrow> xs = p @ ys"
  by (induction p xs rule: strip_prefix.induct) auto

lemma find_char_append:
  "c \<notin> set xs \<Longrightarrow> find_char c (xs @ c # ys) = Some (length xs)"
  by (induction xs) auto

lemma as_str_no_bracket: "CHR '']'' \<notin> set (as_str code)"
  by (cases code) simp_all

lemma from_slug_as_str: "from_slug (as_str code) = code"
  by (cases code) (simp_all add: from_slug_def)

lemma decode_coded:
  assumes "CHR '']'' \<notin> set slug"
  shows "decode_wire_text (WIRE_PREFIX @ slug @ ''] '' @ m) = (Some (from_slug slug), m)"
proof -
  have "find_char (CHR '']'') (slug @ ''] '' @ m) = Some (length slug)"
    using find_char_append [OF assms, of "CHR '' '' # m"] by simp
  then show ?thesis
    by (simp add: decode_wire_text_def)
qed

lemma decode_uncoded: "fst (decode_wire_text m) = None \<longleftrightarrow> decode_wire_text m = (None, m)"
  by (simp add: decode_wire_text_def Let_def split: option.splits)

lemma decode_None_iff:
  "fst (decode_wire_text m) = None \<longleftrightarrow> (\<nexists>slug t. m = WIRE_PREFIX @ slug @ '']'' @ t)"
proof (cases "strip_prefix WIRE_PREFIX m")
  case None
  then have "m \<noteq> WIRE_PREFIX @ rest" for rest by auto
  with None show ?thesis by (simp add: decode_wire_text_def)
next
  case (Some rest)
  then have m: "m = WIRE_PREFIX @ rest" by (simp add: strip_prefix_iff)
  have "find_char (CHR '']'') rest = None \<longleftrightarrow> CHR '']'' \<notin> set rest"
    by (induction rest) auto
  then have "fst (decode_wire_text m) = None \<longleftrightarrow> CHR '']'' \<notin> set rest"
    unfolding decode_wire_text_def Some by (auto simp: Let_def split: option.splits)
  also have "\<dots> \<longleftrightarrow> (\<nexists>slug t. rest = slug @ '']'' @ t)"
    by (simp add: in_set_conv_decomp)
  finally show ?thesis by (simp add: m)
qed

text \<open>The text of an \<open>RpcError\<close> never reads as a coded message.\<close>

lemma decode_rpc_error_fmt: "fst (decode_wire_text (rpc_error_fmt e)) = None"
proof -
  have "hd (rpc_error_fmt e) \<noteq> CHR ''['' \<and> rpc_error_fmt e \<noteq> []"
    by (cases e rule: rpc_error_fmt.cases) simp_all
  then have "strip_prefix WIRE_PREFIX (rpc_error_fmt e) = None"
    by (cases "rpc_error_fmt e") (auto simp: WIRE_PREFIX_def)
  then show ?thesis
    by (simp add: decode_wire_text_def)
qed

section \<open>Properties\<close>

text \<open>C24: The wire text round trips. A coded message decodes to its code and its message,
  whatever the message is; a message sent without a code decodes to itself and to no code
  exactly when it does not itself spell out a bracketed code after the prefix.\<close>

theorem wire_text_roundtrip:
  "decode_wire_text (encode_wire_text (Some code) m) = (Some code, m)
   \<and> ((decode_wire_text (encode_wire_text None m) = (None, m))
      \<longleftrightarrow> (\<nexists>slug t. m = WIRE_PREFIX @ slug @ '']'' @ t))"
proof
  show "decode_wire_text (encode_wire_text (Some code) m) = (Some code, m)"
    using decode_coded [OF as_str_no_bracket, of code m]
    by (simp add: encode_wire_text_def from_slug_as_str)
  show "(decode_wire_text (encode_wire_text None m) = (None, m))
      \<longleftrightarrow> (\<nexists>slug t. m = WIRE_PREFIX @ slug @ '']'' @ t)"
    unfolding decode_None_iff [symmetric] decode_uncoded
    by (simp add: encode_wire_text_def)
qed

text \<open>C21: A code attached to a report reaches the peer: the exception made of the report
  is received as a remote error with that code, with the kind the code maps to, and with
  the reviewed message if one is attached and the context's text otherwise.\<close>

theorem attached_code_crosses_the_wire:
  assumes "error_stack ops"
  shows "downcast_rpc_error ops
           (from_capnp_exception ops (to_capnp_exception ops (attach ops r (CodeAttachment code))))
         = Some (Remote (if code = Unavailable then remote_error_kind.Overloaded
                         else remote_error_kind.Failed) (Some code))
       \<and> downcast_remote_message ops
           (from_capnp_exception ops (to_capnp_exception ops (attach ops r (CodeAttachment code))))
         = Some (case downcast_message ops r of
                   Some m \<Rightarrow> m | None \<Rightarrow> context_fmt (current_context ops r))"
proof -
  have "decode_wire_text (extra (exception code m)) = (Some code, m)" for m
    using decode_coded [OF as_str_no_bracket, of code m]
    by (simp add: exception_def encode_wire_text_def from_slug_as_str)
  moreover have "kind (exception code m) = (if code = Unavailable then capnp_kind.Overloaded
                                            else capnp_kind.Failed)" for m
    by (cases code) (simp_all add: exception_def capnp_kind_of_def)
  ultimately show ?thesis
    using assms
    by (simp add: error_stack.to_exception_code error_stack.from_exception_code
        error_stack.from_exception_message)
qed

theorem attached_code_crosses_the_wire_witness:
  "downcast_rpc_error frame_ops
     (from_capnp_exception frame_ops
        (to_capnp_exception frame_ops
           (attach frame_ops (report_new frame_ops (RpcContext Handler))
              (CodeAttachment wire_code.PermissionDenied))))
   = Some (Remote remote_error_kind.Failed (Some wire_code.PermissionDenied))"
  using attached_code_crosses_the_wire
    [OF frame_stack.error_stack_axioms, of "report_new frame_ops (RpcContext Handler)"
       wire_code.PermissionDenied]
  by simp

text \<open>C22: Nothing of a report crosses the wire that was not opted in. Once a report without
  code and reviewed message is put under a context, the exception's text is that context's
  text, whatever contexts lie below it and whatever else is attached on top.\<close>

theorem attachments_stay_local:
  assumes "error_stack ops"
    and "downcast_code ops r = None" and "downcast_message ops r = None"
    and "list_all (\<lambda>a. \<exists>s. a = OpaqueAttachment s \<or> a = RemoteMessage s) as"
  shows "extra (to_capnp_exception ops (foldl (attach ops) (change_context ops r c) as))
         = context_fmt c"
proof -
  have "to_capnp_exception ops (foldl (attach ops) (change_context ops r c) as)
        = to_capnp_exception ops (change_context ops r c)"
    using assms(1,4) by (rule error_stack.to_exception_attach_list)
  then show ?thesis
    using assms(2,3)
    by (simp add: to_capnp_exception_def encode_wire_text_def error_stack.change_code [OF assms(1)]
        error_stack.change_message [OF assms(1)] error_stack.change_current [OF assms(1)])
qed

theorem attachments_stay_local_witness:
  "extra (to_capnp_exception frame_ops
      (foldl (attach frame_ops)
         (change_context frame_ops (report_new frame_ops (OtherContext ''socket path: /run/user/1000/x''))
            (RpcContext Handler))
         [OpaqueAttachment ''pid 4711'', RemoteMessage ''upstream'']))
   = ''local handler failed''"
  using attachments_stay_local
    [OF frame_stack.error_stack_axioms,
     of "report_new frame_ops (OtherContext ''socket path: /run/user/1000/x'')"
        "[OpaqueAttachment ''pid 4711'', RemoteMessage ''upstream'']" "RpcContext Handler"]
  by (simp add: frame_stack.new_code frame_stack.new_message)

text \<open>C25: A relayed remote failure is reported as a disconnect and never re-emits the code
  it was received with.\<close>

theorem relay_drops_code:
  assumes "error_stack ops"
  shows "kind (to_capnp_exception ops (from_capnp_exception ops err)) = capnp_kind.Disconnected
       \<and> fst (decode_wire_text (extra (to_capnp_exception ops (from_capnp_exception ops err)))) = None"
proof -
  obtain k c where
    "current_context ops (from_capnp_exception ops err) = RpcContext (Remote k c)"
    "downcast_rpc_error ops (from_capnp_exception ops err) = Some (Remote k c)"
    using error_stack.from_exception_quiet(3) [OF assms] by blast
  then show ?thesis
    by (simp add: to_capnp_exception_def encode_wire_text_def decode_rpc_error_fmt
        error_stack.from_exception_quiet(1,2) [OF assms])
qed

theorem relay_drops_code_witness:
  "fst (decode_wire_text (extra (to_capnp_exception frame_ops
      (from_capnp_exception frame_ops (exception wire_code.PermissionDenied ''plugin said no''))))) = None"
  using relay_drops_code [OF frame_stack.error_stack_axioms] by simp

end
