(* ===== verification/Conn.thy ===== *)
theory Conn
  imports Wire_Error
begin

text \<open>
  \<open>src/src/net/conn.rs\<close>: a connection over one of the four transports, how it is opened and
  what the operating system says about the process at its other end. \<open>'s\<close> is the type of the
  handles \<open>compio\<close> hands out; its connect calls and the peer lookups of the operating system
  are records of parameters. The platform the crate is built for (\<open>cfg(windows)\<close>,
  \<open>cfg(target_os = "linux")\<close>) is an argument.
\<close>

datatype platform = Windows | Linux | OtherUnix

type_synonym uuid = "128 word"

datatype vsock_target = Cid u32 | Guid uuid

datatype 's named_pipe_stream = Server 's | Client 's

datatype 's conn = Tcp 's | Uds 's | Npipe "'s named_pipe_stream" | Vsock 's

datatype peer_identity = Pid u32 | Unknown

text \<open>The calls that open a connection; \<open>'a\<close> is \<open>SocketAddr\<close> and \<open>addr_text\<close> its \<open>Display\<close>.\<close>

record ('a, 's) connect_ops =
  addr_text :: "'a \<Rightarrow> string"
  tcp_connect :: "'a \<Rightarrow> io_error + 's"
  uds_connect :: "string \<Rightarrow> io_error + 's"
  npipe_connect :: "string \<Rightarrow> io_error + 's named_pipe_stream"
  vsock_connect :: "vsock_target \<Rightarrow> u32 \<Rightarrow> io_error + 's"
  vsock_connect_loopback :: "u32 \<Rightarrow> io_error + 's"

definition connect_tcp :: "('a, 's) connect_ops \<Rightarrow> 'a \<Rightarrow> transport_error report + 's conn" where
  "connect_tcp ops addr =
     in_context Connect (''tcp '' @ addr_text ops addr) (map_sum id Tcp (tcp_connect ops addr))"

definition connect_uds :: "('a, 's) connect_ops \<Rightarrow> string \<Rightarrow> transport_error report + 's conn" where
  "connect_uds ops path =
     in_context Connect (''uds '' @ path) (map_sum id Uds (uds_connect ops path))"

definition connect_npipe :: "('a, 's) connect_ops \<Rightarrow> string \<Rightarrow> transport_error report + 's conn" where
  "connect_npipe ops name =
     in_context Connect (''npipe '' @ name) (map_sum id Npipe (npipe_connect ops name))"

definition connect_vsock ::
  "('a, 's) connect_ops \<Rightarrow> vsock_target \<Rightarrow> u32 \<Rightarrow> transport_error report + 's conn" where
  "connect_vsock ops target port =
     in_context Connect (''vsock port '' @ show_nat (unat port))
       (map_sum id Vsock (vsock_connect ops target port))"

definition connect_vsock_loopback ::
  "('a, 's) connect_ops \<Rightarrow> u32 \<Rightarrow> transport_error report + 's conn" where
  "connect_vsock_loopback ops port =
     in_context Connect (''vsock loopback port '' @ show_nat (unat port))
       (map_sum id Vsock (vsock_connect_loopback ops port))"

fun conn_kind :: "'s conn \<Rightarrow> string" where
  "conn_kind (Tcp _) = ''tcp''"
| "conn_kind (Uds _) = ''uds''"
| "conn_kind (Npipe _) = ''npipe''"
| "conn_kind (Vsock _) = ''vsock''"

text \<open>
  \<open>GetNamedPipeClientProcessId\<close> (\<open>None\<close> when it fails) and \<open>socket_peercred\<close>, whose pid is
  the raw value reinterpreted as \<open>u32\<close>.
\<close>

record 's peer_ops =
  pipe_client_process_id :: "'s \<Rightarrow> u32 option"
  socket_peercred :: "'s \<Rightarrow> io_error + u32"

definition npipe_client_pid :: "'s peer_ops \<Rightarrow> 's \<Rightarrow> peer_identity" where
  "npipe_client_pid os server =
     (case pipe_client_process_id os server of Some pid \<Rightarrow> Pid pid | None \<Rightarrow> peer_identity.Unknown)"

definition linux_uds_peer_pid :: "'s peer_ops \<Rightarrow> 's \<Rightarrow> peer_identity" where
  "linux_uds_peer_pid os stream =
     (case socket_peercred os stream of Inr pid \<Rightarrow> Pid pid | Inl e \<Rightarrow> peer_identity.Unknown)"

fun conn_peer_identity :: "platform \<Rightarrow> 's peer_ops \<Rightarrow> 's conn \<Rightarrow> peer_identity" where
  "conn_peer_identity Windows os (Npipe (Server server)) = npipe_client_pid os server"
| "conn_peer_identity Linux os (Uds stream) = linux_uds_peer_pid os stream"
| "conn_peer_identity plat os c = peer_identity.Unknown"

lemma attested_transports:
  "conn_peer_identity plat os c = Pid pid \<Longrightarrow>
     plat = Windows \<and> (\<exists>s. c = Npipe (Server s) \<and> pipe_client_process_id os s = Some pid)
     \<or> plat = Linux \<and> (\<exists>s. c = Uds s \<and> socket_peercred os s = Inr pid)"
  by (cases "(plat, os, c)" rule: conn_peer_identity.cases)
    (auto simp: npipe_client_pid_def linux_uds_peer_pid_def split: option.splits sum.splits)

end
