(* ===== verification/Npipe.thy ===== *)
theory Npipe
  imports Conn "HOL-Library.Sublist"
begin

text \<open>
  \<open>src/src/net/npipe.rs\<close>: named pipes on Windows. First the name of a pipe; then the security
  descriptor its first instance gets, where the calls into the Windows API are parameters and
  what they allocate is recorded as a list of events; then the acceptor, which keeps one instance
  that listens and prepares a spare before it waits, so that an accept can be dropped at any time.
  Instances are the handles \<open>compio\<close> creates.
\<close>

section \<open>Names\<close>

definition PIPE_PREFIX :: string where
  "PIPE_PREFIX = CHR 0x5C # CHR 0x5C # CHR ''.'' # CHR 0x5C # ''pipe'' @ [CHR 0x5C]"

definition named_pipe_path_new :: "string \<Rightarrow> string" where
  "named_pipe_path_new path =
     (if strip_prefix PIPE_PREFIX path \<noteq> None then path
      else PIPE_PREFIX @ dropWhile (\<lambda>c. c = CHR 0x5C) path)"

definition npipe_open :: "(string \<Rightarrow> io_error + 's) \<Rightarrow> string \<Rightarrow> io_error + 's named_pipe_stream" where
  "npipe_open client_open path = map_sum id Client (client_open (named_pipe_path_new path))"

section \<open>The security descriptor\<close>

definition PIPE_SDDL_TEMPLATE :: string where
  "PIPE_SDDL_TEMPLATE = ''D:(A;;FA;;;SY)(A;;FA;;;BA)(A;;FA;;;{sid})(A;;FRFW;;;AU)S:(ML;;NW;;;ME)''"

text \<open>\<open>str::replace\<close> for a pattern that is not empty.\<close>

function replace :: "string \<Rightarrow> string \<Rightarrow> string \<Rightarrow> string" where
  "replace pat new s =
     (case s of
        [] \<Rightarrow> []
      | c # cs \<Rightarrow>
          (case strip_prefix pat s of
             Some rest \<Rightarrow> if length rest < length s then new @ replace pat new rest else s
           | None \<Rightarrow> c # replace pat new cs))"
  by pat_completeness auto
termination
  by (relation "measure (\<lambda>(pat, new, s). length s)") auto

declare replace.simps [simp del]

text \<open>
  The calls, each of which succeeds or fails with a text; the last two return a status. What they
  allocate and what is set is recorded as events. \<open>sid_text\<close> is \<open>None\<close> when the text of the SID is not valid UTF-16.
\<close>

record security_api =
  open_process_token :: "string + unit"
  token_size :: u32
  token_user :: "string + unit"
  convert_sid :: "string + unit"
  sid_text :: "string option"
  convert_sddl :: "string \<Rightarrow> string + unit"
  get_dacl :: "string + unit"
  get_sacl :: "string + unit"
  set_dacl :: u32
  set_label :: u32

datatype allocation = Token | SidText | Descriptor

datatype security_event = Take allocation | Give allocation | SetDacl string | SetLabel string

text \<open>\<open>io::Error::other\<close>; the message is not kept, since only the kind of such an error is ever looked at.\<close>

definition other_error :: "string \<Rightarrow> io_error" where
  "other_error text = OtherIo 0"

definition current_user_sid :: "security_api \<Rightarrow> (io_error + string) \<times> security_event list" where
  "current_user_sid api =
     (case open_process_token api of
        Inl e \<Rightarrow> (Inl (other_error (''failed to open the process token: '' @ e)), [])
      | Inr _ \<Rightarrow>
          if token_size api = 0 then
            (Inl (other_error ''token user information reported zero size''), [Take Token, Give Token])
          else
            (case token_user api of
               Inl e \<Rightarrow> (Inl (other_error (''failed to read the token user: '' @ e)), [Take Token, Give Token])
             | Inr _ \<Rightarrow>
                 (case convert_sid api of
                    Inl e \<Rightarrow>
                      (Inl (other_error (''failed to stringify the user SID: '' @ e)), [Take Token, Give Token])
                  | Inr _ \<Rightarrow>
                      (case sid_text api of
                         None \<Rightarrow>
                           (Inl (other_error ''user SID is not valid UTF-16''), [Take Token, Take SidText, Give Token])
                       | Some text \<Rightarrow> (Inr text, [Take Token, Take SidText, Give SidText, Give Token])))))"

text \<open>The closure between the conversion of the descriptor and its release.\<close>

definition set_security :: "security_api \<Rightarrow> string \<Rightarrow> (io_error + unit) \<times> security_event list" where
  "set_security api sddl =
     (case get_dacl api of
        Inl e \<Rightarrow> (Inl (other_error (''failed to read the pipe DACL: '' @ e)), [])
      | Inr _ \<Rightarrow>
          (case get_sacl api of
             Inl e \<Rightarrow> (Inl (other_error (''failed to read the pipe label: '' @ e)), [])
           | Inr _ \<Rightarrow>
               if set_dacl api \<noteq> 0 then (Inl (other_error ''failed to set the pipe DACL: ''), [])
               else if set_label api \<noteq> 0 then
                 (Inl (other_error ''failed to set the pipe integrity label: ''), [SetDacl sddl])
               else (Inr (), [SetDacl sddl, SetLabel sddl])))"

definition apply_pipe_security :: "security_api \<Rightarrow> (io_error + unit) \<times> security_event list" where
  "apply_pipe_security api =
     (case current_user_sid api of
        (Inl e, events) \<Rightarrow> (Inl e, events)
      | (Inr sid, events) \<Rightarrow>
          let sddl = replace ''{sid}'' sid PIPE_SDDL_TEMPLATE in
          (case convert_sddl api sddl of
             Inl e \<Rightarrow> (Inl (other_error (''failed to parse the pipe SDDL: '' @ e)), events)
           | Inr _ \<Rightarrow>
               (case set_security api sddl of
                  (result, set_events) \<Rightarrow> (result, events @ [Take Descriptor] @ set_events @ [Give Descriptor]))))"

section \<open>The acceptor\<close>

record server_options =
  first_pipe_instance :: bool
  write_dac :: bool
  write_owner :: bool

text \<open>\<open>create\<close> is \<open>ServerOptions::create\<close>: it gives an instance or fails.\<close>

definition create_server :: "(server_options \<Rightarrow> string \<Rightarrow> io_error + 'h) \<Rightarrow> security_api \<Rightarrow> string \<Rightarrow> bool
    \<Rightarrow> io_error + 'h" where
  "create_server create api path first_instance =
     (if \<not> first_instance then
        create \<lparr>first_pipe_instance = False, write_dac = False, write_owner = False\<rparr> path
      else
        bindr (create \<lparr>first_pipe_instance = True, write_dac = True, write_owner = True\<rparr> path) (\<lambda>server.
        bindr (fst (apply_pipe_security api)) (\<lambda>_. Inr server)))"

record 'h named_pipe_acceptor =
  npa_path :: string
  listening :: 'h
  spare :: "'h option"

definition npipe_bind :: "(server_options \<Rightarrow> string \<Rightarrow> io_error + 'h) \<Rightarrow> security_api \<Rightarrow> string
    \<Rightarrow> io_error + 'h named_pipe_acceptor" where
  "npipe_bind create api path =
     (let path = named_pipe_path_new path in
      bindr (create_server create api path True) (\<lambda>server.
        Inr \<lparr>npa_path = path, listening = server, spare = None\<rparr>))"

definition npipe_local_addr :: "'h named_pipe_acceptor \<Rightarrow> string" where
  "npipe_local_addr a = npa_path a"

text \<open>
  \<open>accept\<close> up to the point where it waits for a client on the listening instance, and from the
  answer of that wait on. \<open>None\<close> is the panic of \<open>expect\<close>.
\<close>

definition accept_prepare :: "(server_options \<Rightarrow> string \<Rightarrow> io_error + 'h) \<Rightarrow> security_api
    \<Rightarrow> 'h named_pipe_acceptor \<Rightarrow> (io_error + unit) \<times> 'h named_pipe_acceptor" where
  "accept_prepare create api a =
     (case spare a of
        Some _ \<Rightarrow> (Inr (), a)
      | None \<Rightarrow>
          (case create_server create api (npa_path a) False of
             Inl e \<Rightarrow> (Inl e, a)
           | Inr server \<Rightarrow> (Inr (), a\<lparr>spare := Some server\<rparr>)))"

definition accept_connected :: "io_error + unit \<Rightarrow> 'h named_pipe_acceptor
    \<Rightarrow> (io_error + 'h named_pipe_stream) option \<times> 'h named_pipe_acceptor" where
  "accept_connected answer a =
     (case answer of
        Inl e \<Rightarrow> (Some (Inl e), a)
      | Inr _ \<Rightarrow>
          (case spare a of
             None \<Rightarrow> (None, a)
           | Some s \<Rightarrow> (Some (Inr (Server (listening a))), a\<lparr>spare := None, listening := s\<rparr>)))"

section \<open>Histories of an acceptor\<close>

text \<open>
  The instances are numbered in the order they are created. Clients reach any instance that has
  none; an accept that waits (it holds the lock, so there is one at most) is answered, fails or is
  dropped.
\<close>

record npipe_world =
  acceptor :: "nat named_pipe_acceptor"
  created :: nat
  clients :: "nat set"
  handed :: "nat list"
  waiting :: bool

definition held :: "'h named_pipe_acceptor \<Rightarrow> 'h list" where
  "held a = listening a # (case spare a of None \<Rightarrow> [] | Some s \<Rightarrow> [s])"

datatype npipe_event = ClientReaches nat | AcceptWaits | SpareFails | HandsOut nat | WaitFails | AcceptDropped

definition npipe_start :: "nat named_pipe_acceptor \<Rightarrow> npipe_world" where
  "npipe_start a = \<lparr>acceptor = a, created = 1, clients = {}, handed = [], waiting = False\<rparr>"

inductive npipe_step :: "security_api \<Rightarrow> npipe_world \<Rightarrow> npipe_event \<Rightarrow> npipe_world \<Rightarrow> bool" for api w where
  np_client: "h \<in> set (held (acceptor w)) \<Longrightarrow> h \<notin> clients w
    \<Longrightarrow> npipe_step api w (ClientReaches h) (w\<lparr>clients := insert h (clients w)\<rparr>)"
| np_prepare: "\<not> waiting w \<Longrightarrow> accept_prepare (\<lambda>_ _. Inr (created w)) api (acceptor w) = (Inr (), a)
    \<Longrightarrow> npipe_step api w AcceptWaits
          (w\<lparr>acceptor := a, waiting := True,
             created := created w + (if spare (acceptor w) = None then 1 else 0)\<rparr>)"
| np_refused: "\<not> waiting w \<Longrightarrow> accept_prepare (\<lambda>_ _. Inl e) api (acceptor w) = (Inl e', a)
    \<Longrightarrow> npipe_step api w SpareFails (w\<lparr>acceptor := a\<rparr>)"
| np_accepted: "waiting w \<Longrightarrow> listening (acceptor w) \<in> clients w
    \<Longrightarrow> accept_connected (Inr ()) (acceptor w) = (Some (Inr (Server h)), a)
    \<Longrightarrow> npipe_step api w (HandsOut h) (w\<lparr>acceptor := a, handed := handed w @ [h], waiting := False\<rparr>)"
| np_failed: "waiting w \<Longrightarrow> accept_connected (Inl e) (acceptor w) = (Some (Inl e'), a)
    \<Longrightarrow> npipe_step api w WaitFails (w\<lparr>acceptor := a, waiting := False\<rparr>)"
| np_cancelled: "waiting w \<Longrightarrow> npipe_step api w AcceptDropped (w\<lparr>waiting := False\<rparr>)"

inductive npipe_steps :: "security_api \<Rightarrow> npipe_world \<Rightarrow> npipe_event list \<Rightarrow> npipe_world \<Rightarrow> bool" for api w where
  np_none: "npipe_steps api w [] w"
| np_next: "npipe_steps api w es w1 \<Longrightarrow> npipe_step api w1 e w2 \<Longrightarrow> npipe_steps api w (es @ [e]) w2"

inductive_cases HandsOutE: "npipe_step api w (HandsOut h) w'"
inductive_cases AcceptWaitsE: "npipe_step api w AcceptWaits w'"

definition npipe_inv :: "npipe_world \<Rightarrow> bool" where
  "npipe_inv w \<longleftrightarrow>
     handed w @ held (acceptor w) = [0..<created w] \<and> set (handed w) \<subseteq> clients w
     \<and> (waiting w \<longrightarrow> spare (acceptor w) \<noteq> None)"

lemmas acceptor_defs = accept_prepare_def accept_connected_def create_server_def held_def

lemma npipe_step_inv: "npipe_step api w e w' \<Longrightarrow> npipe_inv w \<Longrightarrow> npipe_inv w'"
  by (erule npipe_step.cases) (auto simp: npipe_inv_def acceptor_defs split: option.splits)

lemma npipe_start_inv: "npipe_bind (\<lambda>_ _. Inr 0) api path = Inr a \<Longrightarrow> npipe_inv (npipe_start a)"
  by (auto simp: npipe_bind_def npipe_inv_def npipe_start_def held_def Let_def create_server_def bindr_eq_Inr_iff)

lemma npipe_steps_inv: "npipe_steps api w es w' \<Longrightarrow> npipe_inv w \<Longrightarrow> npipe_inv w'"
  by (induction rule: npipe_steps.induct) (auto intro: npipe_step_inv)

text \<open>
  One step keeps the clients; the listening instance changes only when it is handed out, which
  takes a client on it and puts the spare in its place.
\<close>

lemma npipe_step_mono: "npipe_step api w e w' \<Longrightarrow> clients w \<subseteq> clients w' \<and> set (handed w) \<subseteq> set (handed w')"
  by (erule npipe_step.cases) auto

lemma npipe_step_listening:
  "npipe_step api w e w' \<Longrightarrow>
     (if \<exists>h. e = HandsOut h
      then e = HandsOut (listening (acceptor w)) \<and> handed w' = handed w @ [listening (acceptor w)]
        \<and> listening (acceptor w) \<in> clients w \<and> spare (acceptor w) = Some (listening (acceptor w'))
      else handed w' = handed w \<and> listening (acceptor w') = listening (acceptor w))"
  by (erule npipe_step.cases) (auto simp: acceptor_defs split: option.splits)

lemma npipe_steps_listening:
  "npipe_steps api w es w' \<Longrightarrow> listening (acceptor w) \<in> set (handed w')
     \<or> handed w' = handed w \<and> listening (acceptor w') = listening (acceptor w)"
proof (induction rule: npipe_steps.induct)
  case (np_next es w1 e w2)
  then show ?case
    using npipe_step_listening [OF np_next.hyps(2)] npipe_step_mono [OF np_next.hyps(2)]
    by (auto split: if_splits)
qed simp

text \<open>From any world an accept can go on to wait, and one that waits on an instance with a client ends.\<close>

lemma npipe_can_wait: "\<not> waiting w \<Longrightarrow> \<exists>w'. npipe_step api w AcceptWaits w'"
  by (cases "spare (acceptor w)") (auto intro!: exI np_prepare simp: acceptor_defs)

lemma npipe_hands_out:
  assumes "waiting w" and "npipe_inv w" and "listening (acceptor w) \<in> clients w"
  shows "\<exists>w'. npipe_step api w (HandsOut (listening (acceptor w))) w' \<and> handed w' = handed w @ [listening (acceptor w)]"
proof -
  obtain s where "spare (acceptor w) = Some s" using assms(1,2) by (auto simp: npipe_inv_def)
  then have "npipe_step api w (HandsOut (listening (acceptor w)))
      (w\<lparr>acceptor := (acceptor w)\<lparr>spare := None, listening := s\<rparr>, handed := handed w @ [listening (acceptor w)],
         waiting := False\<rparr>)"
    using assms(1,3) by (intro np_accepted) (simp_all add: accept_connected_def)
  then show ?thesis by fastforce
qed

section \<open>Lemmas on names\<close>

lemma strip_prefix_prefix: "strip_prefix p s \<noteq> None \<longleftrightarrow> prefix p s"
  by (auto simp: prefix_def strip_prefix_iff simp flip: not_None_eq)

lemma named_pipe_path_prefixed: "prefix PIPE_PREFIX (named_pipe_path_new s)"
  unfolding named_pipe_path_new_def strip_prefix_prefix by simp

lemma named_pipe_path_fixed: "prefix PIPE_PREFIX s \<Longrightarrow> named_pipe_path_new s = s"
  unfolding named_pipe_path_new_def strip_prefix_prefix by simp

section \<open>Lemmas on the descriptor\<close>

lemma sddl_of_template:
  "replace ''{sid}'' sid PIPE_SDDL_TEMPLATE
     = ''D:(A;;FA;;;SY)(A;;FA;;;BA)(A;;FA;;;'' @ sid @ '')(A;;FRFW;;;AU)S:(ML;;NW;;;ME)''"
  by (simp add: PIPE_SDDL_TEMPLATE_def replace.simps)

definition sample_security :: security_api where
  "sample_security =
     \<lparr>open_process_token = Inr (), token_size = 44, token_user = Inr (), convert_sid = Inr (),
      sid_text = Some ''S-1'', convert_sddl = (\<lambda>s. Inr ()), get_dacl = Inr (), get_sacl = Inr (),
      set_dacl = 0, set_label = 0\<rparr>"

lemma sample_security_ok: "fst (apply_pipe_security sample_security) = Inr ()"
  by (simp add: sample_security_def apply_pipe_security_def current_user_sid_def set_security_def Let_def)

section \<open>Properties\<close>

text \<open>C11: Accepting on a named pipe is safe to cancel. After any history of clients, accepts that were
  answered, failed or were dropped while they waited, and instances that could not be created:
  the instances handed out and those the acceptor still holds are all that were created, each once
  and in the order of their creation, so that none is lost or handed out twice; every instance
  handed out has a client; the spare is there whenever an accept waits, so it never panics. From
  there on, a client on the listening instance is handed out by the next accept, or by the one that
  waits, and in every continuation it is handed out or still on the listening instance. Until a client
  reaches the listening instance nothing is handed out, so a client that reached the spare
  waits; the spare takes the place of the listening instance when that is handed out.\<close>

theorem npipe_accept_cancel_safe:
  assumes "npipe_bind (\<lambda>_ _. Inr 0) api path = Inr a" and "npipe_steps api (npipe_start a) es w"
  shows "handed w @ held (acceptor w) = [0..<created w] \<and> set (handed w) \<subseteq> clients w
    \<and> (waiting w \<longrightarrow> fst (accept_connected (Inr ()) (acceptor w)) = Some (Inr (Server (listening (acceptor w)))))
    \<and> (\<not> waiting w \<longrightarrow> (\<exists>w1. npipe_step api w AcceptWaits w1))
    \<and> (\<forall>w1. listening (acceptor w) \<in> clients w \<and> (if waiting w then w1 = w else npipe_step api w AcceptWaits w1) \<longrightarrow>
         (\<exists>w2. npipe_step api w1 (HandsOut (listening (acceptor w))) w2
             \<and> handed w2 = handed w @ [listening (acceptor w)]))
    \<and> (\<forall>later w'. npipe_steps api w later w' \<longrightarrow>
         (if listening (acceptor w) \<in> clients w'
          then listening (acceptor w) \<in> set (handed w') \<or> listening (acceptor w') = listening (acceptor w)
          else handed w' = handed w))
    \<and> (\<forall>h w'. npipe_step api w (HandsOut h) w' \<longrightarrow>
         h = listening (acceptor w) \<and> spare (acceptor w) = Some (listening (acceptor w')))"
    (is "?held \<and> ?clients \<and> ?panic \<and> ?wait \<and> ?next \<and> ?later \<and> ?order")
proof -
  have inv: "npipe_inv w" by (rule npipe_steps_inv [OF assms(2) npipe_start_inv [OF assms(1)]])
  then have ?held ?clients ?panic by (auto simp: npipe_inv_def accept_connected_def)
  moreover have ?wait by (simp add: npipe_can_wait)
  moreover have ?next
  proof (intro allI impI, elim conjE)
    fix w1
    assume client: "listening (acceptor w) \<in> clients w"
      and next1: "if waiting w then w1 = w else npipe_step api w AcceptWaits w1"
    have "waiting w1 \<and> npipe_inv w1 \<and> listening (acceptor w1) = listening (acceptor w) \<and> handed w1 = handed w
        \<and> clients w \<subseteq> clients w1"
      using next1 inv npipe_step_inv npipe_step_mono npipe_step_listening [of api w AcceptWaits w1]
      by (auto split: if_splits elim: AcceptWaitsE)
    then show "\<exists>w2. npipe_step api w1 (HandsOut (listening (acceptor w))) w2
        \<and> handed w2 = handed w @ [listening (acceptor w)]"
      using npipe_hands_out [of w1 api] client by auto
  qed
  moreover have ?later
  proof (intro allI impI)
    fix later w'
    assume steps: "npipe_steps api w later w'"
    have "set (handed w') \<subseteq> clients w'" using npipe_steps_inv [OF steps inv] by (simp add: npipe_inv_def)
    then show "if listening (acceptor w) \<in> clients w'
        then listening (acceptor w) \<in> set (handed w') \<or> listening (acceptor w') = listening (acceptor w)
        else handed w' = handed w"
      using npipe_steps_listening [OF steps] by auto
  qed
  moreover have ?order using npipe_step_listening by fastforce
  ultimately show ?thesis by simp
qed

theorem npipe_accept_cancel_safe_witness:
  "let w = \<lparr>acceptor = \<lparr>npa_path = named_pipe_path_new ''x'', listening = 0, spare = Some 1\<rparr>,
            created = 2, clients = {0, 1}, handed = [], waiting = False\<rparr>
   in \<exists>w1 w2. npipe_step sample_security w AcceptWaits w1
        \<and> npipe_step sample_security w1 (HandsOut 0) w2 \<and> handed w2 = [0] \<and> listening (acceptor w2) = 1"
proof -
  let ?a = "\<lambda>s. \<lparr>npa_path = named_pipe_path_new ''x'', listening = 0 :: nat, spare = s\<rparr>"
  let ?w = "\<lambda>s n cs b. \<lparr>acceptor = ?a s, created = n, clients = cs, handed = [], waiting = b\<rparr>"
  have bind: "npipe_bind (\<lambda>_ _. Inr 0) sample_security ''x'' = Inr (?a None)"
    by (simp add: npipe_bind_def create_server_def sample_security_ok Let_def)
  have 1: "npipe_step sample_security (npipe_start (?a None)) AcceptWaits (?w (Some 1) 2 {} True)"
    using np_prepare [of "npipe_start (?a None)" sample_security "?a (Some 1)"]
    by (simp add: acceptor_defs npipe_start_def numeral_2_eq_2)
  have 2: "npipe_step sample_security (?w (Some 1) 2 {} True) (ClientReaches 1) (?w (Some 1) 2 {1} True)"
    using np_client [of 1 "?w (Some 1) 2 {} True" sample_security] by (simp add: held_def)
  have 3: "npipe_step sample_security (?w (Some 1) 2 {1} True) AcceptDropped (?w (Some 1) 2 {1} False)"
    using np_cancelled [of "?w (Some 1) 2 {1} True" sample_security] by simp
  have 4: "npipe_step sample_security (?w (Some 1) 2 {1} False) (ClientReaches 0) (?w (Some 1) 2 {0, 1} False)"
    using np_client [of 0 "?w (Some 1) 2 {1} False" sample_security] by (simp add: held_def)
  note all = npipe_accept_cancel_safe [OF bind np_next [OF np_next [OF np_next [OF np_next [OF np_none 1] 2] 3] 4]]
  from all obtain w1 where w1: "npipe_step sample_security (?w (Some 1) 2 {0, 1} False) AcceptWaits w1" by auto
  with all obtain w2 where "npipe_step sample_security w1 (HandsOut 0) w2" "handed w2 = [0]" by auto
  moreover from this(1) w1 have "listening (acceptor w2) = 1"
    by (auto elim!: HandsOutE AcceptWaitsE simp: acceptor_defs)
  ultimately show ?thesis using w1 by auto
qed

text \<open>C36: The security descriptor of a pipe. When it was applied, both the access list and the label
  were set from the descriptor that gives full access to the system, the administrators and the
  account of the process only, and reading and writing to authenticated users. Whatever fails,
  everything that was allocated is released, with one exception: the text of the account's SID
  is left allocated exactly when it was made and is not valid UTF-16.\<close>

theorem pipe_security_applied:
  "(fst (apply_pipe_security api) = Inr () \<longrightarrow>
      (\<exists>sid. sid_text api = Some sid
         \<and> (\<forall>e \<in> {SetDacl, SetLabel}.
              e (''D:(A;;FA;;;SY)(A;;FA;;;BA)(A;;FA;;;'' @ sid @ '')(A;;FRFW;;;AU)S:(ML;;NW;;;ME)'')
              \<in> set (snd (apply_pipe_security api)))))
    \<and> (\<forall>x. count_list (snd (apply_pipe_security api)) (Take x)
         = count_list (snd (apply_pipe_security api)) (Give x)
           + (if x = SidText \<and> open_process_token api = Inr () \<and> token_size api \<noteq> 0 \<and> token_user api = Inr ()
                \<and> convert_sid api = Inr () \<and> sid_text api = None then 1 else 0))"
  by (auto simp: apply_pipe_security_def current_user_sid_def set_security_def sddl_of_template Let_def
      split: sum.splits option.splits prod.splits if_splits)

theorem pipe_security_applied_witness:
  "SetDacl (''D:(A;;FA;;;SY)(A;;FA;;;BA)(A;;FA;;;'' @ ''S-1'' @ '')(A;;FRFW;;;AU)S:(ML;;NW;;;ME)'')
   \<in> set (snd (apply_pipe_security sample_security))
   \<and> (let events = snd (apply_pipe_security (sample_security\<lparr>sid_text := None\<rparr>))
      in count_list events (Take SidText) = count_list events (Give SidText) + 1)"
  using pipe_security_applied [of sample_security] pipe_security_applied [of "sample_security\<lparr>sid_text := None\<rparr>"]
    sample_security_ok by (simp add: sample_security_def)

text \<open>The name of a pipe is normalised once and for all: it always starts with the pipe
  namespace, normalising it again changes nothing, and a name without the prefix and without
  leading backslashes is only prefixed, so such names stay apart.\<close>

lemma pipe_names_normal:
  "prefix PIPE_PREFIX (named_pipe_path_new s)
   \<and> named_pipe_path_new (named_pipe_path_new s) = named_pipe_path_new s
   \<and> (s \<noteq> [] \<and> t \<noteq> [] \<and> hd s \<noteq> CHR 0x5C \<and> hd t \<noteq> CHR 0x5C \<longrightarrow>
        (named_pipe_path_new s = named_pipe_path_new t \<longleftrightarrow> s = t))"
proof -
  have "named_pipe_path_new r = PIPE_PREFIX @ r" if "r \<noteq> []" "hd r \<noteq> CHR 0x5C" for r
    using that by (cases r) (auto simp: named_pipe_path_new_def PIPE_PREFIX_def)
  then show ?thesis
    using named_pipe_path_prefixed named_pipe_path_fixed by auto
qed

lemma pipe_names_normal_example:
  "named_pipe_path_new (CHR 0x5C # ''a'') = named_pipe_path_new ''a'' \<and> named_pipe_path_new ''a'' \<noteq> named_pipe_path_new ''b''"
proof
  show "named_pipe_path_new (CHR 0x5C # ''a'') = named_pipe_path_new ''a''" by code_simp
  show "named_pipe_path_new ''a'' \<noteq> named_pipe_path_new ''b''" using pipe_names_normal [of "''a''" "''b''"] by simp
qed

end
