(* ===== verification/Handshake_Packet.thy ===== *)
theory Handshake_Packet
  imports Wire_Error
begin

text \<open>
  The data of \<open>src/src/auth/handshake.rs\<close> and its wire format: the protocol and its version,
  the handshake modes, and the three packets (hello, client auth, ack) with their encoders and
  decoders. The packets derive their layout from \<open>binrw\<close>: the fields in order,
  little-endian, a counted vector as long as the field before it says. Each layout is an
  instance of the locale \<open>codec\<close>, and the decoders' lemmas are read off its laws.
\<close>

section \<open>Constants and modes\<close>

definition HANDSHAKE_VERSION :: u16 where "HANDSHAKE_VERSION = 3"
definition NONCE_LEN :: nat where "NONCE_LEN = 32"
definition HMAC_LABEL :: bytes where "HMAC_LABEL = as_bytes ''ogurpchik/handshake/v1''"
definition MAX_PACKET_LEN :: u32 where "MAX_PACKET_LEN = 4096"
definition TAG_HELLO :: u8 where "TAG_HELLO = 1"
definition TAG_CLIENT_AUTH :: u8 where "TAG_CLIENT_AUTH = 2"
definition TAG_ACK :: u8 where "TAG_ACK = 3"
definition ACK_OK :: u8 where "ACK_OK = 0"
definition ACK_REJECTED :: u8 where "ACK_REJECTED = 1"

datatype handshake_mode =
    Disabled
  | VersionOnly
  | HmacSha256 (secret: bytes)
  | SignedProcess (public_key: bytes)

fun scheme_id :: "handshake_mode \<Rightarrow> u8" where
  "scheme_id Disabled = 0"
| "scheme_id VersionOnly = 0"
| "scheme_id (HmacSha256 _) = 1"
| "scheme_id (SignedProcess _) = 2"

definition mode_version_only :: handshake_mode where "mode_version_only = VersionOnly"

definition mode_hmac :: "bytes \<Rightarrow> handshake_mode" where "mode_hmac key = HmacSha256 key"

definition mode_signed_process :: "bytes \<Rightarrow> handshake_mode" where "mode_signed_process key = SignedProcess key"

text \<open>\<open>Debug\<close>, with the format of \<open>[u8]\<close>; it shows how long a secret is and not what it is.\<close>

fun items_debug :: "bytes \<Rightarrow> string" where
  "items_debug [] = []"
| "items_debug [b] = show_nat (unat b)"
| "items_debug (b # bs) = show_nat (unat b) @ '', '' @ items_debug bs"

fun handshake_mode_debug :: "handshake_mode \<Rightarrow> string" where
  "handshake_mode_debug Disabled = ''Disabled''"
| "handshake_mode_debug VersionOnly = ''VersionOnly''"
| "handshake_mode_debug (HmacSha256 key) = ''HmacSha256 { secret: <'' @ show_nat (length key) @ '' bytes> }''"
| "handshake_mode_debug (SignedProcess key) = ''SignedProcess { public_key: ['' @ items_debug key @ ''] }''"

lemma mode_debug_hides_secret:
  "length key = length key' \<Longrightarrow> handshake_mode_debug (mode_hmac key) = handshake_mode_debug (mode_hmac key')"
  by (simp add: mode_hmac_def)

section \<open>Protocols and versions\<close>

datatype version = Version (major: u32) (minor: u32) (patch: u32)

text \<open>The derived order: by major, then minor, then patch.\<close>

fun version_le :: "version \<Rightarrow> version \<Rightarrow> bool" where
  "version_le (Version a b c) (Version a' b' c') \<longleftrightarrow> a < a' \<or> a = a' \<and> (b < b' \<or> b = b' \<and> c \<le> c')"

instantiation version :: linorder
begin

definition less_eq_version :: "version \<Rightarrow> version \<Rightarrow> bool" where
  "v \<le> w \<longleftrightarrow> version_le v w"

definition less_version :: "version \<Rightarrow> version \<Rightarrow> bool" where
  "v < w \<longleftrightarrow> v \<le> w \<and> \<not> w \<le> (v :: version)"

instance
proof
  fix u v w :: version
  show "v < w \<longleftrightarrow> v \<le> w \<and> \<not> w \<le> v" by (rule less_version_def)
  show "v \<le> v" by (cases v) (simp add: less_eq_version_def)
  show "u \<le> v \<Longrightarrow> v \<le> w \<Longrightarrow> u \<le> w" by (cases u; cases v; cases w) (auto simp: less_eq_version_def)
  show "v \<le> w \<Longrightarrow> w \<le> v \<Longrightarrow> v = w" by (cases v; cases w) (auto simp: less_eq_version_def)
  show "v \<le> w \<or> w \<le> v" by (cases v; cases w) (auto simp: less_eq_version_def)
qed

end

record protocol =
  proto_id :: u64
  proto_version :: version

definition protocol_new :: "u64 \<Rightarrow> u32 \<Rightarrow> u32 \<Rightarrow> u32 \<Rightarrow> protocol" where
  "protocol_new i ma mi pa = \<lparr>proto_id = i, proto_version = Version ma mi pa\<rparr>"

fun version_fmt :: "version \<Rightarrow> string" where
  "version_fmt (Version ma mi pa) =
     show_nat (unat ma) @ ''.'' @ show_nat (unat mi) @ ''.'' @ show_nat (unat pa)"

definition protocol_fmt :: "protocol \<Rightarrow> string" where
  "protocol_fmt p = show_hex 16 (proto_id p) @ '' v'' @ version_fmt (proto_version p)"

definition incompatibility :: "protocol \<Rightarrow> protocol \<Rightarrow> (handshake_error \<times> string) option" where
  "incompatibility local peer =
     (if proto_id peer \<noteq> proto_id local then
        Some (ProtocolMismatch,
              ''peer speaks protocol '' @ protocol_fmt peer @ '', this side '' @ protocol_fmt local)
      else if major (proto_version peer) \<noteq> major (proto_version local) then
        Some (IncompatibleVersion,
              ''peer speaks v'' @ version_fmt (proto_version peer)
              @ '', this side v'' @ version_fmt (proto_version local))
      else None)"

section \<open>Reports\<close>

type_synonym hs_report = "handshake_error report"

definition malformed :: "string \<Rightarrow> hs_report" where
  "malformed what = Report MalformedPacket [Text (''invalid '' @ what @ '' packet'')]"

section \<open>Packet layouts\<close>

record wire_protocol =
  wp_id :: u64
  wp_major :: u32
  wp_minor :: u32
  wp_patch :: u32

definition wire_protocol_from :: "protocol \<Rightarrow> wire_protocol" where
  "wire_protocol_from p =
     \<lparr>wp_id = proto_id p, wp_major = major (proto_version p),
      wp_minor = minor (proto_version p), wp_patch = patch (proto_version p)\<rparr>"

definition protocol_from :: "wire_protocol \<Rightarrow> protocol" where
  "protocol_from w = protocol_new (wp_id w) (wp_major w) (wp_minor w) (wp_patch w)"

definition write_protocol :: "wire_protocol \<Rightarrow> bytes" where
  "write_protocol w =
     to_le 8 (wp_id w) @ to_le 4 (wp_major w) @ to_le 4 (wp_minor w) @ to_le 4 (wp_patch w)"

definition read_protocol :: "bytes \<Rightarrow> (wire_protocol \<times> bytes) option" where
  "read_protocol bs =
     Option.bind (read_le 8 bs) (\<lambda>(i, bs).
     Option.bind (read_le 4 bs) (\<lambda>(ma, bs).
     Option.bind (read_le 4 bs) (\<lambda>(mi, bs).
     Option.bind (read_le 4 bs) (\<lambda>(pa, bs).
       Some (\<lparr>wp_id = i, wp_major = ma, wp_minor = mi, wp_patch = pa\<rparr>, bs)))))"

record hello_packet =
  h_tag :: u8
  h_version :: u16
  h_scheme :: u8
  h_protocol :: wire_protocol
  h_nonce_len :: u16
  h_nonce :: bytes

definition write_hello :: "hello_packet \<Rightarrow> bytes" where
  "write_hello p =
     to_le 1 (h_tag p) @ to_le 2 (h_version p) @ to_le 1 (h_scheme p)
     @ write_protocol (h_protocol p) @ to_le 2 (h_nonce_len p) @ h_nonce p"

definition read_hello :: "bytes \<Rightarrow> (hello_packet \<times> bytes) option" where
  "read_hello bs =
     Option.bind (read_le 1 bs) (\<lambda>(t, bs).
     Option.bind (read_le 2 bs) (\<lambda>(v, bs).
     Option.bind (read_le 1 bs) (\<lambda>(s, bs).
     Option.bind (read_protocol bs) (\<lambda>(p, bs).
     Option.bind (read_le 2 bs) (\<lambda>(n, bs).
     Option.bind (read_count (unat n) bs) (\<lambda>(d, bs).
       Some (\<lparr>h_tag = t, h_version = v, h_scheme = s, h_protocol = p, h_nonce_len = n,
              h_nonce = d\<rparr>, bs)))))))"

record client_auth_packet =
  c_tag :: u8
  c_version :: u16
  c_scheme :: u8
  c_protocol :: wire_protocol
  c_proof_len :: u16
  c_proof :: bytes

definition write_client_auth :: "client_auth_packet \<Rightarrow> bytes" where
  "write_client_auth p =
     to_le 1 (c_tag p) @ to_le 2 (c_version p) @ to_le 1 (c_scheme p)
     @ write_protocol (c_protocol p) @ to_le 2 (c_proof_len p) @ c_proof p"

definition read_client_auth :: "bytes \<Rightarrow> (client_auth_packet \<times> bytes) option" where
  "read_client_auth bs =
     Option.bind (read_le 1 bs) (\<lambda>(t, bs).
     Option.bind (read_le 2 bs) (\<lambda>(v, bs).
     Option.bind (read_le 1 bs) (\<lambda>(s, bs).
     Option.bind (read_protocol bs) (\<lambda>(p, bs).
     Option.bind (read_le 2 bs) (\<lambda>(n, bs).
     Option.bind (read_count (unat n) bs) (\<lambda>(d, bs).
       Some (\<lparr>c_tag = t, c_version = v, c_scheme = s, c_protocol = p, c_proof_len = n,
              c_proof = d\<rparr>, bs)))))))"

record ack_packet =
  a_tag :: u8
  a_status :: u8
  a_reason_len :: u16
  a_reason :: bytes

definition write_ack :: "ack_packet \<Rightarrow> bytes" where
  "write_ack p = to_le 1 (a_tag p) @ to_le 1 (a_status p) @ to_le 2 (a_reason_len p) @ a_reason p"

definition read_ack :: "bytes \<Rightarrow> (ack_packet \<times> bytes) option" where
  "read_ack bs =
     Option.bind (read_le 1 bs) (\<lambda>(t, bs).
     Option.bind (read_le 1 bs) (\<lambda>(s, bs).
     Option.bind (read_le 2 bs) (\<lambda>(n, bs).
     Option.bind (read_count (unat n) bs) (\<lambda>(d, bs).
       Some (\<lparr>a_tag = t, a_status = s, a_reason_len = n, a_reason = d\<rparr>, bs)))))"

section \<open>Encoding and decoding\<close>

text \<open>
  \<open>read_body\<close> reads a packet with the reader of its layout and refuses bytes left over
  (\<open>cursor.position() != body.len()\<close>).
\<close>

definition read_body :: "(bytes \<Rightarrow> ('p \<times> bytes) option) \<Rightarrow> bytes \<Rightarrow> string \<Rightarrow> hs_report + 'p" where
  "read_body read_le_packet body what =
     (case read_le_packet body of
        None \<Rightarrow> Inl (malformed what)
      | Some (packet, rest) \<Rightarrow> if rest \<noteq> [] then Inl (malformed what) else Inr packet)"

fun packet_version :: "bytes \<Rightarrow> u16 option" where
  "packet_version (tag # lo # hi # rest) = Some (from_le [lo, hi])"
| "packet_version _ = None"

definition encode_hello :: "u8 \<Rightarrow> protocol \<Rightarrow> bytes \<Rightarrow> bytes" where
  "encode_hello scheme protocol nonce =
     write_hello \<lparr>h_tag = TAG_HELLO, h_version = HANDSHAKE_VERSION, h_scheme = scheme,
       h_protocol = wire_protocol_from protocol, h_nonce_len = word_of_nat (length nonce),
       h_nonce = nonce\<rparr>"

definition decode_hello :: "bytes \<Rightarrow> hs_report + u8 \<times> protocol \<times> bytes" where
  "decode_hello body =
     bindr (read_body read_hello body ''hello'') (\<lambda>packet.
       if h_tag packet \<noteq> TAG_HELLO then Inl (malformed ''hello'')
       else Inr (h_scheme packet, protocol_from (h_protocol packet), h_nonce packet))"

definition encode_client_auth :: "u8 \<Rightarrow> protocol \<Rightarrow> bytes \<Rightarrow> bytes" where
  "encode_client_auth scheme protocol proof =
     write_client_auth \<lparr>c_tag = TAG_CLIENT_AUTH, c_version = HANDSHAKE_VERSION, c_scheme = scheme,
       c_protocol = wire_protocol_from protocol, c_proof_len = word_of_nat (length proof),
       c_proof = proof\<rparr>"

definition decode_client_auth :: "bytes \<Rightarrow> hs_report + u8 \<times> protocol \<times> bytes" where
  "decode_client_auth body =
     bindr (read_body read_client_auth body ''client auth'') (\<lambda>packet.
       if c_tag packet \<noteq> TAG_CLIENT_AUTH then Inl (malformed ''client auth'')
       else Inr (c_scheme packet, protocol_from (c_protocol packet), c_proof packet))"

definition encode_ack :: "u8 \<Rightarrow> bytes \<Rightarrow> bytes" where
  "encode_ack status reason =
     write_ack \<lparr>a_tag = TAG_ACK, a_status = status, a_reason_len = word_of_nat (length reason),
       a_reason = reason\<rparr>"

definition decode_ack :: "bytes \<Rightarrow> hs_report + unit" where
  "decode_ack body =
     bindr (read_body read_ack body ''ack'') (\<lambda>packet.
       if a_tag packet \<noteq> TAG_ACK then Inl (malformed ''ack'')
       else if a_status packet = ACK_OK then Inr ()
       else Inl (Report Rejected [LossyUtf8 (a_reason packet)]))"

lemmas packet_defs = TAG_HELLO_def TAG_CLIENT_AUTH_def TAG_ACK_def ACK_OK_def ACK_REJECTED_def
  HANDSHAKE_VERSION_def

section \<open>The layouts are codecs\<close>

lemma protocol_from_wire [simp]: "protocol_from (wire_protocol_from p) = p"
  by (cases p) (simp add: protocol_from_def wire_protocol_from_def protocol_new_def)

lemma wire_from_protocol [simp]: "wire_protocol_from (protocol_from w) = w"
  by (cases w) (simp add: protocol_from_def wire_protocol_from_def protocol_new_def)

lemma read_u8_iff: "read_le (Suc 0) bs = Some (a :: u8, r) \<longleftrightarrow> bs = a # r"
  using u8_le.dec_iff [of bs a r] by simp

lemma read_u8: "read_le (Suc 0) (a # r) = Some (a :: u8, r)"
  by (simp add: read_u8_iff)

lemmas field_codecs = read_u8_iff u16_le.dec_iff u32_le.dec_iff u64_le.dec_iff counted.dec_iff
lemmas field_dec_enc = read_u8 u16_le.dec_enc u32_le.dec_enc u64_le.dec_enc counted.dec_enc

interpretation protocol_layout: codec "\<lambda>_. True" write_protocol read_protocol
  by unfold_locales
    (auto simp: read_protocol_def write_protocol_def field_dec_enc field_codecs bind_eq_Some_conv)

interpretation hello_layout: codec "\<lambda>p. unat (h_nonce_len p) = length (h_nonce p)" write_hello read_hello
  by unfold_locales
    (auto simp: read_hello_def write_hello_def field_dec_enc field_codecs protocol_layout.dec_enc
      protocol_layout.dec_iff bind_eq_Some_conv)

interpretation client_auth_layout:
  codec "\<lambda>p. unat (c_proof_len p) = length (c_proof p)" write_client_auth read_client_auth
  by unfold_locales
    (auto simp: read_client_auth_def write_client_auth_def field_dec_enc field_codecs
      protocol_layout.dec_enc protocol_layout.dec_iff bind_eq_Some_conv)

interpretation ack_layout: codec "\<lambda>p. unat (a_reason_len p) = length (a_reason p)" write_ack read_ack
  by unfold_locales
    (auto simp: read_ack_def write_ack_def field_dec_enc field_codecs bind_eq_Some_conv)

text \<open>\<open>read_body\<close> over a codec returns a packet exactly for its encoding.\<close>

context codec
begin

lemma read_body_iff: "read_body dec body what = Inr a \<longleftrightarrow> wf a \<and> body = enc a"
  using dec_iff [of body a "[]"] by (auto simp: read_body_def split: option.splits)

lemma read_body_enc: "wf a \<Longrightarrow> read_body dec (enc a) what = Inr a"
  by (simp add: read_body_iff)

end

section \<open>Decoders\<close>

lemma counted_len:
  "unat (w :: u16) = length xs \<longleftrightarrow> length xs < 2 ^ 16 \<and> w = word_of_nat (length xs)"
proof
  assume len: "unat w = length xs"
  then have "length xs < 2 ^ 16" using unat_u16_less [of w] by simp
  moreover have "w = word_of_nat (length xs)" using arg_cong [OF len, of "word_of_nat :: nat \<Rightarrow> u16"] by simp
  ultimately show "length xs < 2 ^ 16 \<and> w = word_of_nat (length xs)" ..
qed (simp add: unat_of_nat_u16)

lemma packet_version_write:
  "packet_version (write_hello h) = Some (h_version h)"
  "packet_version (write_client_auth c) = Some (c_version c)"
  by (simp_all add: write_hello_def write_client_auth_def numeral_2_eq_2
      from_le_to_le [of 2 "v :: u16" for v, unfolded numeral_2_eq_2, simplified])

lemma packet_version_encode [simp]:
  "packet_version (encode_hello s p n) = Some HANDSHAKE_VERSION"
  "packet_version (encode_client_auth s p n) = Some HANDSHAKE_VERSION"
  by (simp_all add: encode_hello_def encode_client_auth_def packet_version_write)

lemma decode_hello_iff:
  "decode_hello body = Inr (s, p, n) \<longleftrightarrow>
     (\<exists>v. length n < 2 ^ 16 \<and> body = write_hello \<lparr>h_tag = TAG_HELLO, h_version = v, h_scheme = s,
        h_protocol = wire_protocol_from p, h_nonce_len = word_of_nat (length n), h_nonce = n\<rparr>)"
  (is "?lhs \<longleftrightarrow> ?rhs")
proof
  assume ?lhs
  then obtain h where h: "unat (h_nonce_len h) = length (h_nonce h)" "body = write_hello h"
      "h_tag h = TAG_HELLO" "h_scheme h = s" "protocol_from (h_protocol h) = p" "h_nonce h = n"
    by (auto simp: decode_hello_def bindr_eq_Inr_iff hello_layout.read_body_iff split: if_splits)
  moreover have "h_protocol h = wire_protocol_from p" using h(5) by auto
  ultimately show ?rhs by (cases h) (auto simp: counted_len)
qed (auto simp: decode_hello_def hello_layout.read_body_enc counted_len)

lemma decode_client_auth_iff:
  "decode_client_auth body = Inr (s, p, n) \<longleftrightarrow>
     (\<exists>v. length n < 2 ^ 16 \<and> body = write_client_auth \<lparr>c_tag = TAG_CLIENT_AUTH, c_version = v,
        c_scheme = s, c_protocol = wire_protocol_from p, c_proof_len = word_of_nat (length n),
        c_proof = n\<rparr>)"
  (is "?lhs \<longleftrightarrow> ?rhs")
proof
  assume ?lhs
  then obtain c where c: "unat (c_proof_len c) = length (c_proof c)" "body = write_client_auth c"
      "c_tag c = TAG_CLIENT_AUTH" "c_scheme c = s" "protocol_from (c_protocol c) = p" "c_proof c = n"
    by (auto simp: decode_client_auth_def bindr_eq_Inr_iff client_auth_layout.read_body_iff
        split: if_splits)
  moreover have "c_protocol c = wire_protocol_from p" using c(5) by auto
  ultimately show ?rhs by (cases c) (auto simp: counted_len)
qed (auto simp: decode_client_auth_def client_auth_layout.read_body_enc counted_len)

lemma decode_hello_current:
  "decode_hello body = Inr (s, p, n) \<and> packet_version body = Some HANDSHAKE_VERSION \<longleftrightarrow>
     length n < 2 ^ 16 \<and> body = encode_hello s p n"
  by (auto simp: decode_hello_iff encode_hello_def packet_version_write)

lemma decode_client_auth_current:
  "decode_client_auth body = Inr (s, p, n) \<and> packet_version body = Some HANDSHAKE_VERSION \<longleftrightarrow>
     length n < 2 ^ 16 \<and> body = encode_client_auth s p n"
  by (auto simp: decode_client_auth_iff encode_client_auth_def packet_version_write)

lemma decode_packets [simp]:
  "length n < 2 ^ 16 \<Longrightarrow> decode_hello (encode_hello s p n) = Inr (s, p, n)"
  "length n < 2 ^ 16 \<Longrightarrow> decode_client_auth (encode_client_auth s p n) = Inr (s, p, n)"
  using decode_hello_current decode_client_auth_current by blast+

lemma read_ack_body_iff:
  "read_body read_ack body what = Inr a \<and> a_tag a = TAG_ACK \<longleftrightarrow>
     length (a_reason a) < 2 ^ 16 \<and> body = encode_ack (a_status a) (a_reason a)
     \<and> a = \<lparr>a_tag = TAG_ACK, a_status = a_status a,
            a_reason_len = word_of_nat (length (a_reason a)), a_reason = a_reason a\<rparr>"
  by (cases a) (auto simp: ack_layout.read_body_iff counted_len encode_ack_def)

lemma decode_ack_ok:
  "decode_ack body = Inr () \<longleftrightarrow> (\<exists>reason. length reason < 2 ^ 16 \<and> body = encode_ack ACK_OK reason)"
  (is "?lhs \<longleftrightarrow> ?rhs")
proof
  assume ?lhs
  then obtain a where "read_body read_ack body ''ack'' = Inr a" "a_tag a = TAG_ACK" "a_status a = ACK_OK"
    by (auto simp: decode_ack_def bindr_eq_Inr_iff split: if_splits)
  then show ?rhs using read_ack_body_iff [of body "''ack''" a] by auto
qed (auto simp: decode_ack_def encode_ack_def ack_layout.read_body_enc counted_len)

lemma decode_ack_rejected:
  assumes "status \<noteq> ACK_OK" and "length reason < 2 ^ 16"
  shows "decode_ack (encode_ack status reason) = Inl (Report Rejected [LossyUtf8 reason])"
  using assms by (simp add: decode_ack_def encode_ack_def ack_layout.read_body_enc counted_len)

lemma decode_ack_accepted [simp]: "decode_ack (encode_ack ACK_OK []) = Inr ()"
  unfolding decode_ack_ok by (rule exI [of _ "[]"]) simp

lemma length_packets [simp, lens]:
  "length (encode_hello s p n) = 26 + length n"
  "length (encode_client_auth s p n) = 26 + length n"
  "length (encode_ack st n) = 4 + length n"
  by (simp_all add: encode_hello_def encode_client_auth_def encode_ack_def write_hello_def
      write_client_auth_def write_ack_def write_protocol_def)

section \<open>Properties\<close>

text \<open>C29: The handshake packets are exact: a body of the current version decodes to a hello or a
  client auth exactly when it is the encoding of the decoded fields, so decoding is the
  inverse of encoding and no two bodies mean the same packet; an ack is accepted exactly
  when it is an encoded ack with status OK.\<close>

theorem handshake_packets_exact:
  "(decode_hello body = Inr (s, p, n) \<and> packet_version body = Some HANDSHAKE_VERSION
      \<longleftrightarrow> length n < 2 ^ 16 \<and> body = encode_hello s p n)
   \<and> (decode_client_auth body = Inr (s, p, n) \<and> packet_version body = Some HANDSHAKE_VERSION
      \<longleftrightarrow> length n < 2 ^ 16 \<and> body = encode_client_auth s p n)
   \<and> (decode_ack body = Inr () \<longleftrightarrow>
        (\<exists>reason. length reason < 2 ^ 16 \<and> body = encode_ack ACK_OK reason))"
  using decode_hello_current decode_client_auth_current decode_ack_ok by blast

end
