(* ===== verification/Effects.thy ===== *)
theory Effects
  imports Prelude
begin

text \<open>
  The asynchronous code of the handshake and of the process attestation as interaction
  trees: a value of type \<open>'a io\<close> is a program that has returned or panicked, or is waiting for the
  answer to one call to the connection (\<open>write_all\<close>, \<open>read_exact\<close>, the latter also under
  a timeout) or to the operating system. The answers are values of the result type of the
  call, so every failure is an argument of a continuation.

  Two semantics follow. \<open>runs\<close> relates a program to every sequence of answers it can
  meet: the environment is free to fail or to answer anything of the right length. And
  two programs joined by a pair of byte streams run in \<open>duplex\<close>, with every
  interleaving a step relation; the diamond lemma shows that the scheduling does not
  matter.
\<close>

section \<open>Programs\<close>

datatype 'a io =
    Ret 'a
  | Panic
  | WriteAll bytes "io_error + unit \<Rightarrow> 'a io"
  | ReadExact nat "io_error + bytes \<Rightarrow> 'a io"
  | TimedRead nat "io_error + bytes \<Rightarrow> 'a io" "'a io"
  | FillRandom nat "string + bytes \<Rightarrow> 'a io"
  | OpenProcess u32 "io_error + nat \<Rightarrow> 'a io"
  | ProcessTimes nat "io_error + u32 \<times> u32 \<Rightarrow> 'a io"
  | ProcessImageName nat "io_error + string \<Rightarrow> 'a io"
  | CloseHandle nat "'a io"
  | ReadFile string "io_error + bytes \<Rightarrow> 'a io"

primrec io_bind :: "'a io \<Rightarrow> ('a \<Rightarrow> 'b io) \<Rightarrow> 'b io" where
  "io_bind (Ret a) f = f a"
| "io_bind Panic f = Panic"
| "io_bind (WriteAll bs k) f = WriteAll bs (\<lambda>r. io_bind (k r) f)"
| "io_bind (ReadExact n k) f = ReadExact n (\<lambda>r. io_bind (k r) f)"
| "io_bind (TimedRead n k e) f = TimedRead n (\<lambda>r. io_bind (k r) f) (io_bind e f)"
| "io_bind (FillRandom n k) f = FillRandom n (\<lambda>r. io_bind (k r) f)"
| "io_bind (OpenProcess pid k) f = OpenProcess pid (\<lambda>r. io_bind (k r) f)"
| "io_bind (ProcessTimes h k) f = ProcessTimes h (\<lambda>r. io_bind (k r) f)"
| "io_bind (ProcessImageName h k) f = ProcessImageName h (\<lambda>r. io_bind (k r) f)"
| "io_bind (CloseHandle h p) f = CloseHandle h (io_bind p f)"
| "io_bind (ReadFile path k) f = ReadFile path (\<lambda>r. io_bind (k r) f)"

lemma io_bind_assoc: "io_bind (io_bind p f) g = io_bind p (\<lambda>a. io_bind (f a) g)"
  by (induction p) auto

text \<open>\<open>bind_ok p f\<close> is \<open>f(p.await?).await\<close>.\<close>

definition bind_ok :: "('e + 'a) io \<Rightarrow> ('a \<Rightarrow> ('e + 'b) io) \<Rightarrow> ('e + 'b) io" where
  "bind_ok p f = io_bind p (\<lambda>r. case r of Inl e \<Rightarrow> Ret (Inl e) | Inr a \<Rightarrow> f a)"

text \<open>
  \<open>with_timeout elapsed p\<close> is \<open>timeout(duration, p)\<close> whose elapsed case is \<open>elapsed\<close>: the
  deadline can pass at any point where \<open>p\<close> waits for the connection to deliver.
\<close>

primrec with_timeout :: "'a \<Rightarrow> 'a io \<Rightarrow> 'a io" where
  "with_timeout elapsed (Ret a) = Ret a"
| "with_timeout elapsed Panic = Panic"
| "with_timeout elapsed (WriteAll bs k) = WriteAll bs (\<lambda>r. with_timeout elapsed (k r))"
| "with_timeout elapsed (ReadExact n k) = TimedRead n (\<lambda>r. with_timeout elapsed (k r)) (Ret elapsed)"
| "with_timeout elapsed (TimedRead n k e) =
     TimedRead n (\<lambda>r. with_timeout elapsed (k r)) (with_timeout elapsed e)"
| "with_timeout elapsed (FillRandom n k) = FillRandom n (\<lambda>r. with_timeout elapsed (k r))"
| "with_timeout elapsed (OpenProcess pid k) = OpenProcess pid (\<lambda>r. with_timeout elapsed (k r))"
| "with_timeout elapsed (ProcessTimes h k) = ProcessTimes h (\<lambda>r. with_timeout elapsed (k r))"
| "with_timeout elapsed (ProcessImageName h k) = ProcessImageName h (\<lambda>r. with_timeout elapsed (k r))"
| "with_timeout elapsed (CloseHandle h p) = CloseHandle h (with_timeout elapsed p)"
| "with_timeout elapsed (ReadFile path k) = ReadFile path (\<lambda>r. with_timeout elapsed (k r))"

section \<open>Runs against any environment\<close>

datatype event =
    Wrote bytes
  | WriteFailed bytes
  | Got bytes
  | ReadFailed
  | Elapsed
  | Random bytes
  | RandomFailed
  | Opened u32 nat
  | OpenFailed u32
  | Times nat "u32 \<times> u32"
  | TimesFailed nat
  | ImageName nat string
  | ImageNameFailed nat
  | Closed nat
  | FileRead string "io_error + bytes"

inductive runs :: "'a io \<Rightarrow> event list \<Rightarrow> 'a \<Rightarrow> bool" where
  run_ret: "runs (Ret a) [] a"
| run_wrote: "runs (k (Inr ())) tr a \<Longrightarrow> runs (WriteAll bs k) (Wrote bs # tr) a"
| run_write_failed: "runs (k (Inl e)) tr a \<Longrightarrow> runs (WriteAll bs k) (WriteFailed bs # tr) a"
| run_got: "length bs = n \<Longrightarrow> runs (k (Inr bs)) tr a \<Longrightarrow> runs (ReadExact n k) (Got bs # tr) a"
| run_read_failed: "runs (k (Inl e)) tr a \<Longrightarrow> runs (ReadExact n k) (ReadFailed # tr) a"
| run_timed_got:
    "length bs = n \<Longrightarrow> runs (k (Inr bs)) tr a \<Longrightarrow> runs (TimedRead n k p) (Got bs # tr) a"
| run_timed_failed: "runs (k (Inl e)) tr a \<Longrightarrow> runs (TimedRead n k p) (ReadFailed # tr) a"
| run_elapsed: "runs p tr a \<Longrightarrow> runs (TimedRead n k p) (Elapsed # tr) a"
| run_random: "length bs = n \<Longrightarrow> runs (k (Inr bs)) tr a \<Longrightarrow> runs (FillRandom n k) (Random bs # tr) a"
| run_random_failed: "runs (k (Inl e)) tr a \<Longrightarrow> runs (FillRandom n k) (RandomFailed # tr) a"
| run_opened: "runs (k (Inr h)) tr a \<Longrightarrow> runs (OpenProcess pid k) (Opened pid h # tr) a"
| run_open_failed: "runs (k (Inl e)) tr a \<Longrightarrow> runs (OpenProcess pid k) (OpenFailed pid # tr) a"
| run_times: "runs (k (Inr t)) tr a \<Longrightarrow> runs (ProcessTimes h k) (Times h t # tr) a"
| run_times_failed: "runs (k (Inl e)) tr a \<Longrightarrow> runs (ProcessTimes h k) (TimesFailed h # tr) a"
| run_image: "runs (k (Inr path)) tr a \<Longrightarrow> runs (ProcessImageName h k) (ImageName h path # tr) a"
| run_image_failed:
    "runs (k (Inl e)) tr a \<Longrightarrow> runs (ProcessImageName h k) (ImageNameFailed h # tr) a"
| run_closed: "runs p tr a \<Longrightarrow> runs (CloseHandle h p) (Closed h # tr) a"
| run_file: "runs (k r) tr a \<Longrightarrow> runs (ReadFile path k) (FileRead path r # tr) a"

inductive_simps runs_Ret [simp]: "runs (Ret a) tr b"
inductive_simps runs_Panic [simp]: "runs Panic tr b"
inductive_simps runs_WriteAll: "runs (WriteAll bs k) tr a"
inductive_simps runs_ReadExact: "runs (ReadExact n k) tr a"
inductive_simps runs_TimedRead: "runs (TimedRead n k p) tr a"
inductive_simps runs_FillRandom: "runs (FillRandom n k) tr a"
inductive_simps runs_OpenProcess: "runs (OpenProcess pid k) tr a"
inductive_simps runs_ProcessTimes: "runs (ProcessTimes h k) tr a"
inductive_simps runs_ProcessImageName: "runs (ProcessImageName h k) tr a"
inductive_simps runs_CloseHandle: "runs (CloseHandle h p) tr a"
inductive_simps runs_ReadFile: "runs (ReadFile path k) tr a"

lemmas runs_simps = runs_WriteAll runs_ReadExact runs_TimedRead runs_FillRandom runs_OpenProcess
  runs_ProcessTimes runs_ProcessImageName runs_CloseHandle runs_ReadFile

text \<open>The bytes a run put on the connection and took from it.\<close>

fun sent :: "event list \<Rightarrow> bytes" where
  "sent [] = []"
| "sent (Wrote bs # tr) = bs @ sent tr"
| "sent (e # tr) = sent tr"

fun received :: "event list \<Rightarrow> bytes" where
  "received [] = []"
| "received (Got bs # tr) = bs @ received tr"
| "received (e # tr) = received tr"

lemma sent_append [simp]: "sent (tr @ tr') = sent tr @ sent tr'"
  by (induction tr rule: sent.induct) auto

lemma received_append [simp]: "received (tr @ tr') = received tr @ received tr'"
  by (induction tr rule: received.induct) auto

lemma runs_bindI: "runs p tr a \<Longrightarrow> runs (f a) tr' b \<Longrightarrow> runs (io_bind p f) (tr @ tr') b"
  by (induction p tr a rule: runs.induct) (auto intro: runs.intros)

lemma runs_bindD:
  "runs (io_bind p f) tr b \<Longrightarrow> \<exists>tr1 a tr2. runs p tr1 a \<and> runs (f a) tr2 b \<and> tr = tr1 @ tr2"
proof (induction p arbitrary: tr)
  case (Ret a)
  then show ?case by (metis append_Nil io_bind.simps(1) run_ret)
next
  case Panic
  then show ?case by simp
qed (simp, erule runs.cases; fastforce intro: runs.intros simp: append_eq_Cons_conv)+

lemma runs_bind: "runs (io_bind p f) tr b \<longleftrightarrow>
    (\<exists>tr1 a tr2. runs p tr1 a \<and> runs (f a) tr2 b \<and> tr = tr1 @ tr2)"
  by (rule iffI) (erule runs_bindD, auto intro: runs_bindI)

lemma runs_bind_ok_Inr:
  "runs (bind_ok p f) tr (Inr b) \<longleftrightarrow>
     (\<exists>tr1 a tr2. runs p tr1 (Inr a) \<and> runs (f a) tr2 (Inr b) \<and> tr = tr1 @ tr2)"
  by (simp add: bind_ok_def runs_bind split_sum_ex)

lemma runs_bind_ok_Inl:
  "runs (bind_ok p f) tr (Inl e) \<longleftrightarrow> runs p tr (Inl e) \<or>
     (\<exists>tr1 a tr2. runs p tr1 (Inr a) \<and> runs (f a) tr2 (Inl e) \<and> tr = tr1 @ tr2)"
  by (auto simp: bind_ok_def runs_bind split_sum_ex)

lemma runs_bind_okE:
  assumes "runs (bind_ok p f) tr res"
  obtains e where "runs p tr (Inl e)" and "res = Inl e"
  | a tr1 tr2 where "runs p tr1 (Inr a)" and "runs (f a) tr2 res" and "tr = tr1 @ tr2"
  using assms by (cases res) (auto simp: runs_bind_ok_Inr runs_bind_ok_Inl)

section \<open>Invariants of traces\<close>

text \<open>
  \<open>keeps P p\<close>: every run of \<open>p\<close> has a trace that satisfies \<open>P\<close>. For a predicate that
  survives concatenation it is proved along the structure of the program.
\<close>

definition keeps :: "(event list \<Rightarrow> bool) \<Rightarrow> 'a io \<Rightarrow> bool" where
  "keeps P p \<longleftrightarrow> (\<forall>tr a. runs p tr a \<longrightarrow> P tr)"

lemma keepsI: "(\<And>tr a. runs p tr a \<Longrightarrow> P tr) \<Longrightarrow> keeps P p"
  unfolding keeps_def by blast

lemma keepsD: "keeps P p \<Longrightarrow> runs p tr a \<Longrightarrow> P tr"
  unfolding keeps_def by blast

locale trace_invariant =
  fixes P :: "event list \<Rightarrow> bool"
  assumes empty_trace: "P []"
    and join_traces: "P tr \<Longrightarrow> P tr' \<Longrightarrow> P (tr @ tr')"
begin

lemma keeps_ret [intro]: "keeps P (Ret a)"
  by (simp add: keeps_def empty_trace)

lemma keeps_bind: "keeps P p \<Longrightarrow> (\<And>a. keeps P (f a)) \<Longrightarrow> keeps P (io_bind p f)"
  by (rule keepsI) (auto simp: runs_bind dest: keepsD intro: join_traces)

lemma keeps_bind_ok: "keeps P p \<Longrightarrow> (\<And>a. keeps P (f a)) \<Longrightarrow> keeps P (bind_ok p f)"
  unfolding bind_ok_def by (rule keeps_bind) (auto split: sum.split)

lemma keeps_fill_random:
  assumes "P [RandomFailed]" and "\<And>bs. P [Random bs]"
    and "\<And>e. keeps P (k (Inl e))" and "\<And>bs. length bs = n \<Longrightarrow> keeps P (k (Inr bs))"
  shows "keeps P (FillRandom n k)"
  using join_traces [of "[Random bs]" for bs] join_traces [of "[RandomFailed]"] assms
  by (intro keepsI) (fastforce simp: runs_simps dest: keepsD)

lemma keeps_read_file:
  "(\<And>r. P [FileRead path r]) \<Longrightarrow> (\<And>r. keeps P (k r)) \<Longrightarrow> keeps P (ReadFile path k)"
  using join_traces [of "[FileRead path r]" for r]
  by (intro keepsI) (fastforce simp: runs_simps dest: keepsD)

end

end
