(* ===== verification/Signed_Process.thy ===== *)
theory Signed_Process
  imports Handshake_Packet Effects Conn
begin

text \<open>
  \<open>src/src/auth/signed_process\<close>: the image of the peer's process must carry a detached ed25519
  signature. \<open>mod.rs\<close> verifies a file, \<open>windows.rs\<close> finds the image of a process and its
  creation time, \<open>windows_stub.rs\<close> refuses everywhere else, and \<open>verify_signed_process\<close> of
  \<open>handshake.rs\<close> ties them together. Files and processes are calls of \<open>io\<close>; the
  ed25519 and base64 crates, the text of an i/o error and the build configuration are the
  fields of \<open>attest_env\<close>.
\<close>

section \<open>Text in byte strings\<close>

definition continuation :: "u8 \<Rightarrow> bool" where
  "continuation b \<longleftrightarrow> 0x80 \<le> b \<and> b \<le> 0xBF"

text \<open>\<open>std::str::from_utf8\<close> succeeds.\<close>

fun is_utf8 :: "bytes \<Rightarrow> bool" where
  "is_utf8 [] = True"
| "is_utf8 (b # bs) =
     (if b < 0x80 then is_utf8 bs
      else if 0xC2 \<le> b \<and> b \<le> 0xDF then
        (case bs of c # rest \<Rightarrow> continuation c \<and> is_utf8 rest | _ \<Rightarrow> False)
      else if 0xE0 \<le> b \<and> b \<le> 0xEF then
        (case bs of
           c # d # rest \<Rightarrow> continuation c \<and> (b = 0xE0 \<longrightarrow> 0xA0 \<le> c) \<and> (b = 0xED \<longrightarrow> c \<le> 0x9F)
             \<and> continuation d \<and> is_utf8 rest
         | _ \<Rightarrow> False)
      else if 0xF0 \<le> b \<and> b \<le> 0xF4 then
        (case bs of
           c # d # e # rest \<Rightarrow> continuation c \<and> (b = 0xF0 \<longrightarrow> 0x90 \<le> c) \<and> (b = 0xF4 \<longrightarrow> c \<le> 0x8F)
             \<and> continuation d \<and> continuation e \<and> is_utf8 rest
         | _ \<Rightarrow> False)
      else False)"

text \<open>The UTF-8 encodings of the white space characters \<open>str::trim\<close> removes.\<close>

definition white_space :: "bytes list" where
  "white_space =
     map (\<lambda>b. [b]) [0x09, 0x0A, 0x0B, 0x0C, 0x0D, 0x20] @ [[0xC2, 0x85], [0xC2, 0xA0], [0xE1, 0x9A, 0x80]]
     @ map (\<lambda>b. [0xE2, 0x80, b])
         [0x80, 0x81, 0x82, 0x83, 0x84, 0x85, 0x86, 0x87, 0x88, 0x89, 0x8A, 0xA8, 0xA9, 0xAF]
     @ [[0xE2, 0x81, 0x9F], [0xE3, 0x80, 0x80]]"

function trim_from :: "bytes list \<Rightarrow> bytes \<Rightarrow> bytes" where
  "trim_from ws bs =
     (case find (\<lambda>w. w \<noteq> [] \<and> take (length w) bs = w) ws of
        None \<Rightarrow> bs
      | Some w \<Rightarrow> trim_from ws (drop (length w) bs))"
  by pat_completeness auto
termination
  by (relation "measure (\<lambda>(ws, bs). length bs)") (auto simp: find_Some_iff intro!: diff_less)

declare trim_from.simps [simp del]

definition trim :: "bytes \<Rightarrow> bytes" where
  "trim bs = rev (trim_from (map rev white_space) (rev (trim_from white_space bs)))"

lemma trim_from_id:
  assumes "bs = b # r" and "list_all (\<lambda>w. hd w \<noteq> b) ws"
  shows "trim_from ws bs = bs"
proof -
  have "find (\<lambda>w. w \<noteq> [] \<and> take (length w) bs = w) ws = None"
    using assms by (auto simp: find_None_iff list_all_iff neq_Nil_conv)
  then show ?thesis by (simp add: trim_from.simps)
qed

lemma trim_id:
  assumes "bs \<noteq> []" and "0x20 < hd bs" "hd bs < 0x80" and "0x20 < last bs" "last bs < 0x80"
  shows "trim bs = bs"
proof -
  have "trim_from white_space bs = bs"
    by (rule trim_from_id [where b = "hd bs" and r = "tl bs"]) (use assms in \<open>auto simp: white_space_def\<close>)
  moreover have "trim_from (map rev white_space) (rev bs) = rev bs"
    by (rule trim_from_id [where b = "last bs" and r = "tl (rev bs)"])
      (use assms in \<open>auto simp: white_space_def hd_rev [symmetric]\<close>)
  ultimately show ?thesis by (simp add: trim_def)
qed

section \<open>Verifying a file\<close>

record ('k, 'g) attest_env =
  cfg_platform :: platform
  cfg_debug_assertions :: bool
  io_text :: "io_error \<Rightarrow> string"
  base64_decode :: "bytes \<Rightarrow> bytes option"
  key_from_bytes :: "bytes \<Rightarrow> 'k option"
  signature_from_slice :: "bytes \<Rightarrow> 'g option"
  verify_signature :: "'k \<Rightarrow> bytes \<Rightarrow> 'g \<Rightarrow> string + unit"

definition unverified :: "string list \<Rightarrow> hs_report" where
  "unverified texts = Report SignedProcessVerificationFailed (map Text texts)"

definition signature_path_for :: "string \<Rightarrow> string" where
  "signature_path_for image_path = image_path @ ''.sig''"

definition parse_verifying_key :: "('k, 'g, 'z) attest_env_scheme \<Rightarrow> bytes \<Rightarrow> hs_report + 'k" where
  "parse_verifying_key env key =
     bindr
       (if length key = 32 then Inr key
        else if \<not> is_utf8 key then
          Inl (unverified [''public key must be raw 32 bytes or base64 text''])
        else
          (case base64_decode env (trim key) of
             None \<Rightarrow> Inl (unverified [''failed to decode base64 public key''])
           | Some decoded \<Rightarrow> Inr decoded))
       (\<lambda>decoded.
          if length decoded \<noteq> 32 then Inl (unverified [''ed25519 public key must be 32 bytes''])
          else
            (case key_from_bytes env decoded of
               None \<Rightarrow> Inl (unverified [])
             | Some k \<Rightarrow> Inr k))"

text \<open>The signature is base64 text or the raw bytes.\<close>

definition parse_signature :: "('k, 'g, 'z) attest_env_scheme \<Rightarrow> bytes \<Rightarrow> hs_report + 'g" where
  "parse_signature env bs =
     (let raw = (if is_utf8 bs
                 then (case base64_decode env (trim bs) of Some raw \<Rightarrow> raw | None \<Rightarrow> bs)
                 else bs)
      in case signature_from_slice env raw of None \<Rightarrow> Inl (unverified []) | Some s \<Rightarrow> Inr s)"

definition read_signature :: "('k, 'g, 'z) attest_env_scheme \<Rightarrow> string \<Rightarrow> (hs_report + 'g option) io" where
  "read_signature env path =
     ReadFile path (\<lambda>r.
       case r of
         Inr bs \<Rightarrow> Ret (bindr (parse_signature env bs) (\<lambda>s. Inr (Some s)))
       | Inl e \<Rightarrow>
           if e = io_error.NotFound then Ret (Inr None)
           else Ret (Inl (unverified [''failed to read signature '' @ path @ '': '' @ io_text env e])))"

definition on_missing_signature :: "('k, 'g, 'z) attest_env_scheme \<Rightarrow> string \<Rightarrow> string \<Rightarrow> hs_report + unit" where
  "on_missing_signature env image_path signature_path =
     (if cfg_debug_assertions env then Inr ()
      else Inl (unverified [''no signature at '' @ signature_path, ''for image '' @ image_path]))"

definition verify_signed_file :: "('k, 'g, 'z) attest_env_scheme \<Rightarrow> string \<Rightarrow> bytes \<Rightarrow> (hs_report + unit) io" where
  "verify_signed_file env image_path key =
     (case parse_verifying_key env key of
        Inl e \<Rightarrow> Ret (Inl e)
      | Inr verifying_key \<Rightarrow>
          ReadFile image_path (\<lambda>r.
            case r of
              Inl e \<Rightarrow> Ret (Inl (unverified [''failed to read signed image '' @ image_path]))
            | Inr image_bytes \<Rightarrow>
                bind_ok (read_signature env (signature_path_for image_path)) (\<lambda>s.
                  case s of
                    None \<Rightarrow> Ret (on_missing_signature env image_path (signature_path_for image_path))
                  | Some signature \<Rightarrow>
                      (case verify_signature env verifying_key image_bytes signature of
                         Inl e \<Rightarrow> Ret (Inl (unverified [''signature verification failed: '' @ e]))
                       | Inr u \<Rightarrow> Ret (Inr ())))))"

section \<open>Processes\<close>

text \<open>\<open>ProcessHandle::open\<close> and the methods of the handle; dropping it closes it.\<close>

definition open_process :: "u32 \<Rightarrow> (nat \<Rightarrow> (hs_report + 'a) io) \<Rightarrow> (hs_report + 'a) io" where
  "open_process pid body =
     OpenProcess pid (\<lambda>r.
       case r of
         Inl e \<Rightarrow> Ret (Inl (unverified [''failed to open process '' @ show_nat (unat pid)]))
       | Inr h \<Rightarrow> io_bind (body h) (\<lambda>result. CloseHandle h (Ret result)))"

definition image_path :: "nat \<Rightarrow> (hs_report + string) io" where
  "image_path h =
     ProcessImageName h (\<lambda>r.
       case r of
         Inl e \<Rightarrow> Ret (Inl (unverified [''failed to query process image path'']))
       | Inr path \<Rightarrow> Ret (Inr path))"

definition creation_time :: "nat \<Rightarrow> (hs_report + u64) io" where
  "creation_time h =
     ProcessTimes h (\<lambda>r.
       case r of
         Inl e \<Rightarrow> Ret (Inl (unverified [''failed to query process times'']))
       | Inr (high, low) \<Rightarrow> Ret (Inr (push_bit 32 (ucast high) OR ucast low)))"

definition unsupported :: hs_report where
  "unsupported = unverified [''signed-process attestation is only supported on Windows'']"

definition process_creation_time :: "('k, 'g, 'z) attest_env_scheme \<Rightarrow> u32 \<Rightarrow> (hs_report + u64) io" where
  "process_creation_time env pid =
     (if cfg_platform env = Windows then open_process pid creation_time else Ret (Inl unsupported))"

definition verify_process_image :: "('k, 'g, 'z) attest_env_scheme \<Rightarrow> u32 \<Rightarrow> bytes \<Rightarrow> (hs_report + unit) io" where
  "verify_process_image env pid key =
     (if cfg_platform env = Windows then
        open_process pid (\<lambda>h. bind_ok (image_path h) (\<lambda>path. verify_signed_file env path key))
      else Ret (Inl unsupported))"

definition verify_signed_process :: "('k, 'g, 'z) attest_env_scheme \<Rightarrow> u32 \<Rightarrow> bytes \<Rightarrow> (hs_report + unit) io" where
  "verify_signed_process env pid key =
     bind_ok (process_creation_time env pid) (\<lambda>created_before.
     bind_ok (verify_process_image env pid key) (\<lambda>_.
     bind_ok (process_creation_time env pid) (\<lambda>created_after.
       if created_after \<noteq> created_before then
         Ret (Inl (unverified [''pid '' @ show_nat (unat pid) @ '' was reused during verification'']))
       else Ret (Inr ()))))"

section \<open>What an accepted process has shown\<close>

text \<open>
  The verdict on an image and the outcome of reading its signature file: a valid signature
  under the key, or, in a debug build only, no signature file at all.
\<close>

definition image_signed :: "('k, 'g, 'z) attest_env_scheme \<Rightarrow> bytes \<Rightarrow> bytes \<Rightarrow> io_error + bytes \<Rightarrow> bool" where
  "image_signed env key img sig_file =
     (case parse_verifying_key env key of
        Inl e \<Rightarrow> False
      | Inr k \<Rightarrow>
          (case sig_file of
             Inl e \<Rightarrow> e = io_error.NotFound \<and> cfg_debug_assertions env
           | Inr bs \<Rightarrow>
               (case parse_signature env bs of
                  Inl e \<Rightarrow> False
                | Inr s \<Rightarrow> verify_signature env k img s = Inr ())))"

lemma join_halves_eq:
  "(push_bit 32 (ucast (h :: u32)) OR ucast (l :: u32) :: u64) = push_bit 32 (ucast h') OR ucast l'
   \<longleftrightarrow> h = h' \<and> l = l'"
proof
  assume eq: "(push_bit 32 (ucast h) OR ucast l :: u64) = push_bit 32 (ucast h') OR ucast l'"
  have "ucast (drop_bit 32 (push_bit 32 (ucast h) OR ucast l :: u64)) = h" for h l :: u32
    by (rule bit_word_eqI) (auto simp: bit_simps dest: bit_imp_le_length)
  moreover have "ucast (push_bit 32 (ucast h) OR ucast l :: u64) = l" for h l :: u32
    by (rule bit_word_eqI) (auto simp: bit_simps)
  ultimately show "h = h' \<and> l = l'" using eq by metis
qed simp

lemma runs_process_creation_time:
  "runs (process_creation_time env pid) tr (Inr t) \<longleftrightarrow>
     cfg_platform env = Windows \<and> (\<exists>h high low. tr = [Opened pid h, Times h (high, low), Closed h]
       \<and> t = push_bit 32 (ucast high) OR ucast low)"
  by (auto simp: process_creation_time_def open_process_def creation_time_def runs_simps runs_bind
      split_sum_ex)

lemma runs_read_signature:
  "runs (read_signature env path) tr (Inr s) \<longleftrightarrow>
     tr = [FileRead path (Inl io_error.NotFound)] \<and> s = None
     \<or> (\<exists>bs g. tr = [FileRead path (Inr bs)] \<and> parse_signature env bs = Inr g \<and> s = Some g)"
  by (auto simp: read_signature_def runs_simps bindr_eq_Inr_iff eq_commute [of "Inr _" "bindr _ _"]
      split_sum_ex split: if_splits)

lemma runs_verdict:
  "runs (case v of Inl e \<Rightarrow> Ret (Inl (f e)) | Inr u \<Rightarrow> Ret (Inr b)) tr (Inr c)
   \<longleftrightarrow> v = Inr () \<and> tr = [] \<and> c = b"
  by (cases v) auto

lemma runs_verify_signed_file:
  "runs (verify_signed_file env path key) tr (Inr ()) \<longleftrightarrow>
     (\<exists>img sf. tr = [FileRead path (Inr img), FileRead (signature_path_for path) sf]
        \<and> image_signed env key img sf)"
proof (cases "parse_verifying_key env key")
  case (Inl e)
  then show ?thesis by (simp add: verify_signed_file_def image_signed_def)
next
  case (Inr k)
  have "image_signed env key img (Inr bs) \<longleftrightarrow>
      (\<exists>g. parse_signature env bs = Inr g \<and> verify_signature env k img g = Inr ())" for img bs
    using Inr by (simp add: image_signed_def split: sum.split)
  moreover have "image_signed env key img (Inl e) \<longleftrightarrow> e = io_error.NotFound \<and> cfg_debug_assertions env"
    for img e
    using Inr by (simp add: image_signed_def)
  ultimately show ?thesis
    using Inr
    by (auto simp: verify_signed_file_def on_missing_signature_def runs_simps runs_bind_ok_Inr
        runs_read_signature runs_verdict split_sum_ex split_option_ex split: if_splits) blast
qed

lemma runs_verify_process_image:
  "runs (verify_process_image env pid key) tr (Inr ()) \<longleftrightarrow>
     cfg_platform env = Windows \<and> (\<exists>h path img sf.
       tr = [Opened pid h, ImageName h path, FileRead path (Inr img),
             FileRead (signature_path_for path) sf, Closed h]
       \<and> image_signed env key img sf)"
  by (auto simp: verify_process_image_def open_process_def image_path_def runs_simps runs_bind
      runs_bind_ok_Inr runs_verify_signed_file split_sum_ex)

text \<open>The process handles a run obtained and the ones it closed.\<close>

fun opened :: "event list \<Rightarrow> nat list" where
  "opened [] = []"
| "opened (Opened pid h # tr) = h # opened tr"
| "opened (e # tr) = opened tr"

fun closed :: "event list \<Rightarrow> nat list" where
  "closed [] = []"
| "closed (Closed h # tr) = h # closed tr"
| "closed (e # tr) = closed tr"

lemma handles_append [simp]:
  "opened (tr @ tr') = opened tr @ opened tr'" "closed (tr @ tr') = closed tr @ closed tr'"
  by (induction tr rule: opened.induct; simp) (induction tr rule: closed.induct; simp)

definition no_handles :: "event list \<Rightarrow> bool" where
  "no_handles tr \<longleftrightarrow> opened tr = [] \<and> closed tr = []"

definition handles_closed :: "event list \<Rightarrow> bool" where
  "handles_closed tr \<longleftrightarrow> closed tr = opened tr"

interpretation quiet: trace_invariant no_handles
  by unfold_locales (simp_all add: no_handles_def)

interpretation balanced: trace_invariant handles_closed
  by unfold_locales (simp_all add: handles_closed_def)

lemma open_process_closes:
  assumes "\<And>h. keeps no_handles (body h)"
  shows "keeps handles_closed (open_process pid body)"
proof (rule keepsI)
  fix tr a assume "runs (open_process pid body) tr a"
  then have "tr = [OpenFailed pid]
      \<or> (\<exists>h tr1. tr = Opened pid h # tr1 @ [Closed h] \<and> runs (body h) tr1 a)"
    by (auto simp: open_process_def runs_simps runs_bind split_sum_ex)
  then show "handles_closed tr"
    using keepsD [OF assms] by (auto simp: handles_closed_def no_handles_def)
qed

lemma quiet_verify_signed_file: "keeps no_handles (verify_signed_file env path key)"
  unfolding verify_signed_file_def read_signature_def
  by (auto intro!: quiet.keeps_ret quiet.keeps_read_file quiet.keeps_bind_ok simp: no_handles_def
      split: sum.split option.split)

lemma quiet_handle_calls: "keeps no_handles (creation_time h)" "keeps no_handles (image_path h)"
  by (rule keepsI; auto simp: creation_time_def image_path_def runs_simps no_handles_def split_sum_ex)+

lemma process_calls_close:
  "keeps handles_closed (process_creation_time env pid)"
  "keeps handles_closed (verify_process_image env pid key)"
  unfolding process_creation_time_def verify_process_image_def
  by (auto intro!: balanced.keeps_ret open_process_closes quiet.keeps_bind_ok quiet_handle_calls quiet_verify_signed_file)

lemma runs_verify_signed_process:
  "runs (verify_signed_process env pid key) tr (Inr ()) \<longleftrightarrow>
     cfg_platform env = Windows \<and> (\<exists>h1 h2 h3 created path img sf.
       tr = [Opened pid h1, Times h1 created, Closed h1,
             Opened pid h2, ImageName h2 path, FileRead path (Inr img),
             FileRead (path @ ''.sig'') sf, Closed h2,
             Opened pid h3, Times h3 created, Closed h3]
       \<and> image_signed env key img sf)"
  by (auto simp: verify_signed_process_def runs_bind_ok_Inr runs_process_creation_time
      runs_verify_process_image join_halves_eq signature_path_for_def split: if_splits) fastforce+

text \<open>A trace invariant that the calls to the operating system respect holds of the attestation.\<close>

fun os_event :: "event \<Rightarrow> bool" where
  "os_event (Wrote bs) = False"
| "os_event (WriteFailed bs) = False"
| "os_event (Got bs) = False"
| "os_event ReadFailed = False"
| "os_event Elapsed = False"
| "os_event e = True"

context trace_invariant
begin

lemma keeps_open_process:
  assumes "\<And>e. os_event e \<Longrightarrow> P [e]" and "\<And>h. keeps P (body h)"
  shows "keeps P (open_process pid body)"
proof (rule keepsI)
  fix tr a assume "runs (open_process pid body) tr a"
  then have "tr = [OpenFailed pid]
      \<or> (\<exists>h tr1. tr = [Opened pid h] @ tr1 @ [Closed h] \<and> runs (body h) tr1 a)"
    by (auto simp: open_process_def runs_simps runs_bind split_sum_ex)
  then show "P tr"
    using keepsD [OF assms(2)] assms(1) join_traces by (elim disjE exE conjE) (simp, metis os_event.simps)
qed

lemma keeps_attestation:
  assumes os: "\<And>e. os_event e \<Longrightarrow> P [e]"
  shows "keeps P (verify_signed_process env pid key)"
proof -
  have "keeps P (verify_signed_file env path key)" for path
    unfolding verify_signed_file_def read_signature_def
    by (auto intro!: keeps_ret keeps_read_file keeps_bind_ok os split: sum.split option.split)
  moreover have "keeps P (creation_time h)" "keeps P (image_path h)" for h
    by (rule keepsI; auto simp: creation_time_def image_path_def runs_simps split_sum_ex intro!: os)+
  ultimately show ?thesis
    unfolding verify_signed_process_def process_creation_time_def verify_process_image_def
    by (auto intro!: keeps_bind_ok keeps_ret keeps_open_process os)
qed

end

section \<open>Properties\<close>

text \<open>C31: A process is attested exactly when, on Windows, its creation time is the same before and
  after its image was verified, so the pid was not reused in between, and the image file
  carries a signature valid under the configured key; a missing signature file passes in
  debug builds only, an unreadable, corrupt or wrong one never does.\<close>

theorem signed_process_attested:
  "runs (verify_signed_process env pid key) tr (Inr ()) \<longleftrightarrow>
     cfg_platform env = Windows \<and> (\<exists>h1 h2 h3 created path img sf.
       tr = [Opened pid h1, Times h1 created, Closed h1,
             Opened pid h2, ImageName h2 path, FileRead path (Inr img),
             FileRead (path @ ''.sig'') sf, Closed h2,
             Opened pid h3, Times h3 created, Closed h3]
       \<and> image_signed env key img sf)"
  by (rule runs_verify_signed_process)

text \<open>C32: The attestation leaks no process handle: on every path, failures and refusals included,
  the handles it opened are closed, in the order they were opened.\<close>

theorem attestation_closes_handles:
  assumes "runs (verify_signed_process env pid key) tr r"
  shows "closed tr = opened tr"
proof -
  have "keeps handles_closed (verify_signed_process env pid key)"
    unfolding verify_signed_process_def
    by (auto intro!: balanced.keeps_ret balanced.keeps_bind_ok process_calls_close)
  then show ?thesis using assms by (auto dest: keepsD simp: handles_closed_def)
qed

theorem attestation_closes_handles_witness:
  "closed [Opened 7 1, TimesFailed 1, Closed 1] = opened [Opened 7 1, TimesFailed 1, Closed 1]"
proof -
  define env :: "(nat, nat) attest_env" where
    "env = \<lparr>cfg_platform = Windows, cfg_debug_assertions = False, io_text = (\<lambda>_. []),
            base64_decode = (\<lambda>_. None), key_from_bytes = (\<lambda>_. None),
            signature_from_slice = (\<lambda>_. None), verify_signature = (\<lambda>_ _ _. Inl [])\<rparr>"
  have "runs (verify_signed_process env 7 []) [Opened 7 1, TimesFailed 1, Closed 1]
      (Inl (unverified [''failed to query process times'']))"
    by (auto simp: verify_signed_process_def env_def runs_bind_ok_Inl process_creation_time_def
        open_process_def creation_time_def runs_simps runs_bind split_sum_ex)
  then show ?thesis by (rule attestation_closes_handles)
qed

end
