(* ===== verification/Vm_Lookup.thy ===== *)
theory Vm_Lookup
  imports Signed_Process "HOL-Library.Multiset"
begin

text \<open>
  \<open>src/src/net/vsock/utils.rs\<close>: finding the virtual machine to talk to on Windows, from the Host
  Compute Service or, without the right to ask it, from the registry. The calls into
  \<open>vmcompute.dll\<close>, the registry, \<open>serde_json\<close> and the text form of \<open>Uuid\<close> are parameters of
  \<open>vm_env\<close>. What the enumeration acquires and releases is recorded as a list of events.
\<close>

section \<open>Identifiers\<close>

record guid =
  data1 :: u32
  data2 :: u16
  data3 :: u16
  data4 :: bytes

text \<open>
  \<open>Uuid::as_fields\<close>, \<open>GUID::to_u128\<close> and \<open>GUID::from_u128\<close>; \<open>GUID::from_values\<close> is the record
  constructor.
\<close>

record guid_ops =
  as_fields :: "uuid \<Rightarrow> u32 \<times> u16 \<times> u16 \<times> bytes"
  to_u128 :: "guid \<Rightarrow> uuid"
  from_u128 :: "uuid \<Rightarrow> guid"

definition uuid_to_guid :: "guid_ops \<Rightarrow> uuid \<Rightarrow> guid" where
  "uuid_to_guid ops u =
     (case as_fields ops u of (d1, d2, d3, d4) \<Rightarrow> \<lparr>data1 = d1, data2 = d2, data3 = d3, data4 = d4\<rparr>)"

definition guid_to_uuid :: "guid_ops \<Rightarrow> guid \<Rightarrow> uuid" where
  "guid_to_uuid ops g = to_u128 ops g"

text \<open>Both types are the same 128 bits, the most significant field first.\<close>

locale guid_layout =
  fixes ops :: guid_ops
  assumes same_bits: "as_fields ops u = (d1, d2, d3, d4)
      \<Longrightarrow> to_u128 ops \<lparr>data1 = d1, data2 = d2, data3 = d3, data4 = d4\<rparr> = u"
    and from_to: "to_u128 ops (from_u128 ops u) = u"
    and zeroed: "to_u128 ops \<lparr>data1 = 0, data2 = 0, data3 = 0, data4 = replicate 8 0\<rparr> = 0"
begin

lemma from_u128_inject: "from_u128 ops u = from_u128 ops v \<longleftrightarrow> u = v"
  using from_to by metis

lemma guid_roundtrip: "guid_to_uuid ops (uuid_to_guid ops u) = u"
  using same_bits by (auto simp: guid_to_uuid_def uuid_to_guid_def split: prod.split)

end

definition bit_fields :: "uuid \<Rightarrow> u32 \<times> u16 \<times> u16 \<times> bytes" where
  "bit_fields u =
     (ucast (drop_bit 96 u), ucast (drop_bit 80 u), ucast (drop_bit 64 u), rev (to_le 8 (ucast u :: u64)))"

definition bit_join :: "guid \<Rightarrow> uuid" where
  "bit_join g =
     push_bit 96 (ucast (data1 g)) OR push_bit 80 (ucast (data2 g))
     OR push_bit 64 (ucast (data3 g)) OR ucast (from_le (rev (data4 g)) :: u64)"

definition bit_guid_ops :: guid_ops where
  "bit_guid_ops =
     \<lparr>as_fields = bit_fields, to_u128 = bit_join,
      from_u128 = (\<lambda>u. case bit_fields u of (d1, d2, d3, d4) \<Rightarrow> \<lparr>data1 = d1, data2 = d2, data3 = d3, data4 = d4\<rparr>)\<rparr>"

lemma bit_join_fields:
  assumes "bit_fields u = (d1, d2, d3, d4)"
  shows "bit_join \<lparr>data1 = d1, data2 = d2, data3 = d3, data4 = d4\<rparr> = u"
proof -
  have d: "d1 = ucast (drop_bit 96 u)" "d2 = ucast (drop_bit 80 u)" "d3 = ucast (drop_bit 64 u)"
      "from_le (rev d4) = (ucast u :: u64)"
    using assms by (auto simp: bit_fields_def from_le_to_le)
  show ?thesis
    unfolding bit_join_def guid.simps d
  proof (rule bit_word_eqI)
    fix n :: nat
    assume "n < LENGTH(128)"
    then show "bit (push_bit 96 (ucast (ucast (drop_bit 96 u) :: u32)) OR push_bit 80 (ucast (ucast (drop_bit 80 u) :: u16))
        OR push_bit 64 (ucast (ucast (drop_bit 64 u) :: u16)) OR ucast (ucast u :: u64) :: uuid) n = bit u n"
      by (cases "96 \<le> n"; cases "80 \<le> n"; cases "64 \<le> n") (auto simp: bit_simps)
  qed
qed

lemma bit_join_zero: "bit_join \<lparr>data1 = 0, data2 = 0, data3 = 0, data4 = replicate 8 0\<rparr> = 0"
  by (rule bit_join_fields) code_simp

interpretation bit_guids: guid_layout bit_guid_ops
  by unfold_locales (simp_all add: bit_guid_ops_def bit_join_fields bit_join_zero split: prod.split)

section \<open>Compute systems\<close>

record compute_system =
  cs_id :: string
  cs_owner :: string
  cs_runtime_id :: string

record vm_env =
  load_library :: "io_error + unit"
  get_proc_address :: bool
  error_after_free :: io_error
  hcs_enumerate :: "string \<Rightarrow> u32 \<times> (unit + bytes) option"
  from_raw_os_error :: "u32 \<Rightarrow> io_error"
  from_json :: "bytes \<Rightarrow> compute_system list option"
  parse_uuid :: "string \<Rightarrow> uuid option"
  registry_keys :: "io_error + (io_error + string) list"
  registry_open :: "string \<Rightarrow> io_error + unit"
  compute_system_type :: "string \<Rightarrow> u32 option"
  guids :: guid_ops

definition vm_id :: "vm_env \<Rightarrow> compute_system \<Rightarrow> uuid option" where
  "vm_id env vm =
     (case parse_uuid env (cs_runtime_id vm) of Some u \<Rightarrow> Some u | None \<Rightarrow> parse_uuid env (cs_id vm))"

fun find_map :: "('a \<Rightarrow> 'b option) \<Rightarrow> 'a list \<Rightarrow> 'b option" where
  "find_map f [] = None"
| "find_map f (x # xs) = (case f x of Some y \<Rightarrow> Some y | None \<Rightarrow> find_map f xs)"

definition best_vm :: "vm_env \<Rightarrow> compute_system list \<Rightarrow> uuid option" where
  "best_vm env vms = find_map (vm_id env) (filter (\<lambda>vm. cs_owner vm = ''WSL'') vms @ vms)"

definition wsl_vm :: "vm_env \<Rightarrow> compute_system list \<Rightarrow> uuid option" where
  "wsl_vm env vms = find_map (vm_id env) (filter (\<lambda>vm. cs_owner vm = ''WSL'') vms)"

definition parse_compute_systems :: "vm_env \<Rightarrow> bytes \<Rightarrow> io_error + compute_system list" where
  "parse_compute_systems env json =
     (if trim json = [] then Inr []
      else (case from_json env json of None \<Rightarrow> Inl io_error.InvalidData | Some vms \<Rightarrow> Inr vms))"

text \<open>
  The enumeration with what it holds: the library, and the two strings the call allocates.
  \<open>hcs_enumerate\<close> returns the code and the listing: a null pointer, text that is not valid
  UTF-16 (\<open>Inl\<close>) or its UTF-8 form; releasing a result text that is null does nothing. A query
  with a NUL has no wide form.
\<close>

datatype resource = Library | Listing | ResultText

datatype hcs_event = Acquire resource | Release resource

definition enumerate_compute_systems :: "vm_env \<Rightarrow> string
    \<Rightarrow> (io_error + compute_system list) \<times> hcs_event list" where
  "enumerate_compute_systems env query =
     (case load_library env of
        Inl e \<Rightarrow> (Inl e, [])
      | Inr _ \<Rightarrow>
          if \<not> get_proc_address env then (Inl (error_after_free env), [Acquire Library, Release Library])
          else if CHR 0x00 \<in> set query then (Inl io_error.InvalidInput, [Acquire Library])
          else
            (case hcs_enumerate env query of
               (hr, systems) \<Rightarrow>
                 (case systems of
                    Some (Inl _) \<Rightarrow> (Inl io_error.InvalidInput, [Acquire Library, Acquire Listing, Acquire ResultText])
                  | _ \<Rightarrow>
                      let held = (case systems of None \<Rightarrow> [] | Some _ \<Rightarrow> [Acquire Listing, Release Listing]);
                          json = (case systems of Some (Inr bs) \<Rightarrow> bs | _ \<Rightarrow> []);
                          events = [Acquire Library, Acquire ResultText] @ held @ [Release ResultText, Release Library]
                      in if hr \<noteq> 0 then
                           (Inl (if hr = 0x8037011B then io_error.PermissionDenied else from_raw_os_error env hr), events)
                         else (parse_compute_systems env json, events))))"

definition hcs_listing :: "vm_env \<Rightarrow> io_error + compute_system list" where
  "hcs_listing env = fst (enumerate_compute_systems env ''{}'')"

definition get_wsl_vmid_by_hcs :: "vm_env \<Rightarrow> io_error + uuid option" where
  "get_wsl_vmid_by_hcs env = map_sum id (wsl_vm env) (hcs_listing env)"

section \<open>The registry\<close>

datatype wsl_lookup_error = Ambiguous nat | LookupIo io_error

text \<open>\<open>io::Error::other\<close> is a kind of its own, here with number 0.\<close>

fun lookup_io_error :: "wsl_lookup_error \<Rightarrow> io_error" where
  "lookup_io_error (Ambiguous n) = OtherIo 0"
| "lookup_io_error (LookupIo e) = e"

fun registry_loop :: "vm_env \<Rightarrow> uuid list \<Rightarrow> (io_error + string) list \<Rightarrow> io_error + uuid list" where
  "registry_loop env vms [] = Inr vms"
| "registry_loop env vms (Inl e # ks) = Inl e"
| "registry_loop env vms (Inr k # ks) =
     (case registry_open env k of
        Inl _ \<Rightarrow> registry_loop env vms ks
      | Inr _ \<Rightarrow>
          if compute_system_type env k = Some 2 then
            (case parse_uuid env k of
               Some u \<Rightarrow> registry_loop env (vms @ [u]) ks
             | None \<Rightarrow> registry_loop env vms ks)
          else registry_loop env vms ks)"

definition virtual_machines_in_registry :: "vm_env \<Rightarrow> io_error + uuid list" where
  "virtual_machines_in_registry env =
     (case registry_keys env of
        Inl io_error.NotFound \<Rightarrow> Inr []
      | Inl e \<Rightarrow> Inl e
      | Inr ks \<Rightarrow> registry_loop env [] ks)"

fun the_only_vm :: "uuid list \<Rightarrow> wsl_lookup_error + uuid option" where
  "the_only_vm [] = Inr None"
| "the_only_vm [only] = Inr (Some only)"
| "the_only_vm several = Inl (Ambiguous (length several))"

definition wsl_vmid_by_reg :: "vm_env \<Rightarrow> wsl_lookup_error + uuid option" where
  "wsl_vmid_by_reg env = bindr (map_sum LookupIo id (virtual_machines_in_registry env)) the_only_vm"

definition get_wsl_vmid_by_reg :: "vm_env \<Rightarrow> io_error + uuid option" where
  "get_wsl_vmid_by_reg env = map_sum lookup_io_error id (wsl_vmid_by_reg env)"

definition wsl_vmid :: "vm_env \<Rightarrow> wsl_lookup_error + uuid option" where
  "wsl_vmid env =
     (case get_wsl_vmid_by_hcs env of
        Inr v \<Rightarrow> Inr v
      | Inl io_error.PermissionDenied \<Rightarrow> wsl_vmid_by_reg env
      | Inl e \<Rightarrow> Inl (LookupIo e))"

definition get_wsl_vmid :: "vm_env \<Rightarrow> io_error + uuid option" where
  "get_wsl_vmid env = map_sum lookup_io_error id (wsl_vmid env)"

definition get_best_vmid :: "vm_env \<Rightarrow> io_error + guid" where
  "get_best_vmid env =
     (case hcs_listing env of
        Inl io_error.PermissionDenied \<Rightarrow>
          map_sum id (uuid_to_guid (guids env))
            (bindr (get_wsl_vmid_by_reg env) (\<lambda>opt. case opt of None \<Rightarrow> Inl io_error.NotFound | Some u \<Rightarrow> Inr u))
      | Inl e \<Rightarrow> Inl e
      | Inr vms \<Rightarrow>
          (case best_vm env vms of
             Some u \<Rightarrow> Inr (uuid_to_guid (guids env) u)
           | None \<Rightarrow> Inl io_error.NotFound))"

section \<open>Lemmas\<close>

lemma find_map_SomeD: "find_map f xs = Some y \<Longrightarrow> \<exists>x \<in> set xs. f x = Some y"
  by (induction xs) (auto split: option.splits)

lemma find_map_append: "find_map f (xs @ ys) = (case find_map f xs of Some y \<Rightarrow> Some y | None \<Rightarrow> find_map f ys)"
  by (induction xs) (auto split: option.splits)

text \<open>The keys of the registry that name a virtual machine.\<close>

definition vm_key :: "vm_env \<Rightarrow> string \<Rightarrow> uuid option" where
  "vm_key env k =
     (if registry_open env k = Inr () \<and> compute_system_type env k = Some 2 then parse_uuid env k else None)"

lemma registry_loop_spec:
  "registry_loop env vms ks = Inr vms' \<Longrightarrow>
     \<exists>names. ks = map Inr names \<and> vms' = vms @ List.map_filter (vm_key env) names"
proof (induction env vms ks rule: registry_loop.induct)
  case (3 env vms k ks)
  obtain names where "ks = map Inr names"
    "vms' = vms @ (case vm_key env k of Some u \<Rightarrow> [u] | None \<Rightarrow> []) @ List.map_filter (vm_key env) names"
    using 3 by (fastforce simp: vm_key_def split: sum.splits option.splits if_splits)
  then show ?case
    by (intro exI [of _ "k # names"]) (simp add: List.map_filter_simps split: option.split)
qed (auto simp: List.map_filter_simps)

lemma the_only_vm_Some: "the_only_vm vms = Inr (Some u) \<Longrightarrow> vms = [u]"
  by (induction vms rule: the_only_vm.induct) auto

lemma wsl_vmid_by_reg_Some:
  assumes "wsl_vmid_by_reg env = Inr (Some u)"
  shows "\<exists>names. registry_keys env = Inr (map Inr names) \<and> List.map_filter (vm_key env) names = [u]"
proof -
  obtain vms where vms: "virtual_machines_in_registry env = Inr vms" "the_only_vm vms = Inr (Some u)"
    using assms by (auto simp: wsl_vmid_by_reg_def bindr_eq_Inr_iff map_sum_def split: sum.splits)
  then have "vms = [u]" using the_only_vm_Some by blast
  then show ?thesis
    using vms(1) registry_loop_spec [of env "[]" _ vms]
    by (fastforce simp: virtual_machines_in_registry_def split: sum.splits io_error.splits)
qed

definition acquired :: "hcs_event list \<Rightarrow> resource list" where
  "acquired es = List.map_filter (\<lambda>e. case e of Acquire r \<Rightarrow> Some r | Release r \<Rightarrow> None) es"

definition released :: "hcs_event list \<Rightarrow> resource list" where
  "released es = List.map_filter (\<lambda>e. case e of Release r \<Rightarrow> Some r | Acquire r \<Rightarrow> None) es"

text \<open>A host where the service answers with one machine of another owner and one of WSL's.\<close>

definition sample_vms :: "io_error + compute_system list \<Rightarrow> vm_env" where
  "sample_vms listing =
     \<lparr>load_library = Inr (), get_proc_address = True, error_after_free = OtherIo 0,
      hcs_enumerate = (\<lambda>q. (case listing of Inl _ \<Rightarrow> 0x8037011B | Inr _ \<Rightarrow> 0, Some (Inr [91]))),
      from_raw_os_error = (\<lambda>n. OtherIo (unat n)),
      from_json = (\<lambda>bs. case listing of Inl _ \<Rightarrow> None | Inr vms \<Rightarrow> Some vms),
      parse_uuid = (\<lambda>s. if s = ''1'' then Some 1 else if s = ''2'' then Some 2 else None),
      registry_keys = Inr [Inr ''1'', Inr ''x''], registry_open = (\<lambda>k. Inr ()),
      compute_system_type = (\<lambda>k. Some 2), guids = bit_guid_ops\<rparr>"

definition sample_listing :: "compute_system list" where
  "sample_listing = [\<lparr>cs_id = ''x'', cs_owner = ''y'', cs_runtime_id = ''1''\<rparr>,
                     \<lparr>cs_id = ''2'', cs_owner = ''WSL'', cs_runtime_id = []\<rparr>]"

text \<open>The deprecated lookup prefers WSL and falls back to the first machine with an identifier.\<close>

lemma best_vm_eq: "best_vm env vms = (case wsl_vm env vms of Some u \<Rightarrow> Some u | None \<Rightarrow> find_map (vm_id env) vms)"
  by (simp add: best_vm_def wsl_vm_def find_map_append)

section \<open>Properties\<close>

text \<open>C37: The WSL lookup never settles for another machine. A machine it returns is one the Host
  Compute Service lists with the owner WSL, or, when the service denied the question, the only
  key of the registry that names a running virtual machine.\<close>

theorem wsl_lookup_finds_wsl:
  assumes "wsl_vmid env = Inr (Some u)"
  shows "(\<exists>vms vm. hcs_listing env = Inr vms \<and> vm \<in> set vms \<and> cs_owner vm = ''WSL'' \<and> vm_id env vm = Some u)
    \<or> (hcs_listing env = Inl io_error.PermissionDenied
       \<and> (\<exists>names. registry_keys env = Inr (map Inr names) \<and> List.map_filter (vm_key env) names = [u]))"
proof (cases "hcs_listing env")
  case (Inr vms)
  then have "wsl_vm env vms = Some u"
    using assms by (simp add: wsl_vmid_def get_wsl_vmid_by_hcs_def)
  then show ?thesis
    using Inr by (auto simp: wsl_vm_def dest!: find_map_SomeD)
next
  case (Inl e)
  then have "e = io_error.PermissionDenied" "wsl_vmid_by_reg env = Inr (Some u)"
    using assms by (auto simp: wsl_vmid_def get_wsl_vmid_by_hcs_def split: io_error.splits)
  then show ?thesis using Inl wsl_vmid_by_reg_Some by blast
qed

theorem wsl_lookup_finds_wsl_witness:
  "(\<exists>vms vm. hcs_listing (sample_vms (Inr sample_listing)) = Inr vms \<and> vm \<in> set vms \<and> cs_owner vm = ''WSL''
      \<and> vm_id (sample_vms (Inr sample_listing)) vm = Some 2)
   \<and> List.map_filter (vm_key (sample_vms (Inl io_error.PermissionDenied))) [''1'', ''x''] = [1]"
proof
  have "wsl_vmid (sample_vms (Inr sample_listing)) = Inr (Some 2)"
    "hcs_listing (sample_vms (Inr sample_listing)) \<noteq> Inl io_error.PermissionDenied" by code_simp+
  with wsl_lookup_finds_wsl [of "sample_vms (Inr sample_listing)" 2]
  show "\<exists>vms vm. hcs_listing (sample_vms (Inr sample_listing)) = Inr vms \<and> vm \<in> set vms \<and> cs_owner vm = ''WSL''
      \<and> vm_id (sample_vms (Inr sample_listing)) vm = Some 2" by blast
  have "wsl_vmid (sample_vms (Inl io_error.PermissionDenied)) = Inr (Some 1)"
    "hcs_listing (sample_vms (Inl io_error.PermissionDenied)) = Inl io_error.PermissionDenied" by code_simp+
  moreover have "registry_keys (sample_vms (Inl io_error.PermissionDenied)) = Inr (map Inr [''1'', ''x''])"
    by (simp add: sample_vms_def)
  ultimately show "List.map_filter (vm_key (sample_vms (Inl io_error.PermissionDenied))) [''1'', ''x''] = [1]"
    using wsl_lookup_finds_wsl [of "sample_vms (Inl io_error.PermissionDenied)" 1]
    by (auto simp: inj_map_eq_map inj_def)
qed

text \<open>C38: The enumeration releases what it acquired, the library and both strings of the call, on
  every path but one: when the listing is not valid UTF-16 it returns with all three held.\<close>

theorem enumeration_releases:
  "mset (acquired (snd (enumerate_compute_systems env ''{}''))) = mset (released (snd (enumerate_compute_systems env ''{}'')))
   \<longleftrightarrow> \<not> (load_library env = Inr () \<and> get_proc_address env \<and> (\<exists>hr. hcs_enumerate env ''{}'' = (hr, Some (Inl ()))))"
  by (auto simp: enumerate_compute_systems_def acquired_def released_def List.map_filter_simps Let_def
      split: sum.splits option.splits prod.splits)

end
