(* ===== verification/Vsock.thy ===== *)
theory Vsock
  imports Vm_Lookup
begin

text \<open>
  \<open>src/src/net/vsock/\<close>: the sockets between a host and its virtual machines, \<open>AF_VSOCK\<close> on Linux
  (\<open>linux.rs\<close>) and \<open>AF_HYPERV\<close> on Windows (\<open>windows.rs\<close>), and the dispatch between them
  (\<open>general.rs\<close>). Socket calls are parameters of \<open>vsock_os\<close>, over socket handles \<open>'s\<close> and
  peer addresses \<open>'a\<close>. The read, write and shutdown calls only forward to the socket.
\<close>

section \<open>Errors of the platform\<close>

datatype os_error = OsError (os_kind: io_error) (raw_os_error: "nat option")

definition EAFNOSUPPORT :: nat where "EAFNOSUPPORT = 97"
definition EADDRNOTAVAIL :: nat where "EADDRNOTAVAIL = 99"
definition ENODEV :: nat where "ENODEV = 19"

definition is_unavailable :: "platform \<Rightarrow> os_error \<Rightarrow> bool" where
  "is_unavailable plat err \<longleftrightarrow>
     os_kind err = io_error.Unsupported
     \<or> plat = Linux \<and> (case raw_os_error err of
                         Some code \<Rightarrow> code \<in> {EAFNOSUPPORT, EADDRNOTAVAIL, ENODEV}
                       | None \<Rightarrow> False)"

section \<open>Addresses\<close>

definition HV_GUID_CHILDREN :: "guid_ops \<Rightarrow> guid" where
  "HV_GUID_CHILDREN ops = from_u128 ops 0x90db8b890d354f798ce949ea0ac8b7cd"
definition HV_GUID_LOOPBACK :: "guid_ops \<Rightarrow> guid" where
  "HV_GUID_LOOPBACK ops = from_u128 ops 0xe0e16197dd564a1091955ee7a155a838"
definition HV_GUID_PARENT :: "guid_ops \<Rightarrow> guid" where
  "HV_GUID_PARENT ops = from_u128 ops 0xa42e7cdad03f480c9cc2a4de20abb878"
definition HV_GUID_VSOCK_TEMPLATE :: "guid_ops \<Rightarrow> guid" where
  "HV_GUID_VSOCK_TEMPLATE ops = from_u128 ops 0x00000000facb11e6bd5864006a7986d3"
definition HV_GUID_ZERO :: guid where
  "HV_GUID_ZERO = \<lparr>data1 = 0, data2 = 0, data3 = 0, data4 = replicate 8 0\<rparr>"

definition VMADDR_CID_ANY :: u32 where "VMADDR_CID_ANY = 0xFFFFFFFF"
definition VMADDR_CID_LOCAL :: u32 where "VMADDR_CID_LOCAL = 1"

definition to_guid :: "guid_ops \<Rightarrow> u32 \<Rightarrow> guid" where
  "to_guid ops port = (HV_GUID_VSOCK_TEMPLATE ops)\<lparr>data1 := port\<rparr>"

datatype v_address = VsockAddr u32 u32 | HvAddr guid guid

text \<open>The partition a target names, for a connection and for a listener.\<close>

fun hv_connect_vm :: "guid_ops \<Rightarrow> vsock_target \<Rightarrow> guid" where
  "hv_connect_vm ops (Cid cid) =
     (if cid = 0xFFFFFFFF then HV_GUID_CHILDREN ops
      else if cid = 0 \<or> cid = 1 then HV_GUID_LOOPBACK ops
      else if cid = 2 then HV_GUID_PARENT ops
      else HV_GUID_CHILDREN ops)"
| "hv_connect_vm ops (Guid u) = uuid_to_guid ops u"

fun hv_bind_vm :: "guid_ops \<Rightarrow> vsock_target \<Rightarrow> guid" where
  "hv_bind_vm ops (Cid _) = HV_GUID_CHILDREN ops"
| "hv_bind_vm ops (Guid u) = uuid_to_guid ops u"

section \<open>Sockets\<close>

record ('s, 'a) vsock_os =
  socket_new :: "io_error + 's"
  socket_bind :: "'s \<Rightarrow> v_address \<Rightarrow> io_error + unit"
  socket_listen :: "'s \<Rightarrow> io_error + unit"
  submit_connect :: "'s \<Rightarrow> v_address \<Rightarrow> io_error + unit"
  attach_socket :: "'s \<Rightarrow> io_error + 's"
  accept_into_addr :: "'s \<Rightarrow> io_error + 's \<times> 'a"
  update_accept_context :: "'s \<Rightarrow> io_error + unit"

definition vsock_stream_connect :: "('s, 'a) vsock_os \<Rightarrow> u32 \<Rightarrow> u32 \<Rightarrow> io_error + 's" where
  "vsock_stream_connect os cid port =
     bindr (socket_new os) (\<lambda>socket.
     bindr (submit_connect os socket (VsockAddr cid port)) (\<lambda>_.
       attach_socket os socket))"

definition bind_internal :: "('s, 'a) vsock_os \<Rightarrow> u32 \<Rightarrow> u32 \<Rightarrow> io_error + 's" where
  "bind_internal os cid port =
     bindr (socket_new os) (\<lambda>socket.
     bindr (socket_bind os socket (VsockAddr cid port)) (\<lambda>_.
     bindr (socket_listen os socket) (\<lambda>_.
       attach_socket os socket)))"

definition vsock_listener_bind :: "('s, 'a) vsock_os \<Rightarrow> u32 \<Rightarrow> io_error + 's" where
  "vsock_listener_bind os port = bind_internal os VMADDR_CID_ANY port"

definition vsock_listener_bind_loopback :: "('s, 'a) vsock_os \<Rightarrow> u32 \<Rightarrow> io_error + 's" where
  "vsock_listener_bind_loopback os port = bind_internal os VMADDR_CID_LOCAL port"

text \<open>
  The accept loop over the completions its operations get, one after another; \<open>None\<close> while it
  waits for the next.
\<close>

fun vsock_listener_accept :: "('s, 'a) vsock_os \<Rightarrow> (io_error + 's \<times> 'a) list \<Rightarrow> (io_error + 's \<times> 'a) option" where
  "vsock_listener_accept os [] = None"
| "vsock_listener_accept os (Inr (fd, addr) # later) =
     Some (map_sum id (\<lambda>stream. (stream, addr)) (attach_socket os fd))"
| "vsock_listener_accept os (Inl e # later) =
     (if e = Interrupted then vsock_listener_accept os later else Some (Inl e))"

definition hv_stream_connect :: "('s, 'a) vsock_os \<Rightarrow> guid \<Rightarrow> guid \<Rightarrow> io_error + 's" where
  "hv_stream_connect os vm_guid service_id =
     bindr (socket_new os) (\<lambda>socket.
     bindr (socket_bind os socket (HvAddr HV_GUID_ZERO HV_GUID_ZERO)) (\<lambda>_.
     bindr (attach_socket os socket) (\<lambda>attached.
     bindr (submit_connect os attached (HvAddr vm_guid service_id)) (\<lambda>_.
       Inr attached))))"

definition hv_listener_bind :: "guid_ops \<Rightarrow> ('s, 'a) vsock_os \<Rightarrow> vsock_target \<Rightarrow> u32 \<Rightarrow> io_error + 's" where
  "hv_listener_bind ops os target port =
     bindr (socket_new os) (\<lambda>socket.
     bindr (socket_bind os socket (HvAddr (hv_bind_vm ops target) (to_guid ops port))) (\<lambda>_.
     bindr (socket_listen os socket) (\<lambda>_.
       attach_socket os socket)))"

text \<open>One completion: \<open>Inr s\<close> is the socket made for the accept, once a peer is on it.\<close>

definition hv_listener_accept :: "('s, 'a) vsock_os \<Rightarrow> io_error + 's \<Rightarrow> io_error + 's \<times> 'a" where
  "hv_listener_accept os completion =
     bindr (socket_new os) (\<lambda>_.
     bindr completion (\<lambda>socket.
     bindr (accept_into_addr os socket) (\<lambda>(accepted, addr).
     bindr (update_accept_context os accepted) (\<lambda>_.
     bindr (attach_socket os accepted) (\<lambda>stream. Inr (stream, addr))))))"

section \<open>The dispatch\<close>

definition v_unsupported :: io_error where
  "v_unsupported = io_error.Unsupported"

fun v_connect :: "platform \<Rightarrow> guid_ops \<Rightarrow> ('s, 'a) vsock_os \<Rightarrow> vsock_target \<Rightarrow> u32 \<Rightarrow> io_error + 's" where
  "v_connect OtherUnix ops os target port = Inl v_unsupported"
| "v_connect Linux ops os (Cid cid) port = vsock_stream_connect os cid port"
| "v_connect Linux ops os (Guid u) port = Inl InvalidInput"
| "v_connect Windows ops os target port = hv_stream_connect os (hv_connect_vm ops target) (to_guid ops port)"

definition v_connect_loopback :: "platform \<Rightarrow> guid_ops \<Rightarrow> ('s, 'a) vsock_os \<Rightarrow> u32 \<Rightarrow> io_error + 's" where
  "v_connect_loopback plat ops os port =
     (if plat = Linux then v_connect plat ops os (Cid VMADDR_CID_LOCAL) port
      else v_connect plat ops os (Cid 1) port)"

fun v_bind :: "platform \<Rightarrow> guid_ops \<Rightarrow> ('s, 'a) vsock_os \<Rightarrow> vsock_target \<Rightarrow> u32 \<Rightarrow> io_error + 's" where
  "v_bind Windows ops os target port = hv_listener_bind ops os target port"
| "v_bind OtherUnix ops os target port = Inl v_unsupported"
| "v_bind Linux ops os target port = vsock_listener_bind os port"

fun v_bind_loopback :: "platform \<Rightarrow> guid_ops \<Rightarrow> ('s, 'a) vsock_os \<Rightarrow> u32 \<Rightarrow> io_error + 's" where
  "v_bind_loopback Windows ops os port = hv_listener_bind ops os (Cid 0) port"
| "v_bind_loopback OtherUnix ops os port = Inl v_unsupported"
| "v_bind_loopback Linux ops os port = vsock_listener_bind_loopback os port"

section \<open>Sockets from elsewhere, and accepting\<close>

definition vsock_stream_from_raw :: "('s, 'a) vsock_os \<Rightarrow> 's \<Rightarrow> io_error + 's" where
  "vsock_stream_from_raw os fd = attach_socket os fd"

definition hv_stream_from_owned :: "('s, 'a) vsock_os \<Rightarrow> 's \<Rightarrow> io_error + 's" where
  "hv_stream_from_owned os owned = attach_socket os owned"

definition hv_stream_from_raw :: "('s, 'a) vsock_os \<Rightarrow> 's \<Rightarrow> io_error + 's" where
  "hv_stream_from_raw os raw = hv_stream_from_owned os raw"

text \<open>The listener of a platform, with the completions its accept gets.\<close>

datatype ('s, 'a) v_listener =
    HvListener "io_error + 's"
  | VsockListener "(io_error + 's \<times> 'a) list"

fun v_accept :: "('s, 'a) vsock_os \<Rightarrow> ('s, 'a) v_listener \<Rightarrow> (io_error + 's \<times> 'a) option" where
  "v_accept os (HvListener completion) = Some (hv_listener_accept os completion)"
| "v_accept os (VsockListener completions) = vsock_listener_accept os completions"

section \<open>Lemmas\<close>

context guid_layout
begin

lemma from_u128_zero: "from_u128 ops u = HV_GUID_ZERO \<Longrightarrow> u = 0"
  using from_to [of u] zeroed by (simp add: HV_GUID_ZERO_def)

lemma vm_guids_differ:
  "HV_GUID_CHILDREN ops \<noteq> HV_GUID_LOOPBACK ops" "HV_GUID_CHILDREN ops \<noteq> HV_GUID_PARENT ops"
  "HV_GUID_LOOPBACK ops \<noteq> HV_GUID_ZERO" "HV_GUID_CHILDREN ops \<noteq> HV_GUID_ZERO"
  by (auto simp: HV_GUID_CHILDREN_def HV_GUID_LOOPBACK_def HV_GUID_PARENT_def from_u128_inject dest: from_u128_zero)

lemma bind_connect_agree:
  "hv_bind_vm ops target = hv_connect_vm ops target
     \<longleftrightarrow> (case target of Cid cid \<Rightarrow> cid \<notin> {0, 1, 2} | Guid u \<Rightarrow> True)"
  using vm_guids_differ by (cases target) auto

end

text \<open>Accepting on Linux retries interrupted waits and nothing else: its result is decided by the
  first completion that is not \<open>Interrupted\<close>, a failure as it is and a connection once attached,
  and it waits exactly as long as there is none.\<close>

lemma accept_retries_interrupts:
  "vsock_listener_accept os completions =
     (case dropWhile (\<lambda>c. c = Inl Interrupted) completions of
        [] \<Rightarrow> None
      | Inl e # _ \<Rightarrow> Some (Inl e)
      | Inr (fd, addr) # _ \<Rightarrow> Some (map_sum id (\<lambda>stream. (stream, addr)) (attach_socket os fd)))"
  by (induction os completions rule: vsock_listener_accept.induct) simp_all

text \<open>A host where exactly one address can be listened on and connected to.\<close>

definition sole_address :: "v_address \<Rightarrow> (unit, unit) vsock_os" where
  "sole_address a =
     \<lparr>socket_new = Inr (),
      socket_bind = (\<lambda>s b. if b = a \<or> b = HvAddr HV_GUID_ZERO HV_GUID_ZERO then Inr () else Inl AddrInUse),
      socket_listen = (\<lambda>s. Inr ()),
      submit_connect = (\<lambda>s b. if b = a then Inr () else Inl ConnectionRefused),
      attach_socket = (\<lambda>s. Inr s), accept_into_addr = (\<lambda>s. Inr (s, ())), update_accept_context = (\<lambda>s. Inr ())\<rparr>"

section \<open>Loopback\<close>

text \<open>A loopback listener and a loopback connection to the same port use one address on Linux
  and on no other platform: on Windows every context id a listener is given means the child
  partitions, while the connection goes to the loopback partition, and elsewhere both are refused
  as unsupported, which \<open>is_unavailable\<close> recognises. A Windows listener and a connection given the
  same target mean the same partition unless it is one of the context ids 0, 1 and 2.\<close>

lemma loopback_meets_on_linux:
  assumes "guid_layout ops"
  shows "((\<exists>a. v_bind_loopback plat ops (sole_address a) port = Inr ()
            \<and> v_connect_loopback plat ops (sole_address a) port = Inr ()) \<longleftrightarrow> plat = Linux)
    \<and> (plat = OtherUnix \<longrightarrow> (\<exists>e. v_bind_loopback plat ops os port = Inl e
            \<and> v_connect_loopback plat ops os port = Inl e \<and> is_unavailable plat (OsError e None)))
    \<and> (hv_bind_vm ops target = hv_connect_vm ops target
        \<longleftrightarrow> (case target of Cid cid \<Rightarrow> cid \<notin> {0, 1, 2} | Guid u \<Rightarrow> True))"
  using guid_layout.vm_guids_differ [OF assms] guid_layout.bind_connect_agree [OF assms, of target]
  by (cases plat) (auto simp: v_connect_loopback_def hv_listener_bind_def hv_stream_connect_def sole_address_def
      vsock_listener_bind_loopback_def bind_internal_def vsock_stream_connect_def is_unavailable_def v_unsupported_def)

end
