(* ===== verification/Listener.thy ===== *)
theory Listener
  imports Npipe Vsock
begin

text \<open>
  \<open>src/src/net/listener.rs\<close>: listening on one of the four transports. The file system a Unix
  socket lives in is a parameter: \<open>fs_ops\<close> are the calls the code makes on a state \<open>'f\<close> of it, and
  the locale \<open>socket_files\<close> says what they do to the nodes of the file system (on Unix). Each call
  is atomic, and other processes may act between binding and dropping a listener; the window
  between the calls of one bind is not modelled. \<open>'l\<close> are listening sockets, \<open>'s\<close> connected ones.
\<close>

section \<open>Files\<close>

record metadata =
  md_socket :: bool
  md_symlink :: bool
  md_attributes :: u32
  md_dev :: u64
  md_ino :: u64

record ('f, 'l) fs_ops =
  symlink_metadata :: "'f \<Rightarrow> string \<Rightarrow> io_error + metadata"
  unix_connect :: "'f \<Rightarrow> string \<Rightarrow> io_error + unit"
  remove_file :: "'f \<Rightarrow> string \<Rightarrow> (io_error + unit) \<times> 'f"
  unix_bind :: "'f \<Rightarrow> string \<Rightarrow> (io_error + 'l) \<times> 'f"

definition file_identity :: "platform \<Rightarrow> ('f, 'l) fs_ops \<Rightarrow> 'f \<Rightarrow> string \<Rightarrow> (u64 \<times> u64) option" where
  "file_identity plat ops f path =
     (if plat = Windows then None
      else (case symlink_metadata ops f path of Inl _ \<Rightarrow> None | Inr m \<Rightarrow> Some (md_dev m, md_ino m)))"

definition FILE_ATTRIBUTE_REPARSE_POINT :: u32 where "FILE_ATTRIBUTE_REPARSE_POINT = 0x400"

definition is_socket_file :: "platform \<Rightarrow> metadata \<Rightarrow> bool" where
  "is_socket_file plat m =
     (if plat = Windows then \<not> md_symlink m \<and> md_attributes m AND FILE_ATTRIBUTE_REPARSE_POINT \<noteq> 0
      else md_socket m)"

definition clear_stale_socket :: "platform \<Rightarrow> ('f, 'l) fs_ops \<Rightarrow> 'f \<Rightarrow> string \<Rightarrow> (io_error + unit) \<times> 'f" where
  "clear_stale_socket plat ops f path =
     (case symlink_metadata ops f path of
        Inl e \<Rightarrow> if e = io_error.NotFound then (Inr (), f) else (Inl e, f)
      | Inr metadata \<Rightarrow>
          if \<not> is_socket_file plat metadata then (Inl io_error.AlreadyExists, f)
          else
            (case unix_connect ops f path of
               Inr _ \<Rightarrow> (Inl AddrInUse, f)
             | Inl e \<Rightarrow> if e = ConnectionRefused then remove_file ops f path else (Inl e, f)))"

section \<open>Listeners\<close>

datatype ('l, 'h) listener =
    TcpListener 'l
  | UdsListener 'l string "(u64 \<times> u64) option"
  | NpipeListener "'h named_pipe_acceptor"
  | VsockListener 'l

type_synonym ('l, 'h) bound = "transport_error report + ('l, 'h) listener"

definition bind_tcp :: "('a \<Rightarrow> string) \<Rightarrow> ('a \<Rightarrow> io_error + 'l) \<Rightarrow> 'a \<Rightarrow> ('l, 'h) bound" where
  "bind_tcp addr_fmt tcp_bind addr =
     in_context Bind (''tcp '' @ addr_fmt addr) (map_sum id TcpListener (tcp_bind addr))"

definition bind_uds :: "platform \<Rightarrow> ('f, 'l) fs_ops \<Rightarrow> 'f \<Rightarrow> string \<Rightarrow> ('l, 'h) bound \<times> 'f" where
  "bind_uds plat ops f path =
     (case clear_stale_socket plat ops f path of
        (Inl e, f) \<Rightarrow> (in_context Bind (''uds '' @ path) (Inl e), f)
      | (Inr _, f) \<Rightarrow>
          (case unix_bind ops f path of
             (bound, f) \<Rightarrow>
               (in_context Bind (''uds '' @ path)
                  (map_sum id (\<lambda>l. UdsListener l path (file_identity plat ops f path)) bound), f)))"

definition bind_npipe :: "(server_options \<Rightarrow> string \<Rightarrow> io_error + 'h) \<Rightarrow> security_api \<Rightarrow> string \<Rightarrow> ('l, 'h) bound" where
  "bind_npipe create api name =
     in_context Bind (''npipe '' @ name) (map_sum id NpipeListener (npipe_bind create api name))"

definition bind_vsock :: "platform \<Rightarrow> guid_ops \<Rightarrow> ('l, 'a) vsock_os \<Rightarrow> vsock_target \<Rightarrow> u32 \<Rightarrow> ('l, 'h) bound" where
  "bind_vsock plat ops os target port =
     in_context Bind (''vsock port '' @ show_nat (unat port)) (map_sum id VsockListener (v_bind plat ops os target port))"

definition bind_vsock_loopback :: "platform \<Rightarrow> guid_ops \<Rightarrow> ('l, 'a) vsock_os \<Rightarrow> u32 \<Rightarrow> ('l, 'h) bound" where
  "bind_vsock_loopback plat ops os port =
     in_context Bind (''vsock loopback port '' @ show_nat (unat port))
       (map_sum id VsockListener (v_bind_loopback plat ops os port))"

fun listener_kind :: "('l, 'h) listener \<Rightarrow> string" where
  "listener_kind (TcpListener _) = ''tcp''"
| "listener_kind (UdsListener _ _ _) = ''uds''"
| "listener_kind (NpipeListener _) = ''npipe''"
| "listener_kind (VsockListener _) = ''vsock''"

text \<open>The accept calls of the four transports; a peer address, where there is one, is dropped.\<close>

record ('l, 'h, 's) accept_ops =
  tcp_accept :: "'l \<Rightarrow> io_error + 's"
  uds_accept :: "'l \<Rightarrow> io_error + 's"
  npipe_accept :: "'h named_pipe_acceptor \<Rightarrow> io_error + 's named_pipe_stream"
  vsock_accept :: "'l \<Rightarrow> io_error + 's"

text \<open>\<open>change_context\<close> with nothing attached to it yet.\<close>

definition recontext :: "'c \<Rightarrow> 'e + 'a \<Rightarrow> 'c report + 'a" where
  "recontext c r = map_sum (\<lambda>_. Report c []) id r"

fun listener_accept :: "('l, 'h, 's) accept_ops \<Rightarrow> ('l, 'h) listener \<Rightarrow> transport_error report + 's conn" where
  "listener_accept ops (TcpListener l) = recontext Accept (map_sum id Tcp (tcp_accept ops l))"
| "listener_accept ops (UdsListener l _ _) = recontext Accept (map_sum id Uds (uds_accept ops l))"
| "listener_accept ops (NpipeListener a) = recontext Accept (map_sum id Npipe (npipe_accept ops a))"
| "listener_accept ops (VsockListener l) = recontext Accept (map_sum id Vsock (vsock_accept ops l))"

fun drop_listener :: "platform \<Rightarrow> ('f, 'l) fs_ops \<Rightarrow> 'f \<Rightarrow> ('l, 'h) listener \<Rightarrow> 'f" where
  "drop_listener plat ops f (UdsListener _ path identity) =
     (if plat = Windows \<or> identity \<noteq> None \<and> file_identity plat ops f path = identity
      then snd (remove_file ops f path) else f)"
| "drop_listener plat ops f _ = f"

section \<open>What the calls do\<close>

record node =
  n_socket :: bool
  n_live :: bool
  n_id :: "u64 \<times> u64"

locale socket_files =
  fixes ops :: "('f, 'l) fs_ops" and nodes :: "'f \<Rightarrow> string \<Rightarrow> node option"
  assumes metadata_of: "symlink_metadata ops f p = Inr m
      \<Longrightarrow> \<exists>n. nodes f p = Some n \<and> md_socket m = n_socket n \<and> (md_dev m, md_ino m) = n_id n"
    and metadata_missing: "symlink_metadata ops f p = Inl io_error.NotFound \<Longrightarrow> nodes f p = None"
    and refused: "unix_connect ops f p = Inl ConnectionRefused \<Longrightarrow> nodes f p = Some n \<Longrightarrow> \<not> n_live n"
    and removed: "remove_file ops f p = (r, f')
      \<Longrightarrow> nodes f' = (case r of Inl _ \<Rightarrow> nodes f | Inr _ \<Rightarrow> (nodes f)(p := None))"
    and bound: "unix_bind ops f p = (Inr l, f')
      \<Longrightarrow> nodes f p = None \<and> (\<exists>n. nodes f' = (nodes f)(p \<mapsto> n) \<and> n_socket n \<and> n_live n)"
    and bind_fails: "unix_bind ops f p = (Inl e, f') \<Longrightarrow> nodes f' = nodes f"
begin

lemma clear_stale_spec:
  assumes "plat \<noteq> Windows" and "clear_stale_socket plat ops f p = (r, f')"
  shows "nodes f' = nodes f \<or> (\<exists>n. nodes f p = Some n \<and> n_socket n \<and> \<not> n_live n \<and> nodes f' = (nodes f)(p := None))"
    and "r = Inr () \<Longrightarrow> nodes f' p = None"
proof -
  show "nodes f' = nodes f \<or> (\<exists>n. nodes f p = Some n \<and> n_socket n \<and> \<not> n_live n \<and> nodes f' = (nodes f)(p := None))"
    using assms
    by (auto simp: clear_stale_socket_def is_socket_file_def split: sum.splits if_splits
        dest!: metadata_of removed dest: refused)
  show "nodes f' p = None" if "r = Inr ()"
    using assms that
    by (auto simp: clear_stale_socket_def split: sum.splits if_splits dest: metadata_missing dest!: removed)
qed

lemma bind_uds_spec:
  assumes "plat \<noteq> Windows" and run: "bind_uds plat ops f p = (r, f')"
  shows "(\<forall>q. q \<noteq> p \<longrightarrow> nodes f' q = nodes f q)
    \<and> (\<forall>n. nodes f p = Some n \<and> (n_live n \<or> \<not> n_socket n) \<longrightarrow> nodes f' = nodes f \<and> (\<exists>e. r = Inl e))
    \<and> (\<forall>l. r = Inr l \<longrightarrow> (\<exists>n sock. nodes f' p = Some n \<and> n_socket n \<and> n_live n
         \<and> l = UdsListener sock p (file_identity plat ops f' p)))"
proof -
  obtain cleared f1 where clear: "clear_stale_socket plat ops f p = (cleared, f1)" by fastforce
  note spec = clear_stale_spec [OF assms(1) clear]
  obtain made f2 where made: "unix_bind ops f1 p = (made, f2)" by fastforce
  show ?thesis
  proof (cases cleared)
    case (Inl e)
    then show ?thesis using run clear spec(1) by (auto simp: bind_uds_def)
  next
    case (Inr u)
    then have "nodes f1 p = None" using spec(2) by simp
    show ?thesis
    proof (cases made)
      case (Inl e)
      have "nodes f' = nodes f1" "\<exists>e. r = Inl e"
        using run clear made Inr Inl bind_fails [of f1 p e f2] by (auto simp: bind_uds_def)
      then show ?thesis using spec(1) by auto
    next
      case (Inr l)
      then obtain n where n: "nodes f2 = (nodes f1)(p \<mapsto> n)" "n_socket n" "n_live n"
        using bound made by blast
      moreover have "f' = f2" "r = Inr (UdsListener l p (file_identity plat ops f2 p))"
        using run clear made \<open>cleared = Inr u\<close> Inr by (auto simp: bind_uds_def)
      ultimately show ?thesis using spec(1) \<open>nodes f1 p = None\<close> by auto
    qed
  qed
qed

lemma file_identity_node:
  "file_identity plat ops f p = Some i \<Longrightarrow> \<exists>n. nodes f p = Some n \<and> n_id n = i"
  by (auto simp: file_identity_def dest!: metadata_of split: if_splits sum.splits)

lemma drop_spec:
  assumes "plat \<noteq> Windows"
  shows "nodes (drop_listener plat ops f (UdsListener sock p identity))
    = (if identity \<noteq> None \<and> file_identity plat ops f p = identity \<and> fst (remove_file ops f p) = Inr ()
       then (nodes f)(p := None) else nodes f)"
  using assms removed [of f p "fst (remove_file ops f p)" "snd (remove_file ops f p)"]
  by (auto split: sum.splits)

end

section \<open>A file system\<close>

record map_fs =
  fs_nodes :: "string \<Rightarrow> node option"
  next_ino :: u64

definition map_fs_ops :: "('z map_fs_scheme, nat) fs_ops" where
  "map_fs_ops =
     \<lparr>symlink_metadata = (\<lambda>f p. case fs_nodes f p of
         None \<Rightarrow> Inl io_error.NotFound
       | Some n \<Rightarrow> Inr \<lparr>md_socket = n_socket n, md_symlink = False, md_attributes = 0,
                        md_dev = fst (n_id n), md_ino = snd (n_id n)\<rparr>),
      unix_connect = (\<lambda>f p. case fs_nodes f p of
         None \<Rightarrow> Inl io_error.NotFound
       | Some n \<Rightarrow> if n_live n then Inr () else Inl ConnectionRefused),
      remove_file = (\<lambda>f p. if fs_nodes f p = None then (Inl io_error.NotFound, f)
                          else (Inr (), f\<lparr>fs_nodes := (fs_nodes f)(p := None)\<rparr>)),
      unix_bind = (\<lambda>f p. if fs_nodes f p \<noteq> None then (Inl AddrInUse, f)
                        else (Inr 0, f\<lparr>fs_nodes := (fs_nodes f)(p \<mapsto>
                                \<lparr>n_socket = True, n_live = True, n_id = (1, next_ino f)\<rparr>),
                              next_ino := next_ino f + 1\<rparr>))\<rparr>"

interpretation map_files: socket_files map_fs_ops fs_nodes
  by unfold_locales (auto simp: map_fs_ops_def split: option.splits if_splits)

text \<open>A live socket at \<open>''s''\<close>, and an empty file system.\<close>

definition sample_fs :: map_fs where
  "sample_fs = \<lparr>fs_nodes = [''s'' \<mapsto> \<lparr>n_socket = True, n_live = True, n_id = (1, 7)\<rparr>], next_ino = 8\<rparr>"

definition empty_fs :: map_fs where
  "empty_fs = \<lparr>fs_nodes = Map.empty, next_ino = 1\<rparr>"

section \<open>Properties\<close>

text \<open>C10: Binding a Unix socket never takes a path from anyone. It changes no other path; a live
  socket or anything but a socket at the path is left exactly as it is and the bind fails; and when
  it succeeds the path holds a live socket, whose identity the listener remembers.\<close>

theorem bind_uds_leaves_others_alone:
  assumes "socket_files ops nodes" and "plat \<noteq> Windows" and "bind_uds plat ops f p = (r, f')"
  shows "(\<forall>q. q \<noteq> p \<longrightarrow> nodes f' q = nodes f q)
    \<and> (\<forall>n. nodes f p = Some n \<and> (n_live n \<or> \<not> n_socket n) \<longrightarrow> nodes f' = nodes f \<and> (\<exists>e. r = Inl e))
    \<and> (\<forall>l. r = Inr l \<longrightarrow> (\<exists>n sock. nodes f' p = Some n \<and> n_socket n \<and> n_live n
         \<and> l = UdsListener sock p (file_identity plat ops f' p)))"
  using assms by (rule socket_files.bind_uds_spec)

theorem bind_uds_leaves_others_alone_witness:
  "\<exists>e f'. bind_uds Linux map_fs_ops sample_fs ''s'' = (Inl e :: (nat, nat) bound, f') \<and> fs_nodes f' = fs_nodes sample_fs"
proof -
  obtain r f' where run: "bind_uds Linux map_fs_ops sample_fs ''s'' = (r :: (nat, nat) bound, f')" by (rule prod.exhaust)
  have "fs_nodes sample_fs ''s'' = Some \<lparr>n_socket = True, n_live = True, n_id = (1, 7)\<rparr>" by (simp add: sample_fs_def)
  then have "fs_nodes f' = fs_nodes sample_fs" "\<exists>e. r = Inl e"
    using bind_uds_leaves_others_alone [OF map_files.socket_files_axioms _ run] by simp_all
  with run show ?thesis by blast
qed

text \<open>C35: Dropping a listener removes the socket file it made and no other. On Unix, whatever has
  happened to the file system since the bind, the drop removes the file at the listener's path
  exactly when that file still has the identity the bind recorded and the system lets it be removed,
  and changes nothing otherwise: a file put in its place stays. A drop right after the bind that can
  find and remove the file leaves every path as it was before the bind, the listener's own free.\<close>

theorem drop_removes_own_socket:
  assumes "socket_files ops nodes" and "plat \<noteq> Windows" and "bind_uds plat ops f p = (Inr l, f')"
  shows "nodes (drop_listener plat ops g l)
      = (if file_identity plat ops f' p \<noteq> None \<and> file_identity plat ops g p = file_identity plat ops f' p
            \<and> fst (remove_file ops g p) = Inr ()
         then (nodes g)(p := None) else nodes g)
    \<and> (\<forall>n. nodes g p = Some n \<and> file_identity plat ops f' p \<noteq> Some (n_id n) \<longrightarrow>
         nodes (drop_listener plat ops g l) = nodes g)
    \<and> (file_identity plat ops f' p \<noteq> None \<and> fst (remove_file ops f' p) = Inr () \<longrightarrow>
         nodes (drop_listener plat ops f' l) = (nodes f)(p := None))"
proof -
  note files = socket_files.bind_uds_spec [OF assms] socket_files.drop_spec [OF assms(1,2)]
    socket_files.file_identity_node [OF assms(1)]
  obtain sock where "l = UdsListener sock p (file_identity plat ops f' p)" using files(1) by auto
  moreover have "(nodes f')(p := None) = (nodes f)(p := None)" using files(1) by auto
  moreover have "file_identity plat ops g p \<noteq> file_identity plat ops f' p"
    if "file_identity plat ops f' p \<noteq> None" "nodes g p = Some n" "file_identity plat ops f' p \<noteq> Some (n_id n)" for n
    using that files(3) [of plat g p] by fastforce
  ultimately show ?thesis by (simp add: files(2) del: drop_listener.simps) blast
qed

theorem drop_removes_own_socket_witness:
  "\<exists>l f'. bind_uds Linux map_fs_ops empty_fs ''s'' = (Inr l :: (nat, nat) bound, f') \<and> fs_nodes f' ''s'' \<noteq> None
     \<and> fs_nodes (drop_listener Linux map_fs_ops f' l) = fs_nodes empty_fs
     \<and> fs_nodes (drop_listener Linux map_fs_ops sample_fs l) = fs_nodes sample_fs"
proof -
  define l :: "(nat, nat) listener" where "l = UdsListener 0 ''s'' (Some (1, 1))"
  obtain f' where run: "bind_uds Linux map_fs_ops empty_fs ''s'' = (Inr l, f')" "fs_nodes f' ''s'' \<noteq> None"
      "file_identity Linux map_fs_ops f' ''s'' = Some (1, 1)" "fst (remove_file map_fs_ops f' ''s'') = Inr ()"
    by (simp add: bind_uds_def clear_stale_socket_def map_fs_ops_def file_identity_def empty_fs_def l_def)
  have live: "fs_nodes sample_fs ''s'' = Some \<lparr>n_socket = True, n_live = True, n_id = (1, 7)\<rparr>" by (simp add: sample_fs_def)
  note dropped = drop_removes_own_socket [OF map_files.socket_files_axioms _ run(1), of sample_fs]
  have "fs_nodes (drop_listener Linux map_fs_ops sample_fs l) = fs_nodes sample_fs"
    using dropped [THEN conjunct2, THEN conjunct1] run(3) live by simp
  moreover have "fs_nodes (drop_listener Linux map_fs_ops f' l) = fs_nodes empty_fs"
    using dropped run(3,4) by (simp add: empty_fs_def)
  ultimately show ?thesis using run(1,2) by blast
qed

end
