(* ===== verification/Endpoint.thy ===== *)
theory Endpoint
  imports Listener
begin

text \<open>
  \<open>src/src/endpoint.rs\<close>: where a service is. The conventional endpoint of a service with the
  directory it lives in, the endpoints of virtual machines, listening and connecting, and the
  loop that connects to a service that may not be up yet. Addresses \<open>'a\<close>, the environment and
  the directories of the file system are parameters. Times are in nanoseconds.
\<close>

section \<open>Endpoints\<close>

datatype 'a endpoint =
    VsockEndpoint vsock_target u32
  | UdsEndpoint string
  | NpipeEndpoint string
  | TcpEndpoint 'a

definition is_name_char :: "char \<Rightarrow> bool" where
  "is_name_char c \<longleftrightarrow>
     (let n = of_char c :: nat in
      48 \<le> n \<and> n \<le> 57 \<or> 65 \<le> n \<and> n \<le> 90 \<or> 97 \<le> n \<and> n \<le> 122 \<or> c = CHR ''-'' \<or> c = CHR ''_'')"

text \<open>\<open>name_debug\<close> is \<open>{:?}\<close> of a string.\<close>

definition validate_name :: "(string \<Rightarrow> string) \<Rightarrow> string \<Rightarrow> endpoint_error report + unit" where
  "validate_name name_debug name =
     (if name \<noteq> [] \<and> length name \<le> 64 \<and> list_all is_name_char name then Inr ()
      else Inl (Report InvalidServiceName [Text (''name: '' @ name_debug name)]))"

section \<open>The runtime directory\<close>

record dir_metadata =
  dm_is_dir :: bool
  dm_uid :: u32
  dm_mode :: u32

record 'f dir_env =
  xdg_runtime_dir :: "string option"
  path_is_dir :: "'f \<Rightarrow> string \<Rightarrow> bool"
  getuid :: u32
  temp_dir :: string
  create_dir :: "'f \<Rightarrow> string \<Rightarrow> u32 \<Rightarrow> (io_error + unit) \<times> 'f"
  inspect_dir :: "'f \<Rightarrow> string \<Rightarrow> io_error + dir_metadata"
  create_dir_all :: "'f \<Rightarrow> string \<Rightarrow> (io_error + unit) \<times> 'f"
  io_error_text :: "io_error \<Rightarrow> string"
  str_debug :: "string \<Rightarrow> string"

text \<open>\<open>PathBuf::join\<close> with a relative path, and \<open>{:o}\<close>.\<close>

definition path_join :: "string \<Rightarrow> string \<Rightarrow> string" where
  "path_join base rel =
     (if rel \<noteq> [] \<and> hd rel = CHR ''/'' then rel
      else if base = [] \<or> last base = CHR ''/'' then base @ rel
      else base @ CHR ''/'' # rel)"

fun show_oct :: "nat \<Rightarrow> string" where
  "show_oct n = (if n < 8 then [digit n] else show_oct (n div 8) @ [digit (n mod 8)])"

definition refuse_dir :: "string \<Rightarrow> string \<Rightarrow> endpoint_error report + 'x" where
  "refuse_dir dir why = Inl (Report NoRuntimeDirectory [Text (dir @ '': '' @ why)])"

text \<open>The modes \<open>0o700\<close>, \<open>0o077\<close> and \<open>0o777\<close> are 448, 63 and 511.\<close>

definition inspect_private :: "'f dir_env \<Rightarrow> 'f \<Rightarrow> string \<Rightarrow> u32 \<Rightarrow> endpoint_error report + unit" where
  "inspect_private env f dir uid =
     (case inspect_dir env f dir of
        Inl e \<Rightarrow> refuse_dir dir (''cannot inspect: '' @ io_error_text env e)
      | Inr metadata \<Rightarrow>
          if \<not> dm_is_dir metadata then refuse_dir dir ''not a directory''
          else if dm_uid metadata \<noteq> uid then
            refuse_dir dir (''owned by uid '' @ show_nat (unat (dm_uid metadata)) @ '', not '' @ show_nat (unat uid))
          else if dm_mode metadata AND 63 \<noteq> 0 then
            refuse_dir dir (''mode '' @ show_oct (unat (dm_mode metadata AND 511)) @ '' lets others in'')
          else Inr ())"

definition private_dir :: "'f dir_env \<Rightarrow> 'f \<Rightarrow> string \<Rightarrow> u32 \<Rightarrow> (endpoint_error report + unit) \<times> 'f" where
  "private_dir env f dir uid =
     (case create_dir env f dir 448 of
        (Inl e, f) \<Rightarrow>
          (if e = io_error.AlreadyExists then inspect_private env f dir uid
           else refuse_dir dir (''cannot create: '' @ io_error_text env e), f)
      | (Inr _, f) \<Rightarrow> (inspect_private env f dir uid, f))"

definition runtime_fallback :: "'f dir_env \<Rightarrow> 'f \<Rightarrow> string \<Rightarrow> (endpoint_error report + string) \<times> 'f" where
  "runtime_fallback env f app =
     (let uid = getuid env;
          fallback = path_join (temp_dir env) (app @ CHR ''-'' # show_nat (unat uid))
      in case private_dir env f fallback uid of
           (Inl r, f) \<Rightarrow> (Inl r, f)
         | (Inr _, f) \<Rightarrow> (Inr fallback, f))"

definition runtime_base :: "'f dir_env \<Rightarrow> 'f \<Rightarrow> string \<Rightarrow> (endpoint_error report + string) \<times> 'f" where
  "runtime_base env f app =
     (case xdg_runtime_dir env of
        Some xdg \<Rightarrow> if path_is_dir env f xdg then (Inr xdg, f) else runtime_fallback env f app
      | None \<Rightarrow> runtime_fallback env f app)"

definition runtime_dir :: "'f dir_env \<Rightarrow> 'f \<Rightarrow> string \<Rightarrow> (endpoint_error report + string) \<times> 'f" where
  "runtime_dir env f app =
     (case runtime_base env f app of
        (Inl r, f) \<Rightarrow> (Inl r, f)
      | (Inr base, f) \<Rightarrow>
          (let dir = path_join base app in
           case create_dir_all env f dir of
             (Inl e, f) \<Rightarrow>
               (Inl (Report NoRuntimeDirectory
                  [Text (''cannot create '' @ dir @ '': '' @ io_error_text env e)]), f)
           | (Inr _, f) \<Rightarrow> (Inr dir, f)))"

definition for_service :: "platform \<Rightarrow> 'f dir_env \<Rightarrow> 'f \<Rightarrow> string \<Rightarrow> string
    \<Rightarrow> (endpoint_error report + 'a endpoint) \<times> 'f" where
  "for_service plat env f app service =
     (case validate_name (str_debug env) app of
        Inl r \<Rightarrow> (Inl r, f)
      | Inr _ \<Rightarrow>
          (case validate_name (str_debug env) service of
             Inl r \<Rightarrow> (Inl r, f)
           | Inr _ \<Rightarrow>
               if plat = Windows then (Inr (NpipeEndpoint (PIPE_PREFIX @ app @ CHR ''.'' # service)), f)
               else
                 (case runtime_dir env f app of
                    (Inl r, f) \<Rightarrow> (Inl r, f)
                  | (Inr dir, f) \<Rightarrow> (Inr (UdsEndpoint (path_join dir (service @ ''.sock''))), f))))"

section \<open>Virtual machines\<close>

definition vsock_to_host :: "u32 \<Rightarrow> 'a endpoint" where
  "vsock_to_host port = VsockEndpoint (Cid 2) port"

definition vsock_to_wsl :: "vm_env \<Rightarrow> u32 \<Rightarrow> endpoint_error report + 'a endpoint" where
  "vsock_to_wsl env port =
     (case wsl_vmid env of
        Inl (Ambiguous n) \<Rightarrow>
          Inl (Report WslVmAmbiguous
            [Text (show_nat n @ '' VMs are running; run elevated to tell WSL's apart'')])
      | Inl (LookupIo e) \<Rightarrow> Inl (Report InvalidVsockTarget [])
      | Inr None \<Rightarrow> Inl (Report WslNotRunning [])
      | Inr (Some vm) \<Rightarrow> Inr (VsockEndpoint (Guid vm) port))"

definition vsock_to_best_vm :: "vm_env \<Rightarrow> u32 \<Rightarrow> endpoint_error report + 'a endpoint" where
  "vsock_to_best_vm env port =
     bindr (recontext InvalidVsockTarget (get_best_vmid env)) (\<lambda>guid.
       Inr (VsockEndpoint (Guid (guid_to_uuid (guids env) guid)) port))"

section \<open>Listening and connecting\<close>

fun endpoint_kind :: "'a endpoint \<Rightarrow> string" where
  "endpoint_kind (VsockEndpoint _ _) = ''vsock''"
| "endpoint_kind (UdsEndpoint _) = ''uds''"
| "endpoint_kind (NpipeEndpoint _) = ''npipe''"
| "endpoint_kind (TcpEndpoint _) = ''tcp''"

text \<open>\<open>uuid_text\<close> is the \<open>Debug\<close> form of an identifier.\<close>

fun vsock_target_debug :: "(uuid \<Rightarrow> string) \<Rightarrow> vsock_target \<Rightarrow> string" where
  "vsock_target_debug uuid_text (Cid cid) = ''Cid('' @ show_nat (unat cid) @ '')''"
| "vsock_target_debug uuid_text (Guid u) = ''Guid('' @ uuid_text u @ '')''"

fun endpoint_fmt :: "('a \<Rightarrow> string) \<Rightarrow> (uuid \<Rightarrow> string) \<Rightarrow> 'a endpoint \<Rightarrow> string" where
  "endpoint_fmt addr_fmt uuid_text (VsockEndpoint target port) =
     ''vsock '' @ vsock_target_debug uuid_text target @ '':'' @ show_nat (unat port)"
| "endpoint_fmt addr_fmt uuid_text (UdsEndpoint path) = ''uds '' @ path"
| "endpoint_fmt addr_fmt uuid_text (NpipeEndpoint name) = ''npipe '' @ name"
| "endpoint_fmt addr_fmt uuid_text (TcpEndpoint addr) = ''tcp '' @ addr_fmt addr"

record ('a, 'f, 'l, 'h, 'p) listen_env =
  le_addr_fmt :: "'a \<Rightarrow> string"
  le_tcp_bind :: "'a \<Rightarrow> io_error + 'l"
  le_files :: "('f, 'l) fs_ops"
  le_pipes :: "server_options \<Rightarrow> string \<Rightarrow> io_error + 'h"
  le_security :: security_api
  le_guids :: guid_ops
  le_vsock :: "('l, 'p) vsock_os"

fun endpoint_listen :: "platform \<Rightarrow> ('a, 'f, 'l, 'h, 'p) listen_env \<Rightarrow> 'f \<Rightarrow> 'a endpoint \<Rightarrow> ('l, 'h) bound \<times> 'f" where
  "endpoint_listen plat env f (TcpEndpoint addr) = (bind_tcp (le_addr_fmt env) (le_tcp_bind env) addr, f)"
| "endpoint_listen plat env f (UdsEndpoint path) = bind_uds plat (le_files env) f path"
| "endpoint_listen plat env f (NpipeEndpoint name) =
     (if plat = Windows then bind_npipe (le_pipes env) (le_security env) name
      else Inl (Report Bind [Text ''named pipes are only available on Windows'']), f)"
| "endpoint_listen plat env f (VsockEndpoint target port) =
     (bind_vsock plat (le_guids env) (le_vsock env) target port, f)"

fun endpoint_connect :: "platform \<Rightarrow> ('a, 's) connect_ops \<Rightarrow> 'a endpoint \<Rightarrow> transport_error report + 's conn" where
  "endpoint_connect plat ops (TcpEndpoint addr) = connect_tcp ops addr"
| "endpoint_connect plat ops (UdsEndpoint path) = connect_uds ops path"
| "endpoint_connect plat ops (NpipeEndpoint name) =
     (if plat = Windows then connect_npipe ops name
      else Inl (Report Connect [Text ''named pipes are only available on Windows'']))"
| "endpoint_connect plat ops (VsockEndpoint target port) = connect_vsock ops target port"

section \<open>Waiting for a service\<close>

definition CONNECT_ATTEMPT_LIMIT :: nat where "CONNECT_ATTEMPT_LIMIT = 1000000000"
definition FIRST_DELAY :: nat where "FIRST_DELAY = 50000000"
definition MAX_DELAY :: nat where "MAX_DELAY = 1000000000"

text \<open>
  What the attempts meet: the \<open>i\<close>-th, with the limit it is given, finishes after some time with a
  result, or is cut off, some time later than at the limit; and how much longer than asked the
  \<open>i\<close>-th sleep takes.
\<close>

record 'c attempts =
  attempt :: "nat \<Rightarrow> nat \<Rightarrow> (transport_error report + 'c) option \<times> nat"
  oversleep :: "nat \<Rightarrow> nat"
  duration_debug :: "nat \<Rightarrow> string"

text \<open>
  The loop, from the time elapsed, the delay and the number of the attempt; the result comes with
  the time and the number of attempts made. \<open>None\<close> is a loop that does not end.
\<close>

partial_function (option) ready_loop :: "'c attempts \<Rightarrow> string \<Rightarrow> nat \<Rightarrow> nat \<Rightarrow> nat \<Rightarrow> nat
    \<Rightarrow> ((transport_error report + 'c) \<times> nat \<times> nat) option" where
  "ready_loop env text give_up_after now delay i =
     (let limit = min (give_up_after - now) CONNECT_ATTEMPT_LIMIT in
      case attempt env i limit of (outcome, took) \<Rightarrow>
        let cut_off = (outcome = None); now = (if cut_off then now + limit + took else now + took) in
        case outcome of
          Some (Inr conn) \<Rightarrow> Some (Inr conn, now, i + 1)
        | _ \<Rightarrow>
            let report = (case outcome of
                            Some (Inl report) \<Rightarrow> report
                          | _ \<Rightarrow> Report Connect [Text (''connect attempt cut off after '' @ duration_debug env limit)]);
                pause = (if cut_off then 0 else delay)
            in if give_up_after \<le> now + pause then
                 Some (Inl (attach_text ''gave up waiting for the service to become ready''
                              (attach_text (''endpoint '' @ text) report)), now, i + 1)
               else if cut_off then ready_loop env text give_up_after now delay (i + 1)
               else ready_loop env text give_up_after (now + delay + oversleep env i) (min (delay * 2) MAX_DELAY) (i + 1))"

definition connect_ready :: "'c attempts \<Rightarrow> string \<Rightarrow> nat \<Rightarrow> ((transport_error report + 'c) \<times> nat \<times> nat) option" where
  "connect_ready env text give_up_after = ready_loop env text give_up_after 0 FIRST_DELAY 0"

section \<open>The loop ends\<close>

text \<open>\<open>prompt d env\<close>: the clock is never late by more than \<open>d\<close>.\<close>

definition prompt :: "nat \<Rightarrow> 'c attempts \<Rightarrow> bool" where
  "prompt d env \<longleftrightarrow>
     (\<forall>i limit. case attempt env i limit of
        (None, late) \<Rightarrow> late \<le> d
      | (Some _, took) \<Rightarrow> took \<le> limit + d)
     \<and> (\<forall>i. oversleep env i \<le> d)"

definition fails :: "'c attempts \<Rightarrow> nat \<Rightarrow> bool" where
  "fails env i \<longleftrightarrow> (\<exists>limit. case fst (attempt env i limit) of Some (Inr _) \<Rightarrow> False | _ \<Rightarrow> True)"

definition ready_result :: "'c attempts \<Rightarrow> nat \<Rightarrow> nat \<Rightarrow> transport_error report + 'c \<Rightarrow> bool" where
  "ready_result env i n r \<longleftrightarrow>
     i < n \<and> (\<forall>j. i \<le> j \<and> j < n - 1 \<longrightarrow> fails env j)
     \<and> (case r of
          Inr conn \<Rightarrow> (\<exists>limit. fst (attempt env (n - 1) limit) = Some (Inr conn))
        | Inl _ \<Rightarrow> fails env (n - 1))"

lemma ready_result_step: "fails env i \<Longrightarrow> ready_result env (i + 1) n r \<Longrightarrow> ready_result env i n r"
  unfolding ready_result_def by (metis Suc_eq_plus1 Suc_lessD Suc_leI le_eq_less_or_eq)

lemma ready_result_failed: "fails env i \<Longrightarrow> ready_result env i (Suc i) (Inl r)"
  by (auto simp: ready_result_def)

lemma div_steps: "now + u \<le> now' \<Longrightarrow> now + u \<le> (g :: nat) \<Longrightarrow> 0 < u \<Longrightarrow> (g - now') div u + 1 \<le> (g - now) div u"
  using div_le_mono [of "g - now'" "g - now - u" u] le_div_geq [of u "g - now"] by simp

text \<open>One turn of the loop ends it, or leaves a later time at which it goes on.\<close>

lemma ready_loop_step:
  assumes delay: "FIRST_DELAY \<le> delay" and now: "\<And>d. prompt d env \<Longrightarrow> now \<le> give_up + d"
  obtains (ends) r t where "ready_loop env shown give_up now delay i = Some (r, t, i + 1)"
      and "ready_result env i (i + 1) r" and "\<And>d. prompt d env \<Longrightarrow> t \<le> give_up + 2 * d"
  | (again) now2 delay2 where "ready_loop env shown give_up now delay i = ready_loop env shown give_up now2 delay2 (i + 1)"
      and "fails env i" and "FIRST_DELAY \<le> delay2" and "now + FIRST_DELAY \<le> now2" and "now + FIRST_DELAY \<le> give_up"
      and "\<And>d. prompt d env \<Longrightarrow> now2 \<le> give_up + d"
proof -
  define limit where "limit = min (give_up - now) CONNECT_ATTEMPT_LIMIT"
  obtain outcome took where att: "attempt env i limit = (outcome, took)" by (rule prod.exhaust)
  define now1 where "now1 = (if outcome = None then now + limit + took else now + took)"
  note unfold = ready_loop.simps [of env shown give_up now delay i, folded limit_def]
  have late: "now1 \<le> give_up + 2 * d" if "prompt d env" for d
  proof -
    have "case outcome of None \<Rightarrow> took \<le> d | Some _ \<Rightarrow> took \<le> limit + d"
      using that att unfolding prompt_def by (metis (mono_tags, lifting) case_prod_conv option.case_eq_if)
    then show ?thesis using now [OF that] by (cases outcome) (auto simp: now1_def limit_def)
  qed
  have failing: "fails env i" if "\<nexists>conn. outcome = Some (Inr conn)"
    using that att by (auto simp: fails_def intro!: exI [of _ limit] split: option.split sum.split)
  consider (conn) conn where "outcome = Some (Inr conn)"
    | (cut) "outcome = None" | (failed) report where "outcome = Some (Inl report)"
    by (metis option.exhaust sum.exhaust)
  then show thesis
  proof cases
    case conn
    then have "ready_result env i (i + 1) (Inr conn)" using att by (auto simp: ready_result_def intro!: exI [of _ limit])
    then show thesis using conn unfold att late by (intro ends) (simp_all add: Let_def now1_def)
  next
    case cut
    show thesis
    proof (cases "give_up \<le> now1")
      case True
      then show thesis
        using cut unfold att late failing by (intro ends, simp add: Let_def now1_def) (simp_all add: now1_def ready_result_failed)
    next
      case False
      then show thesis
        using cut unfold att failing delay
        by (intro again [of now1 delay])
          (auto simp: Let_def now1_def limit_def FIRST_DELAY_def CONNECT_ATTEMPT_LIMIT_def split: if_splits)
    qed
  next
    case failed
    show thesis
    proof (cases "give_up \<le> now1 + delay")
      case True
      then show thesis
        using failed unfold att late failing by (intro ends, simp add: Let_def now1_def) (simp_all add: now1_def ready_result_failed)
    next
      case False
      then show thesis
        using failed unfold att failing delay
        by (intro again [of "now1 + delay + oversleep env i" "min (delay * 2) MAX_DELAY"])
          (auto simp: Let_def now1_def FIRST_DELAY_def MAX_DELAY_def prompt_def intro: add_mono)
    qed
  qed
qed

lemma ready_loop_returns:
  assumes "FIRST_DELAY \<le> delay" and "\<And>d. prompt d env \<Longrightarrow> now \<le> give_up + d"
  shows "\<exists>r t n. ready_loop env shown give_up now delay i = Some (r, t, n) \<and> ready_result env i n r
    \<and> n \<le> i + (give_up - now) div FIRST_DELAY + 1 \<and> (\<forall>d. prompt d env \<longrightarrow> t \<le> give_up + 2 * d)"
  using assms
proof (induction "give_up - now" arbitrary: now delay i rule: less_induct)
  case less
  show ?case
  proof (rule ready_loop_step [OF less.prems, where shown = shown and i = i], assumption)
    fix r t
    assume "ready_loop env shown give_up now delay i = Some (r, t, i + 1)" "ready_result env i (i + 1) r"
      "\<And>d. prompt d env \<Longrightarrow> t \<le> give_up + 2 * d"
    then show ?thesis by (intro exI conjI) (assumption, assumption, simp_all)
  next
    fix now2 delay2
    assume step: "ready_loop env shown give_up now delay i = ready_loop env shown give_up now2 delay2 (i + 1)"
      and failing: "fails env i" and d2: "FIRST_DELAY \<le> delay2"
      and ahead: "now + FIRST_DELAY \<le> now2" "now + FIRST_DELAY \<le> give_up"
      and late: "\<And>d. prompt d env \<Longrightarrow> now2 \<le> give_up + d"
    have "give_up - now2 < give_up - now" using ahead by (simp add: FIRST_DELAY_def)
    then obtain r t n where "ready_loop env shown give_up now2 delay2 (i + 1) = Some (r, t, n)"
        "ready_result env (i + 1) n r" "n \<le> i + 1 + (give_up - now2) div FIRST_DELAY + 1"
        "\<forall>d. prompt d env \<longrightarrow> t \<le> give_up + 2 * d"
      using less.hyps [of now2 delay2 "i + 1"] d2 late by blast
    then show ?thesis
      using step ready_result_step [OF failing] div_steps [OF ahead] by (auto simp: FIRST_DELAY_def)
  qed
qed

section \<open>Names and paths\<close>

definition valid_name :: "string \<Rightarrow> bool" where
  "valid_name name \<longleftrightarrow> name \<noteq> [] \<and> length name \<le> 64 \<and> list_all is_name_char name"

lemma validate_name_iff: "validate_name dbg name = Inr u \<longleftrightarrow> valid_name name"
  by (simp add: validate_name_def valid_name_def)

lemma valid_name_chars:
  assumes "valid_name name"
  shows "CHR ''/'' \<notin> set name" "CHR ''.'' \<notin> set name" "CHR 0x5C \<notin> set name" "name \<noteq> []"
  using assms by (auto simp: valid_name_def list_all_iff is_name_char_def Let_def)

text \<open>The part behind the last separator.\<close>

definition last_part :: "char \<Rightarrow> string \<Rightarrow> string" where
  "last_part c s = rev (takeWhile (\<lambda>x. x \<noteq> c) (rev s))"

lemma last_part_append: "c \<notin> set ys \<Longrightarrow> xs = [] \<or> last xs = c \<Longrightarrow> last_part c (xs @ ys) = ys"
proof -
  assume "c \<notin> set ys" and sep: "xs = [] \<or> last xs = c"
  then have "takeWhile (\<lambda>x. x \<noteq> c) (rev ys @ rev xs) = rev ys @ takeWhile (\<lambda>x. x \<noteq> c) (rev xs)"
    by (intro takeWhile_append2) auto
  moreover have "takeWhile (\<lambda>x. x \<noteq> c) (rev xs) = []" using sep by (cases xs rule: rev_cases) auto
  ultimately show ?thesis by (simp add: last_part_def)
qed

lemma path_join_name:
  assumes "valid_name name"
  shows "path_join base name = (if base = [] \<or> last base = CHR ''/'' then base @ name else base @ CHR ''/'' # name)"
  using valid_name_chars [OF assms] by (cases name) (auto simp: path_join_def)

definition service_path :: "string \<Rightarrow> string \<Rightarrow> string \<Rightarrow> string" where
  "service_path base app service = path_join (path_join base app) (service @ ''.sock'')"

lemma service_path_eq:
  assumes "valid_name app" and "valid_name service"
  shows "service_path base app service = path_join base app @ CHR ''/'' # service @ ''.sock''"
proof -
  have "app \<noteq> []" "last app \<in> set app" "service \<noteq> []" "hd service \<in> set service"
    using valid_name_chars [OF assms(1)] valid_name_chars [OF assms(2)] by auto
  then have "app \<noteq> []" "last app \<noteq> CHR ''/''" "service \<noteq> []" "hd service \<noteq> CHR ''/''"
    using valid_name_chars(1) [OF assms(1)] valid_name_chars(1) [OF assms(2)] by metis+
  then show ?thesis
    unfolding service_path_def path_join_name [OF assms(1)]
    by (auto simp: path_join_def hd_append)
qed

lemma service_path_parts:
  assumes "valid_name app" and "valid_name service"
  shows "last_part (CHR ''/'') (service_path base app service) = service @ ''.sock''"
    and "last_part (CHR ''/'') (path_join base app) = app"
    and "service_path base app service = path_join base app @ CHR ''/'' # last_part (CHR ''/'') (service_path base app service)"
proof -
  have service: "CHR ''/'' \<notin> set (service @ ''.sock'')" using valid_name_chars [OF assms(2)] by simp
  have split: "service_path base app service = (path_join base app @ [CHR ''/'']) @ service @ ''.sock''"
    by (simp add: service_path_eq [OF assms])
  show part: "last_part (CHR ''/'') (service_path base app service) = service @ ''.sock''"
    unfolding split by (rule last_part_append) (use service in simp_all)
  show "service_path base app service = path_join base app @ CHR ''/'' # last_part (CHR ''/'') (service_path base app service)"
    unfolding part by (simp add: split)
  show "last_part (CHR ''/'') (path_join base app) = app"
    using valid_name_chars(1) [OF assms(1)] last_part_append [of "CHR ''/''" app base]
      last_part_append [of "CHR ''/''" app "base @ [CHR ''/'']"]
    by (simp add: path_join_name [OF assms(1)])
qed

lemma service_path_inject:
  assumes "valid_name app" "valid_name service" "valid_name app'" "valid_name service'"
    and same: "service_path base app service = service_path base' app' service'"
  shows "app = app' \<and> service = service'"
proof -
  have "service @ ''.sock'' = service' @ ''.sock''"
    using service_path_parts(1) [OF assms(1,2), of base] service_path_parts(1) [OF assms(3,4), of base'] same by simp
  then have "path_join base app = path_join base' app'"
    using service_path_eq [OF assms(1,2), of base] service_path_eq [OF assms(3,4), of base'] same by simp
  then show ?thesis
    using service_path_parts(2) [OF assms(1,2), of base] service_path_parts(2) [OF assms(3,4), of base']
      \<open>service @ ''.sock'' = service' @ ''.sock''\<close> by simp
qed

text \<open>Where the socket of a service is: the runtime directory of the user, or a private one.\<close>

definition private_to :: "u32 \<Rightarrow> dir_metadata \<Rightarrow> bool" where
  "private_to uid m \<longleftrightarrow> dm_is_dir m \<and> dm_uid m = uid \<and> dm_mode m AND 63 = 0"

lemma inspect_private_iff:
  "inspect_private env f dir uid = Inr () \<longleftrightarrow> (\<exists>m. inspect_dir env f dir = Inr m \<and> private_to uid m)"
  by (auto simp: inspect_private_def refuse_dir_def private_to_def split: sum.splits)

lemma private_dir_ok:
  "private_dir env f dir uid = (Inr (), f') \<Longrightarrow> \<exists>m. inspect_dir env f' dir = Inr m \<and> private_to uid m"
  by (auto simp: private_dir_def refuse_dir_def inspect_private_iff
      split: prod.splits sum.splits if_splits)

definition service_base :: "'f dir_env \<Rightarrow> 'f \<Rightarrow> string \<Rightarrow> string" where
  "service_base env f app =
     (case xdg_runtime_dir env of
        Some xdg \<Rightarrow> if path_is_dir env f xdg then xdg
                     else path_join (temp_dir env) (app @ CHR ''-'' # show_nat (unat (getuid env)))
      | None \<Rightarrow> path_join (temp_dir env) (app @ CHR ''-'' # show_nat (unat (getuid env))))"

lemma runtime_base_ok:
  assumes "runtime_base env f app = (Inr base, f')"
  shows "base = service_base env f app
    \<and> (xdg_runtime_dir env = Some base \<and> path_is_dir env f base
       \<or> (\<exists>m. inspect_dir env f' base = Inr m \<and> private_to (getuid env) m))"
proof -
  have fallback: "runtime_fallback env f app = (Inr b, g) \<Longrightarrow>
      b = path_join (temp_dir env) (app @ CHR ''-'' # show_nat (unat (getuid env)))
      \<and> (\<exists>m. inspect_dir env g b = Inr m \<and> private_to (getuid env) m)" for b g
    by (auto simp: runtime_fallback_def Let_def dest: private_dir_ok split: prod.splits sum.splits)
  then show ?thesis
    using assms by (auto simp: runtime_base_def service_base_def split: option.splits if_splits)
qed

lemma for_service_unix:
  assumes "plat \<noteq> Windows" and "for_service plat env f app service = (Inr ep, f')"
  shows "\<exists>g. valid_name app \<and> valid_name service \<and> ep = UdsEndpoint (service_path (service_base env f app) app service)
    \<and> runtime_base env f app = (Inr (service_base env f app), g)"
  using assms
  by (auto simp: for_service_def runtime_dir_def service_path_def validate_name_iff Let_def
      dest: runtime_base_ok split: sum.splits prod.splits)

lemma for_service_windows:
  "for_service Windows env f app service = (Inr ep, f') \<Longrightarrow>
     valid_name app \<and> valid_name service \<and> ep = NpipeEndpoint (PIPE_PREFIX @ app @ CHR ''.'' # service)"
  by (auto simp: for_service_def validate_name_iff split: sum.splits)

lemma pipe_name_inject:
  assumes "valid_name app" "valid_name service" "valid_name app'" "valid_name service'"
    and same: "app @ CHR ''.'' # service = app' @ CHR ''.'' # service'"
  shows "app = app' \<and> service = service'"
proof -
  have "last_part (CHR ''.'') ((a @ [CHR ''.'']) @ s) = s" if "valid_name s" for a s
    using valid_name_chars(2) [OF that] by (intro last_part_append) simp_all
  from this [OF assms(2), of app] this [OF assms(4), of app'] same show ?thesis by simp
qed

text \<open>An environment without a runtime directory, whose temporary directory is \<open>/tmp\<close>.\<close>

definition sample_dirs :: "u32 \<Rightarrow> unit dir_env" where
  "sample_dirs mode =
     \<lparr>xdg_runtime_dir = None, path_is_dir = (\<lambda>f p. False), getuid = 7, temp_dir = ''/tmp'',
      create_dir = (\<lambda>f p m. (Inl io_error.AlreadyExists, f)),
      inspect_dir = (\<lambda>f p. Inr \<lparr>dm_is_dir = True, dm_uid = 7, dm_mode = mode\<rparr>),
      create_dir_all = (\<lambda>f p. (Inr (), f)), io_error_text = (\<lambda>e. []), str_debug = (\<lambda>s. s)\<rparr>"

lemma sample_service:
  "valid_name app \<Longrightarrow> valid_name service \<Longrightarrow> for_service Linux (sample_dirs 448) () app service
     = (Inr (UdsEndpoint (service_path (service_base (sample_dirs 448) () app) app service)), ())"
  by (simp add: for_service_def validate_name_def valid_name_def sample_dirs_def runtime_dir_def service_base_def
      runtime_base_def runtime_fallback_def private_dir_def inspect_private_def service_path_def Let_def)

lemma sample_names: "valid_name ''a''" "valid_name ''b''" "valid_name ''c''"
  by (simp_all add: valid_name_def is_name_char_def)

section \<open>Properties\<close>

text \<open>C12: \<open>connect_ready\<close> always returns, whatever the attempts and the clock do. It makes at most one
  attempt more than the first delay fits into the time to give up; it returns the connection of
  the first attempt that succeeds, and fails only if every attempt it made failed; and if the
  clock is never late by more than some time, it returns at most twice that time after the
  time to give up.\<close>

theorem connect_ready_returns:
  "\<exists>r t n. connect_ready env shown give_up_after = Some (r, t, n)
     \<and> ready_result env 0 n r \<and> n \<le> give_up_after div FIRST_DELAY + 1
     \<and> (\<forall>d. prompt d env \<longrightarrow> t \<le> give_up_after + 2 * d)"
  using ready_loop_returns [of FIRST_DELAY env 0 give_up_after shown 0] by (simp add: connect_ready_def)

theorem connect_ready_returns_witness:
  "\<exists>r t n. connect_ready \<lparr>attempt = (\<lambda>i limit. (Some (Inr i), 5)), oversleep = (\<lambda>i. 0), duration_debug = (\<lambda>n. [])\<rparr> [] 60
       = Some (r, t, n)
     \<and> n \<le> 1 \<and> t \<le> 70"
proof -
  have "prompt 5 \<lparr>attempt = (\<lambda>i limit. (Some (Inr i), 5)), oversleep = (\<lambda>i. 0), duration_debug = (\<lambda>n. [])\<rparr>"
    by (simp add: prompt_def)
  with connect_ready_returns [of "\<lparr>attempt = (\<lambda>i limit. (Some (Inr i), 5)), oversleep = (\<lambda>i. 0), duration_debug = (\<lambda>n. [])\<rparr>" "[]" 60]
  show ?thesis by (fastforce simp: FIRST_DELAY_def)
qed

text \<open>An attempt that fails at once, with 60 ms to give up: it stops 10 ms early.\<close>

lemma connect_ready_gives_up_early:
  "map_option (fst \<circ> snd) (connect_ready
     \<lparr>attempt = (\<lambda>i limit. (Some (Inl (Report Connect [])), 0)), oversleep = (\<lambda>i. 0), duration_debug = (\<lambda>n. [])\<rparr>
     shown 60000000 :: ((transport_error report + unit) \<times> nat \<times> nat) option) = Some 50000000"
  unfolding connect_ready_def FIRST_DELAY_def
  by (subst ready_loop.simps, simp add: MAX_DELAY_def, subst ready_loop.simps, simp)

text \<open>C34: Different services never share a conventional endpoint: whenever two calls succeed on one
  platform, in whatever states of the file system and environment, and give the same endpoint, they
  named the same application and the same service.\<close>

theorem service_endpoints_distinct:
  assumes "for_service plat env f app service = (Inr ep, f')"
    and "for_service plat env' g app' service' = (Inr ep, g')"
  shows "app = app' \<and> service = service'"
proof (cases "plat = Windows")
  case True
  note one = for_service_windows [OF assms(1) [unfolded True]] and two = for_service_windows [OF assms(2) [unfolded True]]
  then have "app @ CHR ''.'' # service = app' @ CHR ''.'' # service'" by simp
  with one two show ?thesis by (intro pipe_name_inject) simp_all
next
  case False
  from for_service_unix [OF False assms(1)] for_service_unix [OF False assms(2)]
  have "valid_name app" "valid_name service" "valid_name app'" "valid_name service'"
      "service_path (service_base env f app) app service = service_path (service_base env' g app') app' service'"
    by auto
  then show ?thesis by (rule service_path_inject)
qed

theorem service_endpoints_distinct_witness:
  "fst (for_service Linux (sample_dirs 448) () ''a'' ''b'' :: (endpoint_error report + nat endpoint) \<times> unit)
   \<noteq> fst (for_service Linux (sample_dirs 448) () ''a'' ''c'')"
proof -
  obtain ep where ep: "for_service Linux (sample_dirs 448) () ''a'' ''b'' = (Inr ep :: _ + nat endpoint, ())"
    by (simp add: sample_service sample_names)
  obtain ep' where ep': "for_service Linux (sample_dirs 448) () ''a'' ''c'' = (Inr ep' :: _ + nat endpoint, ())"
    by (simp add: sample_service sample_names)
  have "ep \<noteq> ep'"
  proof
    assume "ep = ep'"
    from service_endpoints_distinct [OF ep ep' [folded this]] show False by simp
  qed
  then show ?thesis by (simp add: ep ep')
qed

text \<open>C9: On Unix the socket of a service stays inside the directory meant for it. The endpoint is the
  file of the service in the directory of the application, with no part of either name taken for a
  path, below the user's runtime directory, or below a directory that, when it was checked, was a real
  directory, not a link, owned by the user and closed to everyone else.\<close>

theorem service_endpoint_private:
  assumes "plat \<noteq> Windows" and "for_service plat env f app service = (Inr ep, f')"
  shows "\<exists>base path g. ep = UdsEndpoint path \<and> path = path_join base app @ CHR ''/'' # service @ ''.sock''
    \<and> CHR ''/'' \<notin> set app \<and> CHR ''.'' \<notin> set app \<and> CHR ''/'' \<notin> set service \<and> CHR ''.'' \<notin> set service
    \<and> (xdg_runtime_dir env = Some base \<and> path_is_dir env f base
       \<or> (\<exists>m. inspect_dir env g base = Inr m \<and> private_to (getuid env) m))"
proof -
  let ?base = "service_base env f app"
  obtain g where g: "valid_name app" "valid_name service" "ep = UdsEndpoint (service_path ?base app service)"
      "runtime_base env f app = (Inr ?base, g)"
    using for_service_unix [OF assms] by auto
  with runtime_base_ok [OF g(4)] show ?thesis
    using service_path_eq [OF g(1,2)] valid_name_chars [OF g(1)] valid_name_chars [OF g(2)]
    by (intro exI [of _ ?base] exI [of _ "service_path ?base app service"] exI [of _ g]) auto
qed

theorem service_endpoint_private_witness:
  "\<exists>base. fst (for_service Linux (sample_dirs 448) () ''a'' ''b'' :: (endpoint_error report + nat endpoint) \<times> unit)
      = Inr (UdsEndpoint (path_join base ''a'' @ CHR ''/'' # ''b'' @ ''.sock''))
    \<and> (\<exists>m. inspect_dir (sample_dirs 448) () base = Inr m \<and> private_to 7 m)"
proof -
  obtain ep where run: "for_service Linux (sample_dirs 448) () ''a'' ''b''
      = (Inr ep :: endpoint_error report + nat endpoint, ())"
    by (simp add: sample_service sample_names)
  moreover have "xdg_runtime_dir (sample_dirs 448) = None" "getuid (sample_dirs 448) = 7" by (simp_all add: sample_dirs_def)
  moreover have "inspect_dir (sample_dirs 448) g base = inspect_dir (sample_dirs 448) () base" for g base by simp
  ultimately show ?thesis using service_endpoint_private [OF _ run] by auto
qed

end
