(* ===== verification/Handshake.thy ===== *)
theory Handshake
  imports Signed_Process
begin

text \<open>
  \<open>authenticate_server\<close> and \<open>authenticate_client\<close> of \<open>src/src/auth/handshake.rs\<close> with the packet
  transport under them, as \<open>io\<close> programs. The HMAC crate is a pair of parameters of
  \<open>hs_env\<close>: the tag of a key and a message, and its verification; \<open>hmac_laws\<close> states that
  verification accepts exactly the 32 bytes of the tag. The lemmas describe every run that ends
  in success, whatever the peer sends and whatever fails on the way.
\<close>

section \<open>Environment\<close>

record ('k, 'g, 's) hs_env = "('k, 'g) attest_env" +
  peer_lookup :: "'s peer_ops"
  hmac_sha256 :: "bytes \<Rightarrow> bytes \<Rightarrow> bytes"
  hmac_verify :: "bytes \<Rightarrow> bytes \<Rightarrow> bytes \<Rightarrow> bool"

datatype mac = Mac (mac_key: bytes) (mac_fed: bytes)

definition hmac_with_nonce :: "bytes \<Rightarrow> bytes \<Rightarrow> mac" where
  "hmac_with_nonce key nonce =
     (let mac = Mac key [];
          mac = Mac (mac_key mac) (mac_fed mac @ HMAC_LABEL);
          mac = Mac (mac_key mac) (mac_fed mac @ to_le 2 HANDSHAKE_VERSION)
      in Mac (mac_key mac) (mac_fed mac @ nonce))"

definition mac_finalize :: "('k, 'g, 's) hs_env \<Rightarrow> mac \<Rightarrow> bytes" where
  "mac_finalize env mac = hmac_sha256 env (mac_key mac) (mac_fed mac)"

definition mac_verify_slice :: "('k, 'g, 's) hs_env \<Rightarrow> mac \<Rightarrow> bytes \<Rightarrow> bool" where
  "mac_verify_slice env mac tag = hmac_verify env (mac_key mac) (mac_fed mac) tag"

section \<open>Packets on a connection\<close>

definition hs_io :: hs_report where
  "hs_io = Report handshake_error.Io []"

definition frame_packet :: "bytes \<Rightarrow> bytes" where
  "frame_packet body = to_le 4 (word_of_nat (length body) :: u32) @ body"

definition write_packet :: "bytes \<Rightarrow> (hs_report + unit) io" where
  "write_packet body =
     WriteAll (frame_packet body) (\<lambda>r. case r of Inl e \<Rightarrow> Ret (Inl hs_io) | Inr u \<Rightarrow> Ret (Inr ()))"

definition read_packet :: "(hs_report + bytes) io" where
  "read_packet =
     ReadExact 4 (\<lambda>r.
       case r of
         Inl e \<Rightarrow> Ret (Inl hs_io)
       | Inr header \<Rightarrow>
           let len = from_le header :: u32 in
           if MAX_PACKET_LEN < len then
             Ret (Inl (Report MalformedPacket
               [Text (''declared packet length '' @ show_nat (unat len) @ '' exceeds ''
                      @ show_nat (unat MAX_PACKET_LEN))]))
           else
             ReadExact (unat len) (\<lambda>r.
               case r of Inl e \<Rightarrow> Ret (Inl hs_io) | Inr body \<Rightarrow> Ret (Inr body)))"

definition read_packet_with_timeout :: "(hs_report + bytes) io" where
  "read_packet_with_timeout = with_timeout (Inl (Report Timeout [])) read_packet"

section \<open>The server\<close>

text \<open>\<open>let _ = write_packet(conn, &encode_ack(ACK_REJECTED, reason)).await; return Err(report)\<close>\<close>

definition refuse :: "bytes \<Rightarrow> hs_report \<Rightarrow> (hs_report + 'a) io" where
  "refuse reason report =
     io_bind (write_packet (encode_ack ACK_REJECTED reason)) (\<lambda>_. Ret (Inl report))"

definition attested_pid ::
  "('k, 'g, 's) hs_env \<Rightarrow> 's conn \<Rightarrow> handshake_mode \<Rightarrow> hs_report + u32 option" where
  "attested_pid env c mode =
     (case mode of
        SignedProcess _ \<Rightarrow>
          (case conn_peer_identity (cfg_platform env) (peer_lookup env) c of
             Pid pid \<Rightarrow> Inr (Some pid)
           | peer_identity.Unknown \<Rightarrow>
               Inl (Report PeerAttestationUnavailable [Text (''transport: '' @ conn_kind c)]))
      | _ \<Rightarrow> Inr None)"

definition check_proof :: "('k, 'g, 's) hs_env \<Rightarrow> handshake_mode \<Rightarrow> u32 option \<Rightarrow> bytes \<Rightarrow> bytes
    \<Rightarrow> (hs_report + unit) io" where
  "check_proof env mode attested nonce proof =
     (case mode of
        HmacSha256 key \<Rightarrow>
          if \<not> mac_verify_slice env (hmac_with_nonce key nonce) proof
          then refuse (as_bytes ''invalid handshake proof'') (Report InvalidProof [])
          else Ret (Inr ())
      | SignedProcess key \<Rightarrow>
          (case attested of
             None \<Rightarrow> Panic
           | Some pid \<Rightarrow>
               io_bind (verify_signed_process env pid key) (\<lambda>r.
                 case r of
                   Inl report \<Rightarrow> refuse (as_bytes ''signed-process verification failed'') report
                 | Inr u \<Rightarrow> Ret (Inr ())))
      | _ \<Rightarrow>
          if proof \<noteq> [] then
            refuse (as_bytes ''unexpected auth proof'')
              (Report InvalidProof [Text ''mode carries no proof, but the client sent one''])
          else Ret (Inr ()))"

text \<open>\<open>if let Some(version) = packet_version(body) && version != HANDSHAKE_VERSION\<close>\<close>

definition foreign_version :: "bytes \<Rightarrow> u16 option" where
  "foreign_version body =
     (case packet_version body of
        Some version \<Rightarrow> if version \<noteq> HANDSHAKE_VERSION then Some version else None
      | None \<Rightarrow> None)"

definition judge_client :: "('k, 'g, 's) hs_env \<Rightarrow> handshake_mode \<Rightarrow> protocol \<Rightarrow> u32 option \<Rightarrow> bytes
    \<Rightarrow> bytes \<Rightarrow> (hs_report + version option) io" where
  "judge_client env mode protocol attested nonce auth_body =
     (case foreign_version auth_body of
        Some client_version \<Rightarrow>
          let reason = ''unsupported handshake version: client='' @ show_nat (unat client_version)
                       @ '' server='' @ show_nat (unat HANDSHAKE_VERSION)
          in refuse (as_bytes reason) (Report UnsupportedVersion [Text reason])
      | None \<Rightarrow>
          (case decode_client_auth auth_body of
             Inl e \<Rightarrow> Ret (Inl e)
           | Inr (scheme, client_protocol, proof) \<Rightarrow>
               if scheme \<noteq> scheme_id mode then
                 let reason = ''handshake auth mismatch: client='' @ show_nat (unat scheme)
                              @ '' server='' @ show_nat (unat (scheme_id mode))
                 in refuse (as_bytes reason) (Report SchemeMismatch [Text reason])
               else
                 (case incompatibility protocol client_protocol of
                    Some (error, reason) \<Rightarrow> refuse (as_bytes reason) (Report error [Text reason])
                  | None \<Rightarrow>
                      bind_ok (check_proof env mode attested nonce proof) (\<lambda>_.
                      bind_ok (write_packet (encode_ack ACK_OK [])) (\<lambda>_.
                        Ret (Inr (Some (proto_version client_protocol))))))))"

definition authenticate_server :: "('k, 'g, 's) hs_env \<Rightarrow> 's conn \<Rightarrow> handshake_mode \<Rightarrow> protocol
    \<Rightarrow> (hs_report + version option) io" where
  "authenticate_server env c mode protocol =
     (if mode = Disabled then Ret (Inr None)
      else
        (case attested_pid env c mode of
           Inl e \<Rightarrow> Ret (Inl e)
         | Inr attested \<Rightarrow>
             FillRandom NONCE_LEN (\<lambda>r.
               case r of
                 Inl e \<Rightarrow> Ret (Inl (Report handshake_error.Io [Text (''failed to generate nonce: '' @ e)]))
               | Inr nonce \<Rightarrow>
                   bind_ok (write_packet (encode_hello (scheme_id mode) protocol nonce)) (\<lambda>_.
                   bind_ok read_packet_with_timeout (\<lambda>auth_body.
                     judge_client env mode protocol attested nonce auth_body)))))"

section \<open>The client\<close>

definition client_proof :: "('k, 'g, 's) hs_env \<Rightarrow> handshake_mode \<Rightarrow> bytes \<Rightarrow> bytes" where
  "client_proof env mode nonce =
     (case mode of HmacSha256 key \<Rightarrow> mac_finalize env (hmac_with_nonce key nonce) | _ \<Rightarrow> [])"

definition answer_hello :: "('k, 'g, 's) hs_env \<Rightarrow> handshake_mode \<Rightarrow> protocol \<Rightarrow> bytes
    \<Rightarrow> (hs_report + version option) io" where
  "answer_hello env mode protocol hello_body =
     (case foreign_version hello_body of
        Some server_version \<Rightarrow>
          Ret (Inl (Report UnsupportedVersion
            [Text (''server='' @ show_nat (unat server_version)
                   @ '' client='' @ show_nat (unat HANDSHAKE_VERSION))]))
      | None \<Rightarrow>
          (case decode_hello hello_body of
             Inl e \<Rightarrow> Ret (Inl e)
           | Inr (scheme, server_protocol, nonce) \<Rightarrow>
               if scheme \<noteq> scheme_id mode then
                 Ret (Inl (Report SchemeMismatch
                   [Text (''server='' @ show_nat (unat scheme)
                          @ '' client='' @ show_nat (unat (scheme_id mode)))]))
               else
                 bind_ok (write_packet (encode_client_auth scheme protocol (client_proof env mode nonce)))
                   (\<lambda>_.
                   case incompatibility protocol server_protocol of
                     Some (error, reason) \<Rightarrow> Ret (Inl (Report error [Text reason]))
                   | None \<Rightarrow>
                       bind_ok read_packet_with_timeout (\<lambda>ack_body.
                         case decode_ack ack_body of
                           Inl e \<Rightarrow> Ret (Inl e)
                         | Inr u \<Rightarrow> Ret (Inr (Some (proto_version server_protocol)))))))"

definition authenticate_client :: "('k, 'g, 's) hs_env \<Rightarrow> handshake_mode \<Rightarrow> protocol
    \<Rightarrow> (hs_report + version option) io" where
  "authenticate_client env mode protocol =
     (if mode = Disabled then Ret (Inr None)
      else
        bind_ok read_packet_with_timeout (\<lambda>hello_body.
          if hello_body \<noteq> [] \<and> hd hello_body = TAG_ACK then
            (case decode_ack hello_body of
               Inl e \<Rightarrow> Ret (Inl e)
             | Inr u \<Rightarrow> Ret (Inl (malformed ''hello'')))
          else answer_hello env mode protocol hello_body))"

definition reject_connection :: "string \<Rightarrow> (hs_report + unit) io" where
  "reject_connection reason = write_packet (encode_ack ACK_REJECTED (as_bytes reason))"

section \<open>Runs of the packet layer\<close>

lemma length_frame_packet [simp, lens]: "length (frame_packet body) = 4 + length body"
  by (simp add: frame_packet_def)

lemma runs_write_packet:
  "runs (write_packet body) tr (Inr u) \<longleftrightarrow> tr = [Wrote (frame_packet body)]"
  by (auto simp: write_packet_def runs_simps split_sum_ex)

lemma with_timeout_read_packet:
  "read_packet_with_timeout =
     TimedRead 4 (\<lambda>r.
       case r of
         Inl e \<Rightarrow> Ret (Inl hs_io)
       | Inr header \<Rightarrow>
           let len = from_le header :: u32 in
           if MAX_PACKET_LEN < len then
             Ret (Inl (Report MalformedPacket
               [Text (''declared packet length '' @ show_nat (unat len) @ '' exceeds ''
                      @ show_nat (unat MAX_PACKET_LEN))]))
           else
             TimedRead (unat len) (\<lambda>r. case r of Inl e \<Rightarrow> Ret (Inl hs_io) | Inr body \<Rightarrow> Ret (Inr body))
               (Ret (Inl (Report Timeout []))))
       (Ret (Inl (Report Timeout [])))"
  by (auto simp: read_packet_with_timeout_def read_packet_def Let_def fun_eq_iff split: sum.split)

lemma frame_header:
  assumes "length header = 4" and "length body = unat (from_le header :: u32)"
  shows "header @ body = frame_packet body"
  using to_le_from_le [of header, where 'a = 32] assms
  by (simp add: frame_packet_def word_unat_eq_iff unat_of_nat_u32 unat_u32_less)

lemma runs_read_packet:
  assumes "runs read_packet_with_timeout tr (Inr body)"
  shows "received tr = frame_packet body" and "sent tr = []" and "length body \<le> 4096"
    and "\<exists>header. tr = [Got header, Got body]"
proof -
  obtain header where "length header = 4" "tr = [Got header, Got body]"
      "length body = unat (from_le header :: u32)" "\<not> MAX_PACKET_LEN < (from_le header :: u32)"
    using assms
    by (auto simp: with_timeout_read_packet runs_simps Let_def split_sum_ex split: if_splits)
  then show "received tr = frame_packet body" "sent tr = []" "length body \<le> 4096"
      "\<exists>header. tr = [Got header, Got body]"
    by (auto simp: frame_header MAX_PACKET_LEN_def not_less word_le_nat_alt)
qed

lemma runs_refuse [simp]: "\<not> runs (refuse reason report) tr (Inr a)"
  by (auto simp: refuse_def runs_bind)

section \<open>Runs that end in success\<close>

definition compatible :: "protocol \<Rightarrow> protocol \<Rightarrow> bool" where
  "compatible local peer \<longleftrightarrow>
     proto_id peer = proto_id local \<and> major (proto_version peer) = major (proto_version local)"

lemma incompatibility_None [simp]: "incompatibility local peer = None \<longleftrightarrow> compatible local peer"
  by (auto simp: incompatibility_def compatible_def)

lemma current_client_auth:
  "foreign_version body = None \<and> decode_client_auth body = Inr (s, p, n)
   \<longleftrightarrow> length n < 2 ^ 16 \<and> body = encode_client_auth s p n"
  unfolding decode_client_auth_current [symmetric]
  by (auto simp: foreign_version_def decode_client_auth_iff packet_version_write split: if_splits)

lemma current_hello:
  "foreign_version body = None \<and> decode_hello body = Inr (s, p, n)
   \<longleftrightarrow> length n < 2 ^ 16 \<and> body = encode_hello s p n"
  unfolding decode_hello_current [symmetric]
  by (auto simp: foreign_version_def decode_hello_iff packet_version_write split: if_splits)

text \<open>What a server of a given mode has established about a client's proof.\<close>

definition proof_established :: "('k, 'g, 's) hs_env \<Rightarrow> 's conn \<Rightarrow> handshake_mode \<Rightarrow> bytes \<Rightarrow> bytes
    \<Rightarrow> event list \<Rightarrow> bool" where
  "proof_established env c mode nonce proof tr =
     (case mode of
        HmacSha256 key \<Rightarrow> mac_verify_slice env (hmac_with_nonce key nonce) proof \<and> tr = []
      | SignedProcess key \<Rightarrow>
          (\<exists>pid. conn_peer_identity (cfg_platform env) (peer_lookup env) c = Pid pid
             \<and> runs (verify_signed_process env pid key) tr (Inr ()))
      | _ \<Rightarrow> proof = [] \<and> tr = [])"

lemma runs_check_proof:
  assumes "attested_pid env c mode = Inr attested"
  shows "runs (check_proof env mode attested nonce proof) tr (Inr ())
         \<longleftrightarrow> proof_established env c mode nonce proof tr"
  using assms
  by (cases mode) (auto simp: check_proof_def attested_pid_def proof_established_def runs_bind
      split_sum_ex split: peer_identity.splits)

lemma proof_established_quiet:
  "proof_established env c mode nonce proof tr \<Longrightarrow> sent tr = [] \<and> received tr = []"
  by (cases mode) (auto simp: proof_established_def runs_verify_signed_process)

lemma runs_judge_client:
  assumes "attested_pid env c mode = Inr attested"
    and "runs (judge_client env mode protocol attested nonce body) tr (Inr r)"
  shows "\<exists>p proof tr1. body = encode_client_auth (scheme_id mode) p proof
           \<and> compatible protocol p \<and> r = Some (proto_version p)
           \<and> proof_established env c mode nonce proof tr1
           \<and> tr = tr1 @ [Wrote (frame_packet (encode_ack ACK_OK []))]"
proof -
  obtain s p pf where "foreign_version body = None" "decode_client_auth body = Inr (s, p, pf)"
    and s: "s = scheme_id mode" "incompatibility protocol p = None"
      "runs (bind_ok (check_proof env mode attested nonce pf) (\<lambda>_.
               bind_ok (write_packet (encode_ack ACK_OK [])) (\<lambda>_. Ret (Inr (Some (proto_version p))))))
         tr (Inr r)"
    using assms(2)
    by (auto simp: judge_client_def Let_def split: option.splits sum.splits if_splits)
  then have "body = encode_client_auth s p pf" using current_client_auth by blast
  then show ?thesis
    using s runs_check_proof [OF assms(1)]
    by (auto simp: runs_bind_ok_Inr runs_write_packet)
qed

lemma runs_server:
  assumes "runs (authenticate_server env c mode protocol) tr (Inr r)" and "mode \<noteq> Disabled"
  shows "\<exists>nonce header p proof tr1.
           length nonce = NONCE_LEN \<and> r = Some (proto_version p) \<and> compatible protocol p
         \<and> header @ encode_client_auth (scheme_id mode) p proof
           = frame_packet (encode_client_auth (scheme_id mode) p proof)
         \<and> length (encode_client_auth (scheme_id mode) p proof) \<le> 4096
         \<and> proof_established env c mode nonce proof tr1
         \<and> tr = [Random nonce, Wrote (frame_packet (encode_hello (scheme_id mode) protocol nonce)),
                Got header, Got (encode_client_auth (scheme_id mode) p proof)]
               @ tr1 @ [Wrote (frame_packet (encode_ack ACK_OK []))]"
proof -
  obtain attested nonce tr2 body tr3 where att: "attested_pid env c mode = Inr attested"
    and nonce: "length nonce = NONCE_LEN"
    and tr: "tr = Random nonce # Wrote (frame_packet (encode_hello (scheme_id mode) protocol nonce))
        # tr2 @ tr3"
    and reads: "runs read_packet_with_timeout tr2 (Inr body)"
    and judged: "runs (judge_client env mode protocol attested nonce body) tr3 (Inr r)"
    using assms
    by (auto simp: authenticate_server_def runs_simps runs_bind_ok_Inr runs_write_packet split_sum_ex
        split: sum.splits)
  from runs_read_packet [OF reads] obtain header where "tr2 = [Got header, Got body]"
      "header @ body = frame_packet body" "length body \<le> 4096" by auto
  with runs_judge_client [OF att judged] nonce tr show ?thesis by fastforce
qed

lemma runs_answer_hello:
  assumes "runs (answer_hello env mode protocol body) tr (Inr r)"
  shows "\<exists>p nonce header reason. body = encode_hello (scheme_id mode) p nonce
           \<and> compatible protocol p \<and> r = Some (proto_version p)
           \<and> header @ encode_ack ACK_OK reason = frame_packet (encode_ack ACK_OK reason)
           \<and> length (encode_ack ACK_OK reason) \<le> 4096
           \<and> tr = [Wrote (frame_packet (encode_client_auth (scheme_id mode) protocol
                    (client_proof env mode nonce))), Got header, Got (encode_ack ACK_OK reason)]"
proof -
  obtain s p nonce where "foreign_version body = None" "decode_hello body = Inr (s, p, nonce)"
    and s: "s = scheme_id mode" "compatible protocol p"
      "runs (bind_ok (write_packet (encode_client_auth s protocol (client_proof env mode nonce))) (\<lambda>_.
         bind_ok read_packet_with_timeout (\<lambda>ack_body.
           case decode_ack ack_body of
             Inl e \<Rightarrow> Ret (Inl e) | Inr u \<Rightarrow> Ret (Inr (Some (proto_version p)))))) tr (Inr r)"
    using assms
    by (auto simp: answer_hello_def Let_def incompatibility_None [symmetric] runs_bind_ok_Inr
        simp del: incompatibility_None split: option.splits sum.splits if_splits)
  then have body: "body = encode_hello s p nonce" using current_hello by blast
  obtain tr2 ack where read: "runs read_packet_with_timeout tr2 (Inr ack)"
    and ack: "decode_ack ack = Inr ()" "r = Some (proto_version p)"
      "tr = Wrote (frame_packet (encode_client_auth s protocol (client_proof env mode nonce))) # tr2"
    using s(3) by (auto simp: runs_bind_ok_Inr runs_write_packet runs_verdict)
  from runs_read_packet [OF read] obtain header where "tr2 = [Got header, Got ack]"
      "header @ ack = frame_packet ack" "length ack \<le> 4096" by auto
  moreover from ack(1) obtain reason where "ack = encode_ack ACK_OK reason"
    unfolding decode_ack_ok by blast
  ultimately show ?thesis using body s(1,2) ack(2,3) by auto
qed

lemma runs_client:
  assumes "runs (authenticate_client env mode protocol) tr (Inr r)" and "mode \<noteq> Disabled"
  shows "\<exists>h1 p nonce h2 reason.
           compatible protocol p \<and> r = Some (proto_version p)
         \<and> h1 @ encode_hello (scheme_id mode) p nonce
           = frame_packet (encode_hello (scheme_id mode) p nonce)
         \<and> h2 @ encode_ack ACK_OK reason = frame_packet (encode_ack ACK_OK reason)
         \<and> length (encode_hello (scheme_id mode) p nonce) \<le> 4096 \<and> length (encode_ack ACK_OK reason) \<le> 4096
         \<and> tr = [Got h1, Got (encode_hello (scheme_id mode) p nonce),
                Wrote (frame_packet (encode_client_auth (scheme_id mode) protocol
                  (client_proof env mode nonce))),
                Got h2, Got (encode_ack ACK_OK reason)]"
proof -
  obtain tr1 body tr2 where tr: "tr = tr1 @ tr2"
    and read: "runs read_packet_with_timeout tr1 (Inr body)"
    and answer: "runs (answer_hello env mode protocol body) tr2 (Inr r)"
    using assms
    by (auto simp: authenticate_client_def runs_bind_ok_Inr split: if_splits sum.splits)
  from runs_read_packet [OF read] obtain h1 where "tr1 = [Got h1, Got body]"
      "h1 @ body = frame_packet body" "length body \<le> 4096" by auto
  with runs_answer_hello [OF answer] tr show ?thesis by fastforce
qed

section \<open>The message authentication code\<close>

text \<open>
  The laws of the \<open>hmac\<close> crate the handshake relies on: a tag of 32 bytes, and a verification
  that accepts exactly the tag.
\<close>

locale hmac_laws =
  fixes env :: "('k, 'g, 's) hs_env"
  assumes tag_length: "length (hmac_sha256 env key msg) = 32"
    and verify_iff: "hmac_verify env key msg tag \<longleftrightarrow> tag = hmac_sha256 env key msg"
begin

lemma verify_slice_iff: "mac_verify_slice env mac tag \<longleftrightarrow> tag = mac_finalize env mac"
  by (simp add: mac_verify_slice_def mac_finalize_def verify_iff)

lemma client_proof_verifies:
  "mac_verify_slice env (hmac_with_nonce key nonce) (client_proof env (HmacSha256 key) nonce)"
  by (simp add: verify_slice_iff client_proof_def)

lemma client_proof_length: "length (client_proof env mode nonce) \<le> 32"
  by (cases mode) (simp_all add: client_proof_def mac_finalize_def tag_length)

end

lemma hmac_input:
  "mac_key (hmac_with_nonce key nonce) = key"
  "mac_fed (hmac_with_nonce key nonce) = HMAC_LABEL @ to_le 2 HANDSHAKE_VERSION @ nonce"
  by (simp_all add: hmac_with_nonce_def Let_def)

end
