(* ===== verification/Hmac_Sha256.thy ===== *)
theory Hmac_Sha256
  imports Handshake
begin

text \<open>
  HMAC-SHA-256 as its standards define it (FIPS 180-4, RFC 2104): the function the
  \<open>hmac\<close> and \<open>sha2\<close> crates document. It instantiates the parameters of \<open>hs_env\<close>, so that
  \<open>hmac_laws\<close> holds of the algorithm the handshake names.
\<close>

section \<open>SHA-256\<close>

definition from_be4 :: "bytes \<Rightarrow> u32" where
  "from_be4 bs = from_le (rev bs)"

definition to_be4 :: "u32 \<Rightarrow> bytes" where
  "to_be4 w = rev (to_le 4 w)"

text \<open>
  The constants are computed the way the standard introduces them: the first 32 bits of the
  fractional parts of the cube roots of the first 64 primes (the rounds) and of the square roots of
  the first eight (the initial state). \<open>int_root e x n acc\<close> fixes the root bit by bit, from bit
  \<open>n - 1\<close> down; 37 bits are enough, since the primes are below 2 ^ 10.
\<close>

primrec int_root :: "nat \<Rightarrow> int \<Rightarrow> nat \<Rightarrow> int \<Rightarrow> int" where
  "int_root e x 0 acc = acc"
| "int_root e x (Suc n) acc =
     (let r = acc + 2 ^ n in int_root e x n (if r ^ e \<le> x then r else acc))"

definition root_fraction :: "nat \<Rightarrow> int \<Rightarrow> u32" where
  "root_fraction e p = word_of_int (int_root e (p * 2 ^ (32 * e)) 37 0)"

definition small_primes :: "int list" where
  "small_primes = filter (\<lambda>n. list_all (\<lambda>d. n mod d \<noteq> 0) [2..n - 1]) [2..311]"

definition round_constants :: "u32 list" where
  "round_constants = map (root_fraction 3) small_primes"

datatype sha_state = Sha u32 u32 u32 u32 u32 u32 u32 u32

fun sha_of_words :: "u32 list \<Rightarrow> sha_state" where
  "sha_of_words [a, b, c, d, e, f, g, h] = Sha a b c d e f g h"
| "sha_of_words _ = Sha 0 0 0 0 0 0 0 0"

definition sha_init :: sha_state where
  "sha_init = sha_of_words (map (root_fraction 2) (take 8 small_primes))"

fun sha_round :: "u32 \<times> u32 \<Rightarrow> sha_state \<Rightarrow> sha_state" where
  "sha_round (k, w) (Sha a b c d e f g h) =
     (let t1 = h + (word_rotr 6 e XOR word_rotr 11 e XOR word_rotr 25 e)
               + ((e AND f) XOR (NOT e AND g)) + k + w;
          t2 = (word_rotr 2 a XOR word_rotr 13 a XOR word_rotr 22 a)
               + ((a AND b) XOR (a AND c) XOR (b AND c))
      in Sha (t1 + t2) a b c (d + t1) e f g)"

fun sha_add :: "sha_state \<Rightarrow> sha_state \<Rightarrow> sha_state" where
  "sha_add (Sha a b c d e f g h) (Sha a' b' c' d' e' f' g' h') =
     Sha (a + a') (b + b') (c + c') (d + d') (e + e') (f + f') (g + g') (h + h')"

text \<open>The message schedule, the latest word first.\<close>

primrec schedule :: "nat \<Rightarrow> u32 list \<Rightarrow> u32 list" where
  "schedule 0 ws = ws"
| "schedule (Suc n) ws =
     (let w2 = ws ! 1; w15 = ws ! 14;
          s0 = word_rotr 7 w15 XOR word_rotr 18 w15 XOR drop_bit 3 w15;
          s1 = word_rotr 17 w2 XOR word_rotr 19 w2 XOR drop_bit 10 w2
      in schedule n ((s1 + ws ! 6 + s0 + ws ! 15) # ws))"

primrec split_every :: "nat \<Rightarrow> nat \<Rightarrow> bytes \<Rightarrow> bytes list" where
  "split_every n 0 bs = []"
| "split_every n (Suc m) bs = take n bs # split_every n m (drop n bs)"

definition sha_block :: "bytes \<Rightarrow> sha_state \<Rightarrow> sha_state" where
  "sha_block block st =
     (let ws = rev (schedule 48 (rev (map from_be4 (split_every 4 16 block))))
      in sha_add st (fold sha_round (zip round_constants ws) st))"

definition sha_pad :: "bytes \<Rightarrow> bytes" where
  "sha_pad m =
     m @ [0x80] @ replicate ((119 - length m mod 64) mod 64) 0 @ rev (to_le 8 (word_of_nat (8 * length m) :: u64))"

fun sha_digest :: "sha_state \<Rightarrow> bytes" where
  "sha_digest (Sha a b c d e f g h) = concat (map to_be4 [a, b, c, d, e, f, g, h])"

definition sha256 :: "bytes \<Rightarrow> bytes" where
  "sha256 m = sha_digest (fold sha_block (split_every 64 (length (sha_pad m) div 64) (sha_pad m)) sha_init)"

section \<open>HMAC\<close>

definition hmac :: "bytes \<Rightarrow> bytes \<Rightarrow> bytes" where
  "hmac key m =
     (let k = (if 64 < length key then sha256 key else key);
          k = k @ replicate (64 - length k) 0
      in sha256 (map (\<lambda>b. b XOR 0x5c) k @ sha256 (map (\<lambda>b. b XOR 0x36) k @ m)))"

definition with_rfc_hmac :: "('k, 'g, 's) hs_env \<Rightarrow> ('k, 'g, 's) hs_env" where
  "with_rfc_hmac env = env\<lparr>hmac_sha256 := hmac, hmac_verify := (\<lambda>key m tag. tag = hmac key m)\<rparr>"

lemma length_sha256: "length (sha256 m) = 32"
  by (cases "fold sha_block (split_every 64 (length (sha_pad m) div 64) (sha_pad m)) sha_init")
    (simp add: sha256_def to_be4_def)

interpretation rfc_hmac: hmac_laws "with_rfc_hmac env" for env
  by unfold_locales (simp_all add: with_rfc_hmac_def hmac_def Let_def length_sha256)

end
