(* ===== verification/Duplex.thy ===== *)
theory Duplex
  imports Effects
begin

text \<open>
  Two \<open>io\<close> programs joined by a connection: each reads the bytes the other wrote, in order.
  A step is one call of either side, and the step relation leaves the choice of the side
  open. A write is taken at once; a read waits until the bytes are there, or fails at the end
  of the stream once the other side has failed and dropped its connection. Timeouts do not
  fire: the sides are timely. The operating system of a side answers its calls from a fixed
  \<open>sys\<close>.

  The step relation has the diamond property, so a single schedule that comes to an end
  decides how every schedule ends (\<open>ends_with\<close>).
\<close>

section \<open>Steps\<close>

record sys =
  sys_random :: "nat \<Rightarrow> string + bytes"
  sys_open :: "u32 \<Rightarrow> io_error + nat"
  sys_times :: "nat \<Rightarrow> io_error + u32 \<times> u32"
  sys_image :: "nat \<Rightarrow> io_error + string"
  sys_file :: "string \<Rightarrow> io_error + bytes"

definition deliver :: "nat \<Rightarrow> (io_error + bytes \<Rightarrow> 'a io) \<Rightarrow> bytes \<Rightarrow> bool
    \<Rightarrow> ('a io \<times> bytes \<times> bytes) option" where
  "deliver n k incoming peer_gone =
     (if n \<le> length incoming then Some (k (Inr (take n incoming)), drop n incoming, [])
      else if peer_gone then Some (k (Inl UnexpectedEof), [], [])
      else None)"

text \<open>One call of one side: the program after it, the bytes left to read, the bytes written.\<close>

fun local_step :: "sys \<Rightarrow> 'a io \<Rightarrow> bytes \<Rightarrow> bool \<Rightarrow> ('a io \<times> bytes \<times> bytes) option" where
  "local_step s (Ret a) incoming peer_gone = None"
| "local_step s Panic incoming peer_gone = None"
| "local_step s (WriteAll bs k) incoming peer_gone = Some (k (Inr ()), incoming, bs)"
| "local_step s (ReadExact n k) incoming peer_gone = deliver n k incoming peer_gone"
| "local_step s (TimedRead n k p) incoming peer_gone = deliver n k incoming peer_gone"
| "local_step s (FillRandom n k) incoming peer_gone = Some (k (sys_random s n), incoming, [])"
| "local_step s (OpenProcess pid k) incoming peer_gone = Some (k (sys_open s pid), incoming, [])"
| "local_step s (ProcessTimes h k) incoming peer_gone = Some (k (sys_times s h), incoming, [])"
| "local_step s (ProcessImageName h k) incoming peer_gone = Some (k (sys_image s h), incoming, [])"
| "local_step s (CloseHandle h p) incoming peer_gone = Some (p, incoming, [])"
| "local_step s (ReadFile path k) incoming peer_gone = Some (k (sys_file s path), incoming, [])"

text \<open>A side that failed has dropped its connection.\<close>

fun gone :: "('e + 'a) io \<Rightarrow> bool" where
  "gone (Ret (Inl e)) = True"
| "gone p = False"

type_synonym ('e, 'a, 'f, 'b) duplex = "('e + 'a) io \<times> ('f + 'b) io \<times> bytes \<times> bytes"

inductive step :: "sys \<Rightarrow> sys \<Rightarrow> ('e, 'a, 'f, 'b) duplex \<Rightarrow> ('e, 'a, 'f, 'b) duplex \<Rightarrow> bool"
  for sl sr where
  left_step: "local_step sl p a (gone q) = Some (p', a', out)
     \<Longrightarrow> step sl sr (p, q, a, b) (p', q, a', b @ out)"
| right_step: "local_step sr q b (gone p) = Some (q', b', out)
     \<Longrightarrow> step sl sr (p, q, a, b) (p, q', a @ out, b')"

inductive_cases stepE: "step sl sr (p, q, a, b) y"

section \<open>Scheduling does not matter\<close>

lemma local_step_not_gone: "local_step s p a g = Some r \<Longrightarrow> \<not> gone p"
  by (cases p) auto

lemma local_step_more:
  "local_step s p a False = Some (p', a', out) \<Longrightarrow> local_step s p (a @ x) g = Some (p', a' @ x, out)"
  by (cases p) (auto simp: deliver_def split: if_splits)

lemma step_diamond:
  assumes "step sl sr x y" and "step sl sr x z"
  shows "y = z \<or> (\<exists>u. step sl sr y u \<and> step sl sr z u)"
proof -
  obtain p q a b where x: "x = (p, q, a, b)" by (cases x)
  have both: "\<exists>u. step sl sr (p', q, a', b @ out) u \<and> step sl sr (p, q', a @ out', b') u"
    if l: "local_step sl p a (gone q) = Some (p', a', out)"
      and r: "local_step sr q b (gone p) = Some (q', b', out')" for p' a' out q' b' out'
  proof -
    have "\<not> gone p" "\<not> gone q" using l r by (auto dest: local_step_not_gone)
    with l r have "local_step sr q (b @ out) (gone p') = Some (q', b' @ out, out')"
      "local_step sl p (a @ out') (gone q') = Some (p', a' @ out', out)"
      by (auto intro: local_step_more)
    then have "step sl sr (p', q, a', b @ out) (p', q', a' @ out', b' @ out)"
      "step sl sr (p, q', a @ out', b') (p', q', a' @ out', b' @ out)"
      by (auto intro: step.intros)
    then show ?thesis by blast
  qed
  from assms show ?thesis
    unfolding x by (elim stepE) (auto dest: both)
qed

text \<open>
  Every schedule from \<open>x\<close> is finite and goes on to the end with the given results, whatever
  was done so far.
\<close>

definition ends_with :: "sys \<Rightarrow> sys \<Rightarrow> ('e, 'a, 'f, 'b) duplex \<Rightarrow> 'e + 'a \<Rightarrow> 'f + 'b \<Rightarrow> bool" where
  "ends_with sl sr x ra rb \<longleftrightarrow>
     (\<exists>n a b. \<forall>k y. (step sl sr ^^ k) x y \<longrightarrow>
        k \<le> n \<and> (step sl sr ^^ (n - k)) y (Ret ra, Ret rb, a, b))"

lemma diamond_same_end:
  assumes "(step sl sr ^^ n) x f" and "\<And>y. \<not> step sl sr f y" and "step sl sr x y"
  shows "0 < n \<and> (step sl sr ^^ (n - 1)) y f"
  using assms(1,3)
proof (induction n arbitrary: x y)
  case 0
  then show ?case using assms(2) by auto
next
  case (Suc n)
  then obtain z where z: "step sl sr x z" "(step sl sr ^^ n) z f" by (metis relpowp_Suc_D2)
  show ?case
  proof (cases "y = z")
    case True
    then show ?thesis using z by simp
  next
    case False
    then obtain u where u: "step sl sr y u" "step sl sr z u"
      using step_diamond [OF Suc.prems(2) z(1)] by auto
    from Suc.IH [OF z(2) u(2)] have "0 < n" "(step sl sr ^^ (n - 1)) u f" by auto
    then have "(step sl sr ^^ n) y f"
      using u(1) by (metis relpowp_Suc_I2 Suc_diff_1)
    then show ?thesis by simp
  qed
qed

lemma ends_withI:
  assumes "(step sl sr)\<^sup>*\<^sup>* x (Ret ra, Ret rb, a, b)"
  shows "ends_with sl sr x ra rb"
proof -
  obtain n where n: "(step sl sr ^^ n) x (Ret ra, Ret rb, a, b)"
    using assms by (auto simp: rtranclp_power)
  have stuck: "\<not> step sl sr (Ret ra, Ret rb, a, b) y" for y
    by (auto elim!: stepE)
  have "k \<le> n \<and> (step sl sr ^^ (n - k)) y (Ret ra, Ret rb, a, b)" if "(step sl sr ^^ k) x y" for k y
    using that
  proof (induction k arbitrary: y)
    case (Suc k)
    then obtain z where z: "(step sl sr ^^ k) x z" "step sl sr z y" by auto
    have "k \<le> n" "(step sl sr ^^ (n - k)) z (Ret ra, Ret rb, a, b)" using Suc.IH [OF z(1)] by auto
    with diamond_same_end [OF this(2) stuck z(2)] show ?case by (simp add: Suc_le_eq)
  qed (use n in simp)
  then show ?thesis unfolding ends_with_def by blast
qed

section \<open>Sides\<close>

fun flip :: "'p \<times> 'q \<times> bytes \<times> bytes \<Rightarrow> 'q \<times> 'p \<times> bytes \<times> bytes" where
  "flip (p, q, a, b) = (q, p, b, a)"

lemma step_flip: "step sl sr x y \<Longrightarrow> step sr sl (flip x) (flip y)"
  by (induction rule: step.induct) (auto intro: step.intros)

lemma steps_flip: "(step sl sr)\<^sup>*\<^sup>* x y \<Longrightarrow> (step sr sl)\<^sup>*\<^sup>* (flip x) (flip y)"
  by (induction rule: rtranclp_induct) (auto intro: rtranclp.rtrancl_into_rtrancl step_flip)

text \<open>
  The result of a program that only calls its operating system, and the steps it takes beside
  an idle peer.
\<close>

primrec perform :: "sys \<Rightarrow> 'a io \<Rightarrow> 'a option" where
  "perform s (Ret a) = Some a"
| "perform s Panic = None"
| "perform s (WriteAll bs k) = None"
| "perform s (ReadExact n k) = None"
| "perform s (TimedRead n k p) = None"
| "perform s (FillRandom n k) = perform s (k (sys_random s n))"
| "perform s (OpenProcess pid k) = perform s (k (sys_open s pid))"
| "perform s (ProcessTimes h k) = perform s (k (sys_times s h))"
| "perform s (ProcessImageName h k) = perform s (k (sys_image s h))"
| "perform s (CloseHandle h p) = perform s p"
| "perform s (ReadFile path k) = perform s (k (sys_file s path))"

lemma left_call:
  assumes "local_step sl p a (gone q) = Some (p', a, [])" and "(step sl sr)\<^sup>*\<^sup>* (p', q, a, b) z"
  shows "(step sl sr)\<^sup>*\<^sup>* (p, q, a, b) z"
  using left_step [OF assms(1), of sr b] assms(2) by (simp add: converse_rtranclp_into_rtranclp)

lemma left_perform:
  "perform sl p = Some r \<Longrightarrow> (step sl sr)\<^sup>*\<^sup>* (io_bind p f, q, a, b) (f r, q, a, b)"
proof (induction p)
  case (FillRandom n k)
  show ?case
    by (rule left_call [where p' = "io_bind (k (sys_random sl n)) f"]) (use FillRandom in simp_all)
next
  case (OpenProcess pid k)
  show ?case
    by (rule left_call [where p' = "io_bind (k (sys_open sl pid)) f"]) (use OpenProcess in simp_all)
next
  case (ProcessTimes h k)
  show ?case
    by (rule left_call [where p' = "io_bind (k (sys_times sl h)) f"]) (use ProcessTimes in simp_all)
next
  case (ProcessImageName h k)
  show ?case
    by (rule left_call [where p' = "io_bind (k (sys_image sl h)) f"]) (use ProcessImageName in simp_all)
next
  case (CloseHandle h p)
  show ?case
    by (rule left_call [where p' = "io_bind p f"]) (use CloseHandle in simp_all)
next
  case (ReadFile path k)
  show ?case
    by (rule left_call [where p' = "io_bind (k (sys_file sl path)) f"]) (use ReadFile in simp_all)
qed auto

end
