(* ===== verification/Handshake_Duplex.thy ===== *)
theory Handshake_Duplex
  imports Hmac_Sha256 Duplex
begin

text \<open>
  The two halves of the handshake against each other: the outcome of
  \<open>authenticate_server\<close> and \<open>authenticate_client\<close> joined by a connection, for every
  interleaving of their calls.
\<close>

section \<open>Packets between two sides\<close>

lemma left_write:
  "step sl sr (bind_ok (write_packet body) f, q, a, b) (f (), q, a, b @ frame_packet body)"
  by (rule left_step) (simp add: bind_ok_def write_packet_def)

lemma left_refuse:
  "step sl sr (refuse reason report, q, a, b)
     (Ret (Inl report), q, a, b @ frame_packet (encode_ack ACK_REJECTED reason))"
  by (rule left_step) (simp add: refuse_def write_packet_def)

lemma take_frame_header:
  assumes "length body \<le> 4096"
  shows "from_le (take 4 (frame_packet body @ a)) = (word_of_nat (length body) :: u32)"
    and "\<not> MAX_PACKET_LEN < (word_of_nat (length body) :: u32)"
    and "unat (word_of_nat (length body) :: u32) = length body"
  using assms
  by (simp_all add: frame_packet_def from_le_to_le MAX_PACKET_LEN_def word_less_nat_alt unat_of_nat_u32)

lemma left_read:
  assumes "length body \<le> 4096"
  shows "(step sl sr)\<^sup>*\<^sup>* (bind_ok read_packet_with_timeout f, q, frame_packet body @ a, b) (f body, q, a, b)"
proof -
  let ?k = "\<lambda>r. io_bind (case r of Inl e \<Rightarrow> Ret (Inl hs_io) | Inr body \<Rightarrow> Ret (Inr body))
      (\<lambda>r. case r of Inl e \<Rightarrow> Ret (Inl e) | Inr a \<Rightarrow> f a)"
  let ?timeout = "Ret (Inl (Report Timeout []))"
  have "step sl sr (bind_ok read_packet_with_timeout f, q, frame_packet body @ a, b)
      (TimedRead (length body) ?k ?timeout, q, body @ a, b @ [])"
    by (rule left_step) (use take_frame_header [OF assms] in
        \<open>simp add: bind_ok_def with_timeout_read_packet deliver_def Let_def frame_packet_def\<close>)
  moreover have "step sl sr (TimedRead (length body) ?k ?timeout, q, body @ a, b @ []) (f body, q, a, (b @ []) @ [])"
    by (rule left_step) (simp add: deliver_def)
  ultimately show ?thesis by (simp add: converse_rtranclp_into_rtranclp)
qed

lemma right_write:
  "step sl sr (p, bind_ok (write_packet body) f, a, b) (p, f (), a @ frame_packet body, b)"
  using step_flip [OF left_write] by simp

lemma right_read:
  assumes "length body \<le> 4096"
  shows "(step sl sr)\<^sup>*\<^sup>* (p, bind_ok read_packet_with_timeout f, a, frame_packet body @ b) (p, f body, a, b)"
  using steps_flip [OF left_read [OF assms]] by simp

lemma left_eof:
  assumes "gone q"
  shows "step sl sr (bind_ok read_packet_with_timeout f, q, [], b) (Ret (Inl hs_io), q, [], b)"
  using assms left_step [of sl "bind_ok read_packet_with_timeout f" "[]" q "Ret (Inl hs_io)" "[]" "[]" sr b]
  by (simp add: bind_ok_def with_timeout_read_packet deliver_def)

section \<open>The exchange up to the verdict\<close>

text \<open>The server has sent its hello and waits; the client has not started.\<close>

lemma server_says_hello:
  assumes "mode \<noteq> Disabled" and "attested_pid env c mode = Inr attested"
    and "sys_random sl NONCE_LEN = Inr nonce"
  shows "(step sl sr)\<^sup>*\<^sup>* (authenticate_server env c mode protocol, q, [], [])
    (bind_ok read_packet_with_timeout (judge_client env mode protocol attested nonce), q, [],
     frame_packet (encode_hello (scheme_id mode) protocol nonce))"
proof -
  let ?rest = "bind_ok read_packet_with_timeout (judge_client env mode protocol attested nonce)"
  let ?hello = "encode_hello (scheme_id mode) protocol nonce"
  have "step sl sr (authenticate_server env c mode protocol, q, [], [])
      (bind_ok (write_packet ?hello) (\<lambda>_. ?rest), q, [], [] @ [])"
    by (rule left_step) (use assms in \<open>simp add: authenticate_server_def\<close>)
  moreover have "step sl sr (bind_ok (write_packet ?hello) (\<lambda>_. ?rest), q, [], [] @ [])
      (?rest, q, [], ([] @ []) @ frame_packet ?hello)"
    by (rule left_write)
  ultimately show ?thesis by (simp add: converse_rtranclp_into_rtranclp)
qed

lemma hello_not_ack: "encode_hello s p n \<noteq> [] \<and> hd (encode_hello s p n) \<noteq> TAG_ACK"
  by (simp add: encode_hello_def write_hello_def packet_defs)

lemma client_reads_first:
  assumes "mode \<noteq> Disabled" and "length body \<le> 4096"
  shows "(step sl sr)\<^sup>*\<^sup>* (p, authenticate_client env mode protocol, a, frame_packet body)
    (p, if body \<noteq> [] \<and> hd body = TAG_ACK
        then (case decode_ack body of Inl e \<Rightarrow> Ret (Inl e) | Inr u \<Rightarrow> Ret (Inl (malformed ''hello'')))
        else answer_hello env mode protocol body, a, [])"
  using assms(1) right_read [OF assms(2), where b = "[]" and a = a and p = p and f = "\<lambda>hello_body.
      if hello_body \<noteq> [] \<and> hd hello_body = TAG_ACK
      then (case decode_ack hello_body of Inl e \<Rightarrow> Ret (Inl e) | Inr u \<Rightarrow> Ret (Inl (malformed ''hello'')))
      else answer_hello env mode protocol hello_body"]
  by (simp add: authenticate_client_def)

lemma client_reads_hello:
  assumes "mode \<noteq> Disabled" and "length nonce = NONCE_LEN"
  shows "(step sl sr)\<^sup>*\<^sup>*
    (p, authenticate_client env mode protocol, [], frame_packet (encode_hello s sp nonce))
    (p, answer_hello env mode protocol (encode_hello s sp nonce), [], [])"
  using client_reads_first [OF assms(1), of "encode_hello s sp nonce"] assms(2) hello_not_ack [of s sp nonce]
  by (simp add: NONCE_LEN_def)

lemma current_version [simp]:
  "foreign_version (encode_hello s p n) = None" "foreign_version (encode_client_auth s p n) = None"
  by (simp_all add: foreign_version_def)

text \<open>What the client does with a hello of the current version.\<close>

lemma answer_current_hello:
  assumes "length nonce < 2 ^ 16"
  shows "answer_hello env mode protocol (encode_hello s sp nonce) =
    (if s \<noteq> scheme_id mode then
       Ret (Inl (Report SchemeMismatch
         [Text (''server='' @ show_nat (unat s) @ '' client='' @ show_nat (unat (scheme_id mode)))]))
     else
       bind_ok (write_packet (encode_client_auth s protocol (client_proof env mode nonce))) (\<lambda>_.
         case incompatibility protocol sp of
           Some (error, reason) \<Rightarrow> Ret (Inl (Report error [Text reason]))
         | None \<Rightarrow>
             bind_ok read_packet_with_timeout (\<lambda>ack_body.
               case decode_ack ack_body of
                 Inl e \<Rightarrow> Ret (Inl e) | Inr u \<Rightarrow> Ret (Inr (Some (proto_version sp))))))"
  using assms by (simp add: answer_hello_def)

lemma judge_current_client:
  assumes "length pf < 2 ^ 16"
  shows "judge_client env mode protocol attested nonce (encode_client_auth (scheme_id mode) cp pf) =
    (case incompatibility protocol cp of
       Some (error, reason) \<Rightarrow> refuse (as_bytes reason) (Report error [Text reason])
     | None \<Rightarrow>
         bind_ok (check_proof env mode attested nonce pf) (\<lambda>_.
         bind_ok (write_packet (encode_ack ACK_OK [])) (\<lambda>_. Ret (Inr (Some (proto_version cp))))))"
  using assms by (simp add: judge_client_def)

text \<open>
  With equal schemes the client's proof reaches the server: the server is left with its
  judgement, the client with its own check of the server's protocol.
\<close>

lemma exchange_reaches_verdicts:
  assumes "hmac_laws env"
    and "smode \<noteq> Disabled" and "cmode \<noteq> Disabled" and "scheme_id smode = scheme_id cmode"
    and "attested_pid env c smode = Inr attested"
    and "sys_random sl NONCE_LEN = Inr nonce" and "length nonce = NONCE_LEN"
  shows "(step sl sr)\<^sup>*\<^sup>*
    (authenticate_server env c smode sp, authenticate_client env cmode cp, [], [])
    (judge_client env smode sp attested nonce
       (encode_client_auth (scheme_id smode) cp (client_proof env cmode nonce)),
     case incompatibility cp sp of
       Some (error, reason) \<Rightarrow> Ret (Inl (Report error [Text reason]))
     | None \<Rightarrow>
         bind_ok read_packet_with_timeout (\<lambda>ack_body.
           case decode_ack ack_body of
             Inl e \<Rightarrow> Ret (Inl e) | Inr u \<Rightarrow> Ret (Inr (Some (proto_version sp)))), [], [])"
proof -
  let ?judge = "judge_client env smode sp attested nonce"
  let ?waiting = "bind_ok read_packet_with_timeout ?judge"
  let ?hello = "encode_hello (scheme_id smode) sp nonce"
  let ?auth = "encode_client_auth (scheme_id smode) cp (client_proof env cmode nonce)"
  have "length ?auth \<le> 4096"
    using hmac_laws.client_proof_length [OF assms(1), of cmode nonce] by simp
  note auth_read = left_read [OF this, where a = "[]"]
  let ?rest = "case incompatibility cp sp of
       Some (error, reason) \<Rightarrow> Ret (Inl (Report error [Text reason]))
     | None \<Rightarrow>
         bind_ok read_packet_with_timeout (\<lambda>ack_body.
           case decode_ack ack_body of
             Inl e \<Rightarrow> Ret (Inl e) | Inr u \<Rightarrow> Ret (Inr (Some (proto_version sp))))"
  have "step sl sr (?waiting, bind_ok (write_packet ?auth) (\<lambda>_. ?rest), [], [])
      (?waiting, ?rest, [] @ frame_packet ?auth, [])"
    by (rule right_write)
  then have answer: "(step sl sr)\<^sup>*\<^sup>* (?waiting, answer_hello env cmode cp ?hello, [], [])
      (?waiting, ?rest, frame_packet ?auth, [])"
    using assms(4,7) by (simp add: answer_current_hello NONCE_LEN_def r_into_rtranclp)
  have judged: "(step sl sr)\<^sup>*\<^sup>* (?waiting, ?rest, frame_packet ?auth, []) (?judge ?auth, ?rest, [], [])"
    using auth_read [of sl sr ?judge ?rest "[]"] by simp
  show ?thesis
    by (rule rtranclp_trans [OF rtranclp_trans [OF rtranclp_trans [OF
              server_says_hello [OF assms(2,5,6)] client_reads_hello [OF assms(3,7)]] answer] judged])
qed

section \<open>Endings\<close>

text \<open>The client reads the ack that decides the handshake.\<close>

definition await_ack :: "protocol \<Rightarrow> (hs_report + version option) io" where
  "await_ack sp =
     bind_ok read_packet_with_timeout (\<lambda>ack_body.
       case decode_ack ack_body of
         Inl e \<Rightarrow> Ret (Inl e) | Inr u \<Rightarrow> Ret (Inr (Some (proto_version sp))))"

lemma decode_any_ack:
  assumes "length reason < 2 ^ 16"
  shows "decode_ack (encode_ack status reason) =
    (if status = ACK_OK then Inr () else Inl (Report Rejected [LossyUtf8 reason]))"
proof (cases "status = ACK_OK")
  case True
  then have "decode_ack (encode_ack status reason) = Inr ()"
    unfolding decode_ack_ok using assms by blast
  then show ?thesis using True by simp
qed (use assms in \<open>simp add: decode_ack_rejected\<close>)

lemma client_reads_ack:
  assumes "length reason \<le> 4000"
  shows "(step sl sr)\<^sup>*\<^sup>* (p, await_ack sp, [], frame_packet (encode_ack status reason))
    (p, Ret (if status = ACK_OK then Inr (Some (proto_version sp))
             else Inl (Report Rejected [LossyUtf8 reason])), [], [])"
proof -
  have "length (encode_ack status reason) \<le> 4096" using assms by simp
  from right_read [OF this, of sl sr p "\<lambda>ack_body. case decode_ack ack_body of
        Inl e \<Rightarrow> Ret (Inl e) | Inr u \<Rightarrow> Ret (Inr (Some (proto_version sp)))" "[]" "[]"]
  show ?thesis using assms by (simp add: await_ack_def decode_any_ack split: if_splits)
qed

lemma server_accepts:
  "(step sl sr)\<^sup>*\<^sup>*
    (bind_ok (write_packet (encode_ack ACK_OK [])) (\<lambda>_. Ret (Inr v)), await_ack sp, [], [])
    (Ret (Inr v), Ret (Inr (Some (proto_version sp))), [], [])"
  using left_write [of sl sr "encode_ack ACK_OK []" "\<lambda>_. Ret (Inr v)" "await_ack sp" "[]" "[]"]
    client_reads_ack [of "[]" sl sr "Ret (Inr v)" sp ACK_OK]
  by (auto intro: converse_rtranclp_into_rtranclp)

lemma server_refuses:
  assumes "length reason \<le> 4000"
  shows "(step sl sr)\<^sup>*\<^sup>* (refuse reason report, await_ack sp, [], [])
    (Ret (Inl report), Ret (Inl (Report Rejected [LossyUtf8 reason])), [], [])"
  using left_refuse [of sl sr reason report "await_ack sp" "[]" "[]"]
    client_reads_ack [OF assms, of sl sr "Ret (Inl report)" sp ACK_REJECTED]
  by (auto simp: packet_defs intro: converse_rtranclp_into_rtranclp)

text \<open>The server's operating system lets the client of a mode pass.\<close>

definition attestation_passes :: "('k, 'g, 's) hs_env \<Rightarrow> sys \<Rightarrow> 's conn \<Rightarrow> handshake_mode \<Rightarrow> bool" where
  "attestation_passes env sl c mode =
     (case mode of
        SignedProcess key \<Rightarrow>
          (case conn_peer_identity (cfg_platform env) (peer_lookup env) c of
             Pid pid \<Rightarrow> perform sl (verify_signed_process env pid key) = Some (Inr ())
           | peer_identity.Unknown \<Rightarrow> False)
      | _ \<Rightarrow> True)"

lemma attestation_pid:
  "attestation_passes env sl c mode \<Longrightarrow> \<exists>attested. attested_pid env c mode = Inr attested"
  by (cases mode) (auto simp: attestation_passes_def attested_pid_def split: peer_identity.splits)

lemma proof_check_passes:
  assumes "hmac_laws env" and "attestation_passes env sl c mode"
    and "attested_pid env c mode = Inr attested"
  shows "(step sl sr)\<^sup>*\<^sup>* (bind_ok (check_proof env mode attested nonce (client_proof env mode nonce)) f, q, a, b)
    (f (), q, a, b)"
proof (cases mode)
  case (HmacSha256 key)
  then show ?thesis
    using hmac_laws.client_proof_verifies [OF assms(1)] by (simp add: check_proof_def bind_ok_def)
next
  case (SignedProcess key)
  then obtain pid where "attested = Some pid" "perform sl (verify_signed_process env pid key) = Some (Inr ())"
    using assms(2,3) by (auto simp: attestation_passes_def attested_pid_def split: peer_identity.splits)
  then show ?thesis
    using SignedProcess left_perform [of sl "verify_signed_process env pid key" "Inr ()" sr "\<lambda>r.
        io_bind (case r of Inl report \<Rightarrow> refuse (as_bytes ''signed-process verification failed'') report
                 | Inr u \<Rightarrow> Ret (Inr ())) (\<lambda>r. case r of Inl e \<Rightarrow> Ret (Inl e) | Inr u \<Rightarrow> f u)" q a b]
    by (simp add: check_proof_def bind_ok_def io_bind_assoc)
qed (simp_all add: check_proof_def bind_ok_def client_proof_def)

lemma compatible_sym: "compatible sp cp \<Longrightarrow> compatible cp sp"
  by (simp add: compatible_def)

lemma verdicts_compatible:
  assumes "hmac_laws env"
    and "smode \<noteq> Disabled" and "cmode \<noteq> Disabled" and "scheme_id smode = scheme_id cmode"
    and "attested_pid env c smode = Inr attested"
    and "sys_random sl NONCE_LEN = Inr nonce" and "length nonce = NONCE_LEN"
    and "compatible sp cp"
  shows "(step sl sr)\<^sup>*\<^sup>*
    (authenticate_server env c smode sp, authenticate_client env cmode cp, [], [])
    (bind_ok (check_proof env smode attested nonce (client_proof env cmode nonce)) (\<lambda>_.
       bind_ok (write_packet (encode_ack ACK_OK [])) (\<lambda>_. Ret (Inr (Some (proto_version cp))))),
     await_ack sp, [], [])"
proof -
  have "incompatibility cp sp = None" "incompatibility sp cp = None"
    using assms(8) compatible_sym by auto
  moreover have "length (client_proof env cmode nonce) < 2 ^ 16"
    using hmac_laws.client_proof_length [OF assms(1), of cmode nonce] by simp
  ultimately show ?thesis
    using exchange_reaches_verdicts [OF assms(1-7), of sr sp cp]
    by (simp add: judge_current_client await_ack_def del: incompatibility_None)
qed

section \<open>Outcomes\<close>

lemma honest_sides_succeed:
  assumes "hmac_laws env" and "mode \<noteq> Disabled" and "attestation_passes env sl c mode"
    and "sys_random sl NONCE_LEN = Inr nonce" and "length nonce = NONCE_LEN"
    and "compatible sp cp"
  shows "ends_with sl sr
           (authenticate_server env c mode sp, authenticate_client env mode cp, [], [])
           (Inr (Some (proto_version cp))) (Inr (Some (proto_version sp)))"
proof -
  obtain attested where att: "attested_pid env c mode = Inr attested"
    using attestation_pid [OF assms(3)] by blast
  show ?thesis
    by (rule ends_withI, rule rtranclp_trans [OF verdicts_compatible [OF assms(1,2,2) refl att assms(4-6)]],
        rule rtranclp_trans [OF proof_check_passes [OF assms(1,3) att] server_accepts])
qed

lemma incompatible_sides_fail:
  assumes "hmac_laws env"
    and "smode \<noteq> Disabled" and "cmode \<noteq> Disabled" and "scheme_id smode = scheme_id cmode"
    and "attested_pid env c smode = Inr attested"
    and "sys_random sl NONCE_LEN = Inr nonce" and "length nonce = NONCE_LEN"
    and "incompatibility sp cp = Some (e, why)"
  shows "\<exists>why'. incompatibility cp sp = Some (e, why')
    \<and> ends_with sl sr (authenticate_server env c smode sp, authenticate_client env cmode cp, [], [])
        (Inl (Report e [Text why])) (Inl (Report e [Text why']))"
proof -
  obtain why' where why': "incompatibility cp sp = Some (e, why')"
    using assms(8) by (auto simp: incompatibility_def split: if_splits)
  have "length (client_proof env cmode nonce) < 2 ^ 16"
    using hmac_laws.client_proof_length [OF assms(1), of cmode nonce] by simp
  then have "(step sl sr)\<^sup>*\<^sup>* (authenticate_server env c smode sp, authenticate_client env cmode cp, [], [])
      (refuse (as_bytes why) (Report e [Text why]), Ret (Inl (Report e [Text why'])), [], [])"
    using exchange_reaches_verdicts [OF assms(1-7), of sr sp cp] assms(8) why'
    by (simp add: judge_current_client)
  from rtranclp.rtrancl_into_rtrancl [OF this left_refuse] why' show ?thesis
    by (auto intro: ends_withI)
qed

lemma wrong_secret_fails:
  assumes "hmac_laws env"
    and "sys_random sl NONCE_LEN = Inr nonce" and "length nonce = NONCE_LEN"
    and "compatible sp cp"
    and "hmac_sha256 env ck (HMAC_LABEL @ to_le 2 HANDSHAKE_VERSION @ nonce)
         \<noteq> hmac_sha256 env sk (HMAC_LABEL @ to_le 2 HANDSHAKE_VERSION @ nonce)"
  shows "ends_with sl sr
           (authenticate_server env c (HmacSha256 sk) sp, authenticate_client env (HmacSha256 ck) cp, [], [])
           (Inl (Report InvalidProof []))
           (Inl (Report Rejected [LossyUtf8 (as_bytes ''invalid handshake proof'')]))"
proof -
  have att: "attested_pid env c (HmacSha256 sk) = Inr None" by (simp add: attested_pid_def)
  have "\<not> mac_verify_slice env (hmac_with_nonce sk nonce) (client_proof env (HmacSha256 ck) nonce)"
    using assms(5) hmac_laws.verify_slice_iff [OF assms(1)]
    by (simp add: client_proof_def mac_finalize_def hmac_input)
  then have refused: "bind_ok (check_proof env (HmacSha256 sk) None nonce (client_proof env (HmacSha256 ck) nonce)) f
      = refuse (as_bytes ''invalid handshake proof'') (Report InvalidProof [])"
    for f :: "unit \<Rightarrow> (hs_report + version option) io"
    by (simp add: check_proof_def refuse_def bind_ok_def io_bind_assoc)
  have "(step sl sr)\<^sup>*\<^sup>*
      (authenticate_server env c (HmacSha256 sk) sp, authenticate_client env (HmacSha256 ck) cp, [], [])
      (refuse (as_bytes ''invalid handshake proof'') (Report InvalidProof []), await_ack sp, [], [])"
    using verdicts_compatible [OF assms(1) _ _ _ att assms(2-4), of "HmacSha256 ck" sr]
    by (simp add: refused)
  from rtranclp_trans [OF this server_refuses] show ?thesis by (auto intro: ends_withI)
qed

text \<open>A client of another scheme notices it in the hello and sends nothing: under every
  interleaving the client reports the mismatch and the server the loss of the connection.\<close>

lemma handshake_scheme_mismatch:
  assumes "smode \<noteq> Disabled" and "cmode \<noteq> Disabled" and "scheme_id smode \<noteq> scheme_id cmode"
    and "attested_pid env c smode = Inr attested"
    and "sys_random sl NONCE_LEN = Inr nonce" and "length nonce = NONCE_LEN"
  shows "ends_with sl sr
           (authenticate_server env c smode sp, authenticate_client env cmode cp, [], [])
           (Inl (Report handshake_error.Io []))
           (Inl (Report SchemeMismatch
             [Text (''server='' @ show_nat (unat (scheme_id smode))
                    @ '' client='' @ show_nat (unat (scheme_id cmode)))]))"
proof -
  let ?waiting = "bind_ok read_packet_with_timeout (judge_client env smode sp attested nonce)"
  let ?mismatch = "Ret (Inl (Report SchemeMismatch
             [Text (''server='' @ show_nat (unat (scheme_id smode))
                    @ '' client='' @ show_nat (unat (scheme_id cmode)))])) :: (hs_report + version option) io"
  have "(step sl sr)\<^sup>*\<^sup>* (authenticate_server env c smode sp, authenticate_client env cmode cp, [], [])
      (?waiting, ?mismatch, [], [])"
    using rtranclp_trans [OF server_says_hello [OF assms(1,4,5)] client_reads_hello [OF assms(2,6)],
        where sr1 = sr] assms(3,6)
    by (simp add: answer_current_hello NONCE_LEN_def)
  from rtranclp.rtrancl_into_rtrancl [OF this left_eof] show ?thesis
    by (auto simp: hs_io_def intro: ends_withI)
qed

text \<open>A connection that is refused before the handshake.\<close>

lemma reject_writes:
  "step sl sr (reject_connection reason, q, a, []) (Ret (Inr ()), q, a, frame_packet (encode_ack ACK_REJECTED (as_bytes reason)))"
  using left_step [of sl "reject_connection reason" a q "Ret (Inr ())" a "frame_packet (encode_ack ACK_REJECTED (as_bytes reason))" sr "[]"]
  by (simp add: reject_connection_def write_packet_def)

lemma rejection_read:
  assumes "mode \<noteq> Disabled" and "length reason + 4 \<le> 4096"
  shows "(step sl sr)\<^sup>*\<^sup>* (p, authenticate_client env mode protocol, a, frame_packet (encode_ack ACK_REJECTED (as_bytes reason)))
    (p, Ret (Inl (Report Rejected [LossyUtf8 (as_bytes reason)])), a, [])"
proof -
  have "encode_ack ACK_REJECTED (as_bytes reason) \<noteq> [] \<and> hd (encode_ack ACK_REJECTED (as_bytes reason)) = TAG_ACK"
    by (simp add: encode_ack_def write_ack_def)
  then show ?thesis
    using client_reads_first [OF assms(1), of "encode_ack ACK_REJECTED (as_bytes reason)"] assms(2)
    by (simp add: decode_any_ack packet_defs)
qed

lemma rejection_too_long:
  assumes "mode \<noteq> Disabled" and "length reason + 4 < 2 ^ 32" and "\<not> length reason + 4 \<le> 4096"
  shows "step sl sr (p, authenticate_client env mode protocol, a, frame_packet (encode_ack ACK_REJECTED (as_bytes reason)))
    (p, Ret (Inl (Report MalformedPacket
       [Text (''declared packet length '' @ show_nat (length reason + 4) @ '' exceeds '' @ show_nat 4096)])), a,
     encode_ack ACK_REJECTED (as_bytes reason))"
proof -
  let ?body = "encode_ack ACK_REJECTED (as_bytes reason)"
  have len: "length ?body = length reason + 4" by simp
  have "from_le (take 4 (frame_packet ?body)) = (word_of_nat (length ?body) :: u32)"
    by (simp add: frame_packet_def from_le_to_le)
  moreover have "unat (word_of_nat (length ?body) :: u32) = length reason + 4"
    unfolding len using assms(2) by (rule unat_of_nat_u32)
  moreover have "drop 4 (frame_packet ?body) = ?body" by (simp add: frame_packet_def)
  ultimately show ?thesis
    using right_step [of sr "authenticate_client env mode protocol" "frame_packet ?body" p _ ?body "[]" sl a] assms
    by (simp add: authenticate_client_def bind_ok_def with_timeout_read_packet deliver_def Let_def MAX_PACKET_LEN_def
        word_less_nat_alt)
qed

section \<open>A sample environment\<close>

text \<open>A Linux build whose operating system attests nobody, over a given code.\<close>

definition sample_env :: "(bytes \<Rightarrow> bytes \<Rightarrow> bytes) \<Rightarrow> (unit, unit, nat) hs_env" where
  "sample_env code =
     \<lparr>cfg_platform = Linux, cfg_debug_assertions = False, io_text = (\<lambda>_. []),
      base64_decode = (\<lambda>_. None), key_from_bytes = (\<lambda>_. None), signature_from_slice = (\<lambda>_. None),
      verify_signature = (\<lambda>_ _ _. Inl []),
      peer_lookup = \<lparr>pipe_client_process_id = (\<lambda>_. None), socket_peercred = (\<lambda>_. Inl io_error.NotFound)\<rparr>,
      hmac_sha256 = code, hmac_verify = (\<lambda>key m tag. tag = code key m)\<rparr>"

definition sample_sys :: sys where
  "sample_sys =
     \<lparr>sys_random = (\<lambda>n. Inr (replicate n 7)), sys_open = (\<lambda>_. Inl io_error.NotFound),
      sys_times = (\<lambda>_. Inl io_error.NotFound), sys_image = (\<lambda>_. Inl io_error.NotFound),
      sys_file = (\<lambda>_. Inl io_error.NotFound)\<rparr>"

lemma sample_hmac: "hmac_laws (sample_env hmac)"
  by unfold_locales (simp_all add: sample_env_def hmac_def Let_def length_sha256)

lemma sample_attestation: "mode = VersionOnly \<or> mode = HmacSha256 key \<Longrightarrow> attestation_passes (sample_env code) sl c mode"
  by (auto simp: attestation_passes_def)

lemma sample_random: "sys_random sample_sys NONCE_LEN = Inr (replicate 32 7)"
  by (simp add: sample_sys_def NONCE_LEN_def)

section \<open>Properties\<close>

text \<open>C8: Two sides of the same mode that speak compatible versions of one protocol complete the
  handshake: under every interleaving both return, the server with the client's version and the
  client with the server's. For HMAC this includes that the client's proof verifies, for signed
  processes that the operating system attests the client.\<close>

theorem handshake_succeeds:
  assumes "hmac_laws env" and "mode \<noteq> Disabled" and "attestation_passes env sl c mode"
    and "sys_random sl NONCE_LEN = Inr nonce" and "length nonce = NONCE_LEN"
    and "compatible sp cp"
  shows "ends_with sl sr
           (authenticate_server env c mode sp, authenticate_client env mode cp, [], [])
           (Inr (Some (proto_version cp))) (Inr (Some (proto_version sp)))"
  using assms by (rule honest_sides_succeed)

theorem handshake_succeeds_witness:
  "ends_with sample_sys sample_sys
     (authenticate_server (sample_env hmac) (Tcp 0) (HmacSha256 [1, 2]) (protocol_new 7 1 3 1),
      authenticate_client (sample_env hmac) (HmacSha256 [1, 2]) (protocol_new 7 1 0 4), [], [])
     (Inr (Some (Version 1 0 4))) (Inr (Some (Version 1 3 1)))"
  using handshake_succeeds [OF sample_hmac _ sample_attestation sample_random,
      of "HmacSha256 [1, 2]" "[1, 2]" "protocol_new 7 1 3 1" "protocol_new 7 1 0 4" sample_sys "Tcp 0"]
  by (simp add: NONCE_LEN_def compatible_def protocol_new_def)

text \<open>C27: Two sides of the same scheme whose protocol ids or major versions differ both fail, under
  every interleaving, with the same error, each reporting the difference from its own view;
  neither reports a rejection by the other.\<close>

theorem handshake_refuses_incompatible:
  assumes "hmac_laws env"
    and "smode \<noteq> Disabled" and "cmode \<noteq> Disabled" and "scheme_id smode = scheme_id cmode"
    and "attested_pid env c smode = Inr attested"
    and "sys_random sl NONCE_LEN = Inr nonce" and "length nonce = NONCE_LEN"
    and "incompatibility sp cp = Some (e, why)"
  shows "\<exists>why'. incompatibility cp sp = Some (e, why')
    \<and> ends_with sl sr (authenticate_server env c smode sp, authenticate_client env cmode cp, [], [])
        (Inl (Report e [Text why])) (Inl (Report e [Text why']))"
  using assms by (rule incompatible_sides_fail)

theorem handshake_refuses_incompatible_witness:
  "ends_with sample_sys sample_sys
     (authenticate_server (sample_env hmac) (Tcp 0) VersionOnly (protocol_new 7 2 0 0),
      authenticate_client (sample_env hmac) VersionOnly (protocol_new 7 1 9 0), [], [])
     (Inl (Report IncompatibleVersion [Text ''peer speaks v1.9.0, this side v2.0.0'']))
     (Inl (Report IncompatibleVersion [Text ''peer speaks v2.0.0, this side v1.9.0'']))"
proof -
  have "incompatibility (protocol_new 7 2 0 0) (protocol_new 7 1 9 0)
        = Some (IncompatibleVersion, ''peer speaks v1.9.0, this side v2.0.0'')"
    "incompatibility (protocol_new 7 1 9 0) (protocol_new 7 2 0 0)
        = Some (IncompatibleVersion, ''peer speaks v2.0.0, this side v1.9.0'')"
    by code_simp+
  then show ?thesis
    using handshake_refuses_incompatible [OF sample_hmac _ _ _ _ sample_random, where smode = VersionOnly
        and cmode = VersionOnly and c = "Tcp 0" and sp = "protocol_new 7 2 0 0"
        and cp = "protocol_new 7 1 9 0" and sr = sample_sys]
    by (auto simp: NONCE_LEN_def attested_pid_def)
qed

text \<open>C17: A client whose secret gives another tag is turned away under every interleaving: the
  server reports an invalid proof, the client a rejection with the server's reason.\<close>

theorem handshake_refuses_wrong_secret:
  assumes "hmac_laws env"
    and "sys_random sl NONCE_LEN = Inr nonce" and "length nonce = NONCE_LEN"
    and "compatible sp cp"
    and "hmac_sha256 env ck (HMAC_LABEL @ to_le 2 HANDSHAKE_VERSION @ nonce)
         \<noteq> hmac_sha256 env sk (HMAC_LABEL @ to_le 2 HANDSHAKE_VERSION @ nonce)"
  shows "ends_with sl sr
           (authenticate_server env c (HmacSha256 sk) sp, authenticate_client env (HmacSha256 ck) cp, [], [])
           (Inl (Report InvalidProof []))
           (Inl (Report Rejected [LossyUtf8 (as_bytes ''invalid handshake proof'')]))"
  using assms by (rule wrong_secret_fails)

theorem handshake_refuses_wrong_secret_witness:
  "ends_with sample_sys sample_sys
     (authenticate_server (sample_env (\<lambda>key m. take 32 (key @ replicate 32 0))) (Tcp 0)
        (HmacSha256 [1]) (protocol_new 7 1 0 0),
      authenticate_client (sample_env (\<lambda>key m. take 32 (key @ replicate 32 0)))
        (HmacSha256 [2]) (protocol_new 7 1 0 0), [], [])
     (Inl (Report InvalidProof []))
     (Inl (Report Rejected [LossyUtf8 (as_bytes ''invalid handshake proof'')]))"
proof -
  have "hmac_laws (sample_env (\<lambda>key m. take 32 (key @ replicate 32 0)))"
    by unfold_locales (simp_all add: sample_env_def)
  from handshake_refuses_wrong_secret [OF this sample_random, of "protocol_new 7 1 0 0"
      "protocol_new 7 1 0 0" "[2]" "[1]" sample_sys "Tcp 0"]
  show ?thesis by (simp add: NONCE_LEN_def compatible_def sample_env_def)
qed

lemma handshake_scheme_mismatch_witness:
  "ends_with sample_sys sample_sys
     (authenticate_server (sample_env hmac) (Tcp 0) (HmacSha256 [1]) (protocol_new 7 1 0 0),
      authenticate_client (sample_env hmac) VersionOnly (protocol_new 7 1 0 0), [], [])
     (Inl (Report handshake_error.Io []))
     (Inl (Report SchemeMismatch [Text ''server=1 client=0'']))"
proof -
  have "''server='' @ show_nat (unat (scheme_id (HmacSha256 [1])))
        @ '' client='' @ show_nat (unat (scheme_id VersionOnly)) = ''server=1 client=0''"
    by code_simp
  then show ?thesis
    using handshake_scheme_mismatch [OF _ _ _ _ sample_random, where smode = "HmacSha256 [1]"
        and cmode = VersionOnly and c = "Tcp 0" and env = "sample_env hmac"
        and attested = None and sp = "protocol_new 7 1 0 0" and cp = "protocol_new 7 1 0 0"
        and sr = sample_sys]
    by (simp add: NONCE_LEN_def attested_pid_def)
qed

text \<open>C40: What a client sees of a rejection. A connection refused with a reason that fits a packet is
  reported by the client as rejected, with that reason; a longer reason never arrives: the client
  reports a malformed packet instead, although the server has sent the rejection.\<close>

theorem rejection_arrives:
  assumes "mode \<noteq> Disabled" and "length reason + 4 < 2 ^ 32"
  shows "ends_with sl sr (reject_connection reason, authenticate_client env mode protocol, [], []) (Inr ())
    (if length reason + 4 \<le> 4096 then Inl (Report Rejected [LossyUtf8 (as_bytes reason)])
     else Inl (Report MalformedPacket
       [Text (''declared packet length '' @ show_nat (length reason + 4) @ '' exceeds '' @ show_nat 4096)]))"
proof (cases "length reason + 4 \<le> 4096")
  case True
  show ?thesis
    unfolding if_P [OF True]
    by (rule ends_withI, rule converse_rtranclp_into_rtranclp [OF reject_writes rejection_read [OF assms(1) True]])
next
  case False
  show ?thesis
    unfolding if_not_P [OF False]
    by (rule ends_withI, rule converse_rtranclp_into_rtranclp, rule reject_writes, rule r_into_rtranclp,
        rule rejection_too_long [OF assms False])
qed

theorem rejection_arrives_witness:
  "ends_with sample_sys sample_sys
     (reject_connection ''busy'', authenticate_client (sample_env hmac) VersionOnly (protocol_new 7 1 0 0), [], []) (Inr ())
     (Inl (Report Rejected [LossyUtf8 (as_bytes ''busy'')]))
   \<and> ends_with sample_sys sample_sys
     (reject_connection (replicate 5000 (CHR ''x'')), authenticate_client (sample_env hmac) VersionOnly (protocol_new 7 1 0 0), [], [])
     (Inr ())
     (Inl (Report MalformedPacket [Text (''declared packet length '' @ show_nat 5004 @ '' exceeds '' @ show_nat 4096)]))"
  using rejection_arrives [of VersionOnly "''busy''" sample_sys sample_sys "sample_env hmac" "protocol_new 7 1 0 0"]
    rejection_arrives [of VersionOnly "replicate 5000 (CHR ''x'')" sample_sys sample_sys "sample_env hmac" "protocol_new 7 1 0 0"]
  by simp

end
