(* ===== verification/Network.thy ===== *)
theory Network
  imports Framing Wire_Error "HOL-Library.Sublist"
begin

text \<open>
  \<open>src/src/rpc/network.rs\<close>: the writer task that turns queued messages into batches, and the
  connection that queues messages and receives them one at a time. The stream is a parameter:
  \<open>sink_ops\<close> for the writer, whose laws are the locale \<open>byte_sink\<close>, and \<open>reader_ops\<close> of
  \<open>Frame_Inbound\<close> for the receiver.

  The queue of the writer is the list of items in the order they were sent. An item carries
  whether it was already there when the writer looked for more (\<open>try_recv\<close>) or came while it
  waited (\<open>next\<close>), so a list stands for one arrival order and the theorems range over all of them.
  An acknowledgement (a \<open>oneshot\<close> sender) is a number; the writer's run returns those it
  fulfilled, and the others are dropped with the writer, which their holders see as
  \<open>writer_stopped\<close>.
\<close>

section \<open>Items and the writer\<close>

definition STAGING_CAPACITY :: nat where "STAGING_CAPACITY = 64 * 1024"
definition INLINE_LIMIT :: nat where "INLINE_LIMIT = 4 * 1024"
definition BATCH_CHUNKS :: nat where "BATCH_CHUNKS = 64"
definition BATCH_BYTES :: nat where "BATCH_BYTES = 1024 * 1024"

datatype item = Message out_message nat | Done "capnp_error + unit" nat

definition writer_stopped :: capnp_error where
  "writer_stopped =
     \<lparr>kind = capnp_kind.Disconnected, extra = ''the connection's writer has stopped''\<rparr>"

record 'c sink_ops =
  write_vectored_all :: "'c \<Rightarrow> chunk list \<Rightarrow> (io_error + unit) \<times> 'c"
  sink_flush :: "'c \<Rightarrow> (io_error + unit) \<times> 'c"

text \<open>The inner loop: take items until the batch is full, the queue is empty or the end is asked for.\<close>

fun gather :: "batch \<Rightarrow> nat list \<Rightarrow> item \<Rightarrow> (item \<times> bool) list
    \<Rightarrow> batch \<times> nat list \<times> ((capnp_error + unit) \<times> nat) option \<times> (item \<times> bool) list" where
  "gather b written (Done result on_finished) queue = (b, written, Some (result, on_finished), queue)"
| "gather b written (Message message on_written) queue =
     (let b = push b message; written = written @ [on_written] in
      if BATCH_CHUNKS \<le> chunk_count b \<or> BATCH_BYTES \<le> byte_count b then (b, written, None, queue)
      else
        (case queue of
           (next, True) # queue \<Rightarrow> gather b written next queue
         | _ \<Rightarrow> (b, written, None, queue)))"

text \<open>
  Writing the batch: the result, the batch with its buffers back, the acknowledgements
  fulfilled and those still held.
\<close>

definition write_batch :: "'c sink_ops \<Rightarrow> (io_error \<Rightarrow> capnp_error) \<Rightarrow> 'c \<Rightarrow> batch \<Rightarrow> nat list
    \<Rightarrow> (capnp_error + unit) \<times> 'c \<times> batch \<times> nat list \<times> nat list" where
  "write_batch ops from_io_error c b written =
     (if is_empty b then (Inr (), c, b, [], written)
      else
        (case take_chunks b of (cs, b) \<Rightarrow>
           (case write_vectored_all ops c cs of
              (Inl e, c) \<Rightarrow> (Inl (from_io_error e), c, recycle b cs, [], written)
            | (Inr _, c) \<Rightarrow>
                (case sink_flush ops c of
                   (Inl e, c) \<Rightarrow> (Inl (from_io_error e), c, recycle b cs, [], written)
                 | (Inr _, c) \<Rightarrow> (Inr (), c, recycle b cs, written, [])))))"

lemma gather_shorter: "gather b w i q = (b', w', dn, q') \<Longrightarrow> length q' \<le> length q"
proof (induction q arbitrary: b w i)
  case Nil
  then show ?case by (cases i) (auto simp: Let_def split: if_splits)
next
  case (Cons x q)
  obtain nxt ready where x: "x = (nxt, ready)" by (cases x)
  show ?case
  proof (cases i)
    case (Message m a)
    then show ?thesis
      using Cons.prems Cons.IH [of "push b m" "w @ [a]" nxt] x
      by (cases ready) (auto simp: Let_def split: if_splits)
  next
    case (Done r a)
    then show ?thesis using Cons.prems by simp
  qed
qed

text \<open>
  One turn of the outer loop, from the first item it took off the queue: the value the writer
  stops with, if it does, and the acknowledgements fulfilled in this turn.
\<close>

definition write_turn :: "'c sink_ops \<Rightarrow> (io_error \<Rightarrow> capnp_error) \<Rightarrow> 'c \<Rightarrow> batch \<Rightarrow> nat list \<Rightarrow> item
    \<Rightarrow> (item \<times> bool) list
    \<Rightarrow> (capnp_error + unit) option \<times> nat list \<times> 'c \<times> batch \<times> nat list \<times> (item \<times> bool) list" where
  "write_turn ops from_io_error c b written first queue =
     (case gather b written first queue of
        (b, written, dn, queue) \<Rightarrow>
          (case write_batch ops from_io_error c b written of
             (Inl e, c, b, acked, written) \<Rightarrow> (Some (Inl e), acked, c, b, written, queue)
           | (Inr _, c, b, acked, written) \<Rightarrow>
               (case dn of
                  Some (result, on_finished) \<Rightarrow>
                    (Some result, acked @ [on_finished], c, b, written, queue)
                | None \<Rightarrow> (None, acked, c, b, written, queue))))"

lemma write_turn_shorter:
  "write_turn ops conv c b w i q = (stop, acks, c', b', w', q') \<Longrightarrow> length q' \<le> length q"
  by (auto simp: write_turn_def dest: gather_shorter split: prod.splits sum.splits option.splits)

function write_loop :: "'c sink_ops \<Rightarrow> (io_error \<Rightarrow> capnp_error) \<Rightarrow> 'c \<Rightarrow> batch \<Rightarrow> nat list
    \<Rightarrow> (item \<times> bool) list \<Rightarrow> (capnp_error + unit) \<times> 'c \<times> nat list" where
  "write_loop ops from_io_error c b written [] = (Inr (), c, [])"
| "write_loop ops from_io_error c b written ((first, waited) # queue) =
     (case write_turn ops from_io_error c b written first queue of
        (Some result, acked, c, b, written, queue) \<Rightarrow> (result, c, acked)
      | (None, acked, c, b, written, queue) \<Rightarrow>
          (case write_loop ops from_io_error c b written queue of
             (result, c, acks) \<Rightarrow> (result, c, acked @ acks)))"
  by pat_completeness auto
termination
  by (relation "measure (\<lambda>(ops, conv, c, b, written, queue). length queue)")
    (auto simp: less_Suc_eq_le dest!: write_turn_shorter [OF sym])

declare write_loop.simps [simp del]

definition run_writer :: "'c sink_ops \<Rightarrow> (io_error \<Rightarrow> capnp_error) \<Rightarrow> 'c \<Rightarrow> (item \<times> bool) list
    \<Rightarrow> (capnp_error + unit) \<times> 'c \<times> nat list" where
  "run_writer ops from_io_error c queue =
     write_loop ops from_io_error c (batch_new INLINE_LIMIT) [] queue"

section \<open>What the writer should do\<close>

text \<open>The messages queued before the end was asked for, and that request.\<close>

fun queued :: "(item \<times> bool) list \<Rightarrow> (out_message \<times> nat) list" where
  "queued [] = []"
| "queued ((Message m a, w) # q) = (m, a) # queued q"
| "queued ((Done r a, w) # q) = []"

fun finish :: "(item \<times> bool) list \<Rightarrow> ((capnp_error + unit) \<times> nat) option" where
  "finish [] = None"
| "finish ((Message m a, w) # q) = finish q"
| "finish ((Done r a, w) # q) = Some (r, a)"

definition framed_bytes :: "(out_message \<times> nat) list \<Rightarrow> bytes" where
  "framed_bytes ms = concat (map (serialize \<circ> fst) ms)"

lemma framed_bytes_simps [simp]:
  "framed_bytes [] = []" "framed_bytes ((m, a) # ms) = serialize m @ framed_bytes ms"
  "framed_bytes (ms @ ms') = framed_bytes ms @ framed_bytes ms'"
  by (simp_all add: framed_bytes_def)

definition writable :: "(item \<times> bool) list \<Rightarrow> bool" where
  "writable q \<longleftrightarrow> list_all (\<lambda>(m, a). m \<noteq> []) (queued q)"

text \<open>
  A run of the writer over a queue is correct when everything was written, acknowledged and
  the request answered, or when it stopped at an i/o error: then exactly the messages of a
  prefix were acknowledged, they are on the wire in full, and behind them at most a part of
  the rest.
\<close>

definition writer_outcome :: "(io_error \<Rightarrow> capnp_error) \<Rightarrow> bytes \<Rightarrow> bytes \<Rightarrow> (item \<times> bool) list
    \<Rightarrow> capnp_error + unit \<Rightarrow> nat list \<Rightarrow> bool" where
  "writer_outcome from_io_error before after q result acks \<longleftrightarrow>
     (after = before @ framed_bytes (queued q)
      \<and> acks = map snd (queued q) @ (case finish q of Some (r, a) \<Rightarrow> [a] | None \<Rightarrow> [])
      \<and> result = (case finish q of Some (r, a) \<Rightarrow> r | None \<Rightarrow> Inr ()))
     \<or> (\<exists>e n part. result = Inl (from_io_error e)
          \<and> acks = map snd (take n (queued q))
          \<and> after = before @ framed_bytes (take n (queued q)) @ part
          \<and> prefix part (framed_bytes (drop n (queued q))))"

lemma serialize_nonempty: "serialize m \<noteq> []"
proof -
  have "0 < length (frame_table m)" unfolding frame_table_def by simp
  then show ?thesis by (auto simp: serialize_def)
qed

lemma framed_bytes_nonempty: "ms \<noteq> [] \<Longrightarrow> framed_bytes ms \<noteq> []"
  by (cases ms) (auto simp: serialize_nonempty)

text \<open>One round takes a run of messages off the front of the queue.\<close>

definition gathered :: "(item \<times> bool) list \<Rightarrow> (out_message \<times> nat) list
    \<Rightarrow> ((capnp_error + unit) \<times> nat) option \<Rightarrow> (item \<times> bool) list \<Rightarrow> bool" where
  "gathered q ms dn q' =
     (case dn of
        Some d \<Rightarrow> queued q = ms \<and> finish q = Some d
      | None \<Rightarrow> ms \<noteq> [] \<and> queued q = ms @ queued q' \<and> finish q = finish q')"

lemma gather_spec:
  assumes "gather b w i q = (b', w', dn, q')" and "batch_inv b" and "writable ((i, x) # q)"
  shows "\<exists>ms. batch_inv b' \<and> content (chunks b') = content (chunks b) @ framed_bytes ms
    \<and> w' = w @ map snd ms \<and> gathered ((i, x) # q) ms dn q'"
  using assms
proof (induction b w i q arbitrary: x rule: gather.induct)
  case (1 b w r a q)
  then show ?case by (auto simp: gathered_def)
next
  case (2 b w m a q)
  have pushed: "batch_inv (push b m)" "content (chunks (push b m)) = content (chunks b) @ serialize m"
    using "2.prems"(2,3) by (simp_all add: writable_def frame_batch.inv_push frame_batch.held_push)
  let ?full = "BATCH_CHUNKS \<le> chunk_count (push b m) \<or> BATCH_BYTES \<le> byte_count (push b m)"
  show ?case
  proof (cases "\<not> ?full \<and> (\<exists>nxt q1. q = (nxt, True) # q1)")
    case False
    then have "b' = push b m" "w' = w @ [a]" "dn = None" "q' = q"
      using "2.prems"(1) by (auto simp: Let_def split: if_splits list.splits prod.splits bool.splits)
    then show ?thesis
      using pushed by (intro exI [of _ "[(m, a)]"]) (simp add: gathered_def)
  next
    case True
    then obtain nxt q1 where q: "q = (nxt, True) # q1" by blast
    then have "gather (push b m) (w @ [a]) nxt q1 = (b', w', dn, q')" "writable ((nxt, True) # q1)"
      using "2.prems"(1,3) True by (auto simp: Let_def writable_def)
    then obtain ms where "batch_inv b'"
        "content (chunks b') = content (chunks (push b m)) @ framed_bytes ms"
        "w' = (w @ [a]) @ map snd ms" "gathered ((nxt, True) # q1) ms dn q'"
      using "2.IH" [OF refl refl _ q refl _ _ pushed(1)] True by blast
    then show ?thesis
      using pushed(2) q
      by (intro exI [of _ "(m, a) # ms"]) (auto simp: gathered_def split: option.splits)
  qed
qed

lemma outcome_step:
  assumes "queued q = ms @ queued q'" and "finish q = finish q'"
    and "writer_outcome conv (before @ framed_bytes ms) after q' result acks"
  shows "writer_outcome conv before after q result (map snd ms @ acks)"
proof -
  from assms(3) show ?thesis
    unfolding writer_outcome_def assms(1,2)
  proof (elim disjE exE conjE)
    fix e n part
    assume "result = Inl (conv e)" "acks = map snd (take n (queued q'))"
      "after = (before @ framed_bytes ms) @ framed_bytes (take n (queued q')) @ part"
      "prefix part (framed_bytes (drop n (queued q')))"
    then have "result = Inl (conv e) \<and> map snd ms @ acks = map snd (take (length ms + n) (ms @ queued q'))
        \<and> after = before @ framed_bytes (take (length ms + n) (ms @ queued q')) @ part
        \<and> prefix part (framed_bytes (drop (length ms + n) (ms @ queued q')))" by simp
    then show "(after = before @ framed_bytes (ms @ queued q')
        \<and> map snd ms @ acks = map snd (ms @ queued q') @ (case finish q' of None \<Rightarrow> [] | Some (r, a) \<Rightarrow> [a])
        \<and> result = (case finish q' of None \<Rightarrow> Inr () | Some (r, a) \<Rightarrow> r))
      \<or> (\<exists>e n part. result = Inl (conv e) \<and> map snd ms @ acks = map snd (take n (ms @ queued q'))
          \<and> after = before @ framed_bytes (take n (ms @ queued q')) @ part
          \<and> prefix part (framed_bytes (drop n (ms @ queued q'))))"
      by blast
  qed simp
qed

lemma gathered_outcome:
  "gathered q ms None q' \<Longrightarrow> writer_outcome conv (before @ framed_bytes ms) after q' result acks
     \<Longrightarrow> writer_outcome conv before after q result (map snd ms @ acks)"
  by (rule outcome_step) (simp_all add: gathered_def)

section \<open>Laws\<close>

text \<open>A stream to write to: a write that succeeds delivers all chunks, one that fails a part.\<close>

locale byte_sink =
  fixes ops :: "'c sink_ops" and wire :: "'c \<Rightarrow> bytes"
  assumes write_ok: "write_vectored_all ops c cs = (Inr u, c') \<Longrightarrow> wire c' = wire c @ content cs"
    and write_err: "write_vectored_all ops c cs = (Inl e, c')
          \<Longrightarrow> \<exists>part. prefix part (content cs) \<and> wire c' = wire c @ part"
    and flush_wire: "sink_flush ops c = (r, c') \<Longrightarrow> wire c' = wire c"
begin

lemma write_batch_spec:
  assumes "batch_inv b" and "write_batch ops conv c b w = (r, c', b', acked, w')"
    and "w = [] \<or> content (chunks b) \<noteq> []"
  shows "case r of
      Inl k \<Rightarrow> acked = [] \<and> (\<exists>e part. k = conv e \<and> prefix part (content (chunks b))
        \<and> wire c' = wire c @ part)
    | Inr _ \<Rightarrow> acked = w \<and> w' = [] \<and> batch_inv b' \<and> content (chunks b') = []
        \<and> wire c' = wire c @ content (chunks b)"
proof -
  obtain cs b1 where taken: "take_chunks b = (cs, b1)" "content cs = content (chunks b)"
      "batch_inv b1" "content (chunks b1) = []"
    using assms(1) frame_batch.take_held frame_batch.inv_take frame_batch.take_empty
    by (metis prod.collapse)
  show ?thesis
    using assms taken frame_batch.empty_iff [OF assms(1)]
    by (auto simp: write_batch_def frame_batch.inv_recycle frame_batch.held_recycle
        dest!: write_ok write_err flush_wire split: if_splits prod.splits sum.splits)
qed

lemma outcome_failed:
  assumes "gathered q ms dn q'" and "prefix part (framed_bytes ms)"
  shows "writer_outcome conv before (before @ part) q (Inl (conv e)) []"
proof -
  have "prefix (framed_bytes ms) (framed_bytes (queued q))"
    using assms(1) by (auto simp: gathered_def split: option.splits)
  then have "prefix part (framed_bytes (queued q))" using assms(2) by (rule prefix_order.trans [rotated])
  then show ?thesis
    unfolding writer_outcome_def by (intro disjI2 exI [of _ e] exI [of _ 0] exI [of _ part]) simp
qed

text \<open>A turn that stops is a complete run; one that does not has written what it took.\<close>

lemma write_turn_spec:
  assumes turn: "write_turn ops conv c b [] i rest = (stop, acks, c', b', w', q')"
    and "batch_inv b" and "content (chunks b) = []" and "writable ((i, x) # rest)"
  shows "case stop of
      Some result \<Rightarrow> writer_outcome conv (wire c) (wire c') ((i, x) # rest) result acks
    | None \<Rightarrow> \<exists>ms. gathered ((i, x) # rest) ms None q' \<and> acks = map snd ms \<and> w' = []
        \<and> wire c' = wire c @ framed_bytes ms \<and> batch_inv b' \<and> content (chunks b') = []"
proof -
  obtain b1 w1 dn q1 where gather: "gather b [] i rest = (b1, w1, dn, q1)" by (rule prod_cases4)
  obtain ms where ms: "batch_inv b1" "content (chunks b1) = framed_bytes ms" "w1 = map snd ms"
      "gathered ((i, x) # rest) ms dn q1"
    using gather_spec [OF gather assms(2), of x] assms(3,4) by auto
  obtain r c1 b2 acked w2 where wr: "write_batch ops conv c b1 w1 = (r, c1, b2, acked, w2)"
    by (rule prod_cases5)
  have "map snd ms = [] \<or> framed_bytes ms \<noteq> []" using framed_bytes_nonempty by auto
  note written = write_batch_spec [OF ms(1) wr, unfolded ms(2,3), OF this]
  show ?thesis
  proof (cases r)
    case (Inl k)
    then obtain e part where "acked = []" "k = conv e" "prefix part (framed_bytes ms)"
        "wire c1 = wire c @ part"
      using written by auto
    then show ?thesis
      using turn gather wr Inl outcome_failed [OF ms(4), of part conv "wire c" e]
      by (auto simp: write_turn_def)
  next
    case (Inr u)
    then have "acked = map snd ms" "w2 = []" "batch_inv b2" "content (chunks b2) = []"
        "wire c1 = wire c @ framed_bytes ms"
      using written by auto
    then show ?thesis
      using turn gather wr Inr ms(4)
      by (cases dn) (auto simp: write_turn_def gathered_def writer_outcome_def)
  qed
qed

lemma write_loop_spec:
  assumes "write_loop ops conv c b [] q = (result, c', acks)"
    and "batch_inv b" and "content (chunks b) = []" and "writable q"
  shows "writer_outcome conv (wire c) (wire c') q result acks"
  using assms
proof (induction "length q" arbitrary: c b q result c' acks rule: less_induct)
  case less
  show ?case
  proof (cases q)
    case Nil
    then show ?thesis using less.prems(1) by (simp add: write_loop.simps writer_outcome_def)
  next
    case (Cons y rest)
    obtain i x where q: "q = (i, x) # rest" using Cons by (cases y) auto
    obtain stop acked c1 b1 w1 q' where turn: "write_turn ops conv c b [] i rest = (stop, acked, c1, b1, w1, q')"
      by (rule prod_cases6)
    note spec = write_turn_spec [OF turn less.prems(2,3), of x, folded q, OF less.prems(4)]
    show ?thesis
    proof (cases stop)
      case None
      then obtain ms where ms: "gathered q ms None q'" "acked = map snd ms" "w1 = []"
          "wire c1 = wire c @ framed_bytes ms" "batch_inv b1" "content (chunks b1) = []"
        using spec by auto
      obtain result1 c2 acks1 where loop: "write_loop ops conv c1 b1 [] q' = (result1, c2, acks1)"
        by (rule prod_cases3)
      have "writable q'" "length q' < length q"
        using ms(1) less.prems(4) write_turn_shorter [OF turn] q by (simp_all add: gathered_def writable_def)
      then have "writer_outcome conv (wire c) (wire c2) q result1 (map snd ms @ acks1)"
        using less.hyps [OF _ loop ms(5,6)] gathered_outcome [OF ms(1)] ms(4) by simp
      then show ?thesis using less.prems(1) q turn loop ms(2,3) None by (simp add: write_loop.simps)
    next
      case (Some r)
      then show ?thesis using spec less.prems(1) q turn by (simp add: write_loop.simps)
    qed
  qed
qed

lemma run_writer_spec:
  assumes "writable q" and "run_writer ops conv c q = (result, c', acks)"
  shows "writer_outcome conv (wire c) (wire c') q result acks"
proof -
  have "batch_inv (batch_new INLINE_LIMIT)" "content (chunks (batch_new INLINE_LIMIT)) = []"
    using batch_reach_inv [OF reach_new] by (simp_all add: batch_new_def content_def)
  with assms show ?thesis using write_loop_spec by (simp add: run_writer_def)
qed

end

section \<open>A stream that breaks\<close>

text \<open>A sink that takes a number of bytes and then fails: the laws can be met, on both outcomes.\<close>

record limited_sink =
  sunk :: bytes
  budget :: nat

definition limited_write :: "limited_sink \<Rightarrow> chunk list \<Rightarrow> (io_error + unit) \<times> limited_sink" where
  "limited_write s cs =
     (let bs = content cs; taken = take (budget s) bs in
      (if length bs \<le> budget s then Inr () else Inl (OtherIo 32),
       \<lparr>sunk = sunk s @ taken, budget = budget s - length taken\<rparr>))"

definition limited_ops :: "limited_sink sink_ops" where
  "limited_ops = \<lparr>write_vectored_all = limited_write, sink_flush = (\<lambda>s. (Inr (), s))\<rparr>"

interpretation limited: byte_sink limited_ops sunk
  by unfold_locales
    (auto simp: limited_ops_def limited_write_def Let_def take_is_prefix split: if_splits)

section \<open>What the other end reads\<close>

text \<open>The peer of a stream that broke off reads whole messages, then the end or a premature end.\<close>

lemma parse_all_prefix:
  assumes "prefix part (concat (map serialize ms))" and "list_all (wf_message limit) ms"
  shows "\<exists>k r. parse_all 512 limit part = (take k ms, r) \<and> (r = Inr () \<or> r = Inl PrematureEndOfFile)"
  using assms
proof (induction ms arbitrary: part)
  case Nil
  then show ?case by (simp add: parse_all_Nil)
next
  case (Cons m ms)
  from Cons.prems(1) consider rest where "part = serialize m @ rest" "prefix rest (concat (map serialize ms))"
    | "prefix part (serialize m)"
    by (auto simp: prefix_append)
  then show ?case
  proof cases
    case 1
    obtain k r where "parse_all 512 limit rest = (take k ms, r)" "r = Inr () \<or> r = Inl PrematureEndOfFile"
      using Cons.IH [OF 1(2)] Cons.prems(2) by auto
    then show ?thesis
      using parse_all_serialized [of limit "[m]" rest] Cons.prems(2) 1(1)
      by (intro exI [of _ "Suc k"]) simp
  next
    case 2
    then obtain j where j: "part = take j (serialize m)" "j \<le> length (serialize m)"
      by (metis append_eq_conv_conj length_append le_add1 prefixE)
    consider "j = 0" | "0 < j" "j < length (serialize m)" | "j = length (serialize m)" using j(2) by linarith
    then show ?thesis
    proof cases
      case 1
      then show ?thesis using j(1) by (intro exI [of _ 0]) (simp add: parse_all_Nil)
    next
      case 2
      then have "parse_all 512 limit part = ([], Inl PrematureEndOfFile)"
        using parse_truncated [of limit m j] Cons.prems(2) j(1)
        by (simp add: parse_all.simps [of _ _ "take j (serialize m)"])
      then show ?thesis by (intro exI [of _ 0]) simp
    next
      case 3
      then show ?thesis
        using parse_all_serialized [of limit "[m]" "[]"] Cons.prems(2) j(1)
        by (intro exI [of _ 1]) (simp add: parse_all_Nil)
    qed
  qed
qed

lemma framed_bytes_eq: "framed_bytes ms = concat (map serialize (map fst ms))"
  by (simp add: framed_bytes_def)

section \<open>Properties\<close>



end
