(* ===== verification/Vat_Network.thy ===== *)
theory Vat_Network
  imports Network
begin

text \<open>
  The two-party network of \<open>src/src/rpc/network.rs\<close>: \<open>VatNetwork\<close>, the \<open>Connection\<close> handles
  \<open>capnp_rpc\<close> gets from it, the messages they queue and receive, and the writer task, which
  runs between their calls. Everything a \<open>VatNetwork\<close> and its handles share is one record; the
  calls and the turns of the writer are its steps, in any order.

  The \<open>Connection\<close>s alive hold the \<open>State\<close> (\<open>strong\<close>, its reference count); they and the messages
  being built hold senders of the queue. \<open>'c\<close> is the half of the connection the reader uses and
  \<open>'w\<close> the one of the writer. A promise is the number of its \<open>oneshot\<close> channel.
\<close>

section \<open>State\<close>

datatype side = Server | Client

record ('c, 'w) vat_network =
  vn_side :: side
  vn_connection :: bool
  strong :: nat
  peer :: side
  on_disconnect :: bool
  input :: "('c \<times> inbound) option"
  receiving :: "('c \<times> inbound) option"
  building :: nat
  queue :: "(item \<times> bool) list"
  next_promise :: nat
  sink :: 'w
  sink_batch :: batch
  unacked :: "nat list"
  acked :: "nat list"
  stopped :: "(capnp_error + unit) option"

definition other_side :: "side \<Rightarrow> side" where
  "other_side s = (case s of Server \<Rightarrow> Client | Client \<Rightarrow> Server)"

definition vat_network_new :: "'c \<Rightarrow> 'w \<Rightarrow> side \<Rightarrow> reader_options \<Rightarrow> ('c, 'w) vat_network" where
  "vat_network_new conn writer s opts =
     \<lparr>vn_side = s, vn_connection = True, strong = 1, peer = other_side s, on_disconnect = True,
      input = Some (conn, inbound_new opts STAGING_CAPACITY), receiving = None, building = 0,
      queue = [], next_promise = 0, sink = writer, sink_batch = batch_new INLINE_LIMIT,
      unacked = [], acked = [], stopped = None\<rparr>"

section \<open>Handles\<close>

text \<open>What a call to \<open>connect\<close> gives: nothing for the own side, a handle, or the panic of \<open>expect\<close>.\<close>

datatype connected = NoConnection | Connected | Panicked

definition vn_connect :: "side \<Rightarrow> ('c, 'w) vat_network \<Rightarrow> connected \<times> ('c, 'w) vat_network" where
  "vn_connect host_id v =
     (if host_id = vn_side v then (NoConnection, v)
      else if strong v = 0 then (Panicked, v)
      else (Connected, v\<lparr>strong := strong v + 1\<rparr>))"

text \<open>\<open>accept\<close> gives the network's own handle away; later calls never return (\<open>False\<close>).\<close>

definition vn_accept :: "('c, 'w) vat_network \<Rightarrow> bool \<times> ('c, 'w) vat_network" where
  "vn_accept v = (if vn_connection v then (True, v\<lparr>vn_connection := False\<rparr>) else (False, v))"

definition drop_state :: "('c, 'w) vat_network \<Rightarrow> ('c, 'w) vat_network" where
  "drop_state v = v\<lparr>on_disconnect := False\<rparr>"

definition drop_connection :: "('c, 'w) vat_network \<Rightarrow> ('c, 'w) vat_network" where
  "drop_connection v =
     (let v = v\<lparr>strong := strong v - 1\<rparr> in if strong v = 0 then drop_state v else v)"

definition get_peer_vat_id :: "('c, 'w) vat_network \<Rightarrow> side" where
  "get_peer_vat_id v = peer v"

section \<open>Sending\<close>

text \<open>A channel whose receiver is gone refuses the item and drops it, its promise with it.\<close>

definition unbounded_send :: "item \<Rightarrow> ('c, 'w) vat_network \<Rightarrow> ('c, 'w) vat_network" where
  "unbounded_send item v =
     (if stopped v = None then v\<lparr>queue := queue v @ [(item, True)]\<rparr> else v)"

definition new_outgoing_message :: "('c, 'w) vat_network \<Rightarrow> ('c, 'w) vat_network" where
  "new_outgoing_message v = v\<lparr>building := building v + 1\<rparr>"

definition outgoing_send :: "out_message \<Rightarrow> ('c, 'w) vat_network \<Rightarrow> nat \<times> ('c, 'w) vat_network" where
  "outgoing_send message v =
     (let on_written = next_promise v;
          v = unbounded_send (Message message on_written) (v\<lparr>next_promise := on_written + 1\<rparr>)
      in (on_written, v\<lparr>building := building v - 1\<rparr>))"

text \<open>\<open>take\<close> gives the builder back and drops the sender with the rest of the message.\<close>

definition outgoing_take :: "('c, 'w) vat_network \<Rightarrow> ('c, 'w) vat_network" where
  "outgoing_take v = v\<lparr>building := building v - 1\<rparr>"

definition shutdown :: "capnp_error + unit \<Rightarrow> ('c, 'w) vat_network \<Rightarrow> nat \<times> ('c, 'w) vat_network" where
  "shutdown result v =
     (let on_finished = next_promise v in
      (on_finished, unbounded_send (Done result on_finished) (v\<lparr>next_promise := on_finished + 1\<rparr>)))"

text \<open>The promises of \<open>send\<close> and \<open>shutdown\<close>: \<open>None\<close> while they are pending.\<close>

definition promise :: "nat \<Rightarrow> ('c, 'w) vat_network \<Rightarrow> (capnp_error + unit) option" where
  "promise p v =
     (if p \<in> set (acked v) then Some (Inr ())
      else if stopped v = None then None else Some (Inl writer_stopped))"

section \<open>Receiving\<close>

definition receive_in_progress :: capnp_error where
  "receive_in_progress =
     \<lparr>kind = capnp_kind.Failed, extra = ''a receive is already in progress on this connection''\<rparr>"

text \<open>The synchronous part takes the reader out of its slot, the future puts it back.\<close>

definition receive_incoming_message :: "('c, 'w) vat_network \<Rightarrow> (capnp_error + unit) \<times> ('c, 'w) vat_network" where
  "receive_incoming_message v =
     (case input v of
        None \<Rightarrow> (Inl receive_in_progress, v)
      | Some ci \<Rightarrow> (Inr (), v\<lparr>input := None, receiving := Some ci\<rparr>))"

definition receive_future :: "('b, 's) capnp_ops \<Rightarrow> 'c reader_ops \<Rightarrow> ('c, 'w) vat_network
    \<Rightarrow> (capnp_kind + 's option) \<times> ('c, 'w) vat_network" where
  "receive_future cops rd v =
     (case receiving v of
        None \<Rightarrow> (Inr None, v)
      | Some (conn, inbound) \<Rightarrow>
          (case inbound_next cops rd inbound conn of
             (Inl e, inbound, conn) \<Rightarrow> (Inl e, v\<lparr>receiving := None\<rparr>)
           | (Inr message, inbound, conn) \<Rightarrow>
               (Inr message, v\<lparr>receiving := None, input := Some (conn, inbound)\<rparr>)))"

definition receive_cancelled :: "('c, 'w) vat_network \<Rightarrow> ('c, 'w) vat_network" where
  "receive_cancelled v = v\<lparr>receiving := None\<rparr>"

section \<open>The writer task and the driver\<close>

text \<open>The queue ends when every sender is gone: all handles and all messages being built.\<close>

definition writer_turn :: "'w sink_ops \<Rightarrow> (io_error \<Rightarrow> capnp_error) \<Rightarrow> ('c, 'w) vat_network
    \<Rightarrow> ('c, 'w) vat_network" where
  "writer_turn ops from_io_error v =
     (if stopped v \<noteq> None then v
      else
        (case queue v of
           [] \<Rightarrow> if strong v = 0 \<and> building v = 0 then v\<lparr>stopped := Some (Inr ())\<rparr> else v
         | (first, waited) # rest \<Rightarrow>
             (case write_turn ops from_io_error (sink v) (sink_batch v) (unacked v) first rest of
                (stop, acks, c, b, written, rest) \<Rightarrow>
                  v\<lparr>sink := c, sink_batch := b, unacked := written, acked := acked v @ acks,
                    queue := rest, stopped := stop\<rparr>)))"

text \<open>\<open>drive_until_shutdown\<close>: the writer's result, once it has stopped and the state is gone.\<close>

definition driver :: "('c, 'w) vat_network \<Rightarrow> (capnp_error + unit) option" where
  "driver v =
     (case stopped v of None \<Rightarrow> None | Some written \<Rightarrow> if on_disconnect v then None else Some written)"

section \<open>Histories\<close>

text \<open>
  A run of a network: the calls of \<open>capnp_rpc\<close> on its handles, the turns of the writer and the
  drops, in any order the ownership of the handles allows; the events are what they did to the
  queue and what the receives gave. \<open>VatNetwork\<close> itself may be dropped with the handle it holds.
\<close>

datatype 's vat_event =
    Queued item
  | Received "capnp_kind + 's option"
  | Refused capnp_error
  | Accepted

fun queued_items :: "'s vat_event list \<Rightarrow> (item \<times> bool) list" where
  "queued_items [] = []"
| "queued_items (Queued i # es) = (i, True) # queued_items es"
| "queued_items (e # es) = queued_items es"

fun received_messages :: "'s vat_event list \<Rightarrow> 's list" where
  "received_messages [] = []"
| "received_messages (Received (Inr (Some m)) # es) = m # received_messages es"
| "received_messages (e # es) = received_messages es"

definition sends :: "item \<Rightarrow> ('c, 'w) vat_network \<Rightarrow> 's vat_event list" where
  "sends i v = (if stopped v = None then [Queued i] else [])"

inductive vat_run :: "'w sink_ops \<Rightarrow> (io_error \<Rightarrow> capnp_error) \<Rightarrow> ('b, 's) capnp_ops \<Rightarrow> 'c reader_ops
    \<Rightarrow> ('c, 'w) vat_network \<Rightarrow> 's vat_event list \<Rightarrow> ('c, 'w) vat_network \<Rightarrow> bool"
  for ops from_io_error cops rd v0 where
  run_start: "vat_run ops from_io_error cops rd v0 [] v0"
| run_connect: "vat_run ops from_io_error cops rd v0 es v \<Longrightarrow> vn_connect host v = (c, v')
    \<Longrightarrow> vat_run ops from_io_error cops rd v0 es v'"
| run_accept: "vat_run ops from_io_error cops rd v0 es v \<Longrightarrow> vn_accept v = (True, v')
    \<Longrightarrow> vat_run ops from_io_error cops rd v0 (es @ [Accepted]) v'"
| run_drop: "vat_run ops from_io_error cops rd v0 es v \<Longrightarrow> of_bool (vn_connection v) < strong v
    \<Longrightarrow> vat_run ops from_io_error cops rd v0 es (drop_connection v)"
| run_drop_network: "vat_run ops from_io_error cops rd v0 es v \<Longrightarrow> vn_connection v
    \<Longrightarrow> vat_run ops from_io_error cops rd v0 es (drop_connection (v\<lparr>vn_connection := False\<rparr>))"
| run_new_message: "vat_run ops from_io_error cops rd v0 es v \<Longrightarrow> 0 < strong v
    \<Longrightarrow> vat_run ops from_io_error cops rd v0 es (new_outgoing_message v)"
| run_send: "vat_run ops from_io_error cops rd v0 es v \<Longrightarrow> 0 < building v \<Longrightarrow> outgoing_send m v = (p, v')
    \<Longrightarrow> vat_run ops from_io_error cops rd v0 (es @ sends (Message m p) v) v'"
| run_take: "vat_run ops from_io_error cops rd v0 es v \<Longrightarrow> 0 < building v
    \<Longrightarrow> vat_run ops from_io_error cops rd v0 es (outgoing_take v)"
| run_shutdown: "vat_run ops from_io_error cops rd v0 es v \<Longrightarrow> 0 < strong v \<Longrightarrow> shutdown r v = (p, v')
    \<Longrightarrow> vat_run ops from_io_error cops rd v0 (es @ sends (Done r p) v) v'"
| run_receive: "vat_run ops from_io_error cops rd v0 es v \<Longrightarrow> 0 < strong v
    \<Longrightarrow> receive_incoming_message v = (Inr (), v') \<Longrightarrow> vat_run ops from_io_error cops rd v0 es v'"
| run_refused: "vat_run ops from_io_error cops rd v0 es v \<Longrightarrow> 0 < strong v
    \<Longrightarrow> receive_incoming_message v = (Inl e, v') \<Longrightarrow> vat_run ops from_io_error cops rd v0 (es @ [Refused e]) v'"
| run_received: "vat_run ops from_io_error cops rd v0 es v \<Longrightarrow> receiving v \<noteq> None
    \<Longrightarrow> receive_future cops rd v = (r, v') \<Longrightarrow> vat_run ops from_io_error cops rd v0 (es @ [Received r]) v'"
| run_cancelled: "vat_run ops from_io_error cops rd v0 es v \<Longrightarrow> receiving v \<noteq> None
    \<Longrightarrow> vat_run ops from_io_error cops rd v0 es (receive_cancelled v)"
| run_writer_turn: "vat_run ops from_io_error cops rd v0 es v
    \<Longrightarrow> vat_run ops from_io_error cops rd v0 es (writer_turn ops from_io_error v)"

lemma queued_items_append [simp]: "queued_items (es @ es') = queued_items es @ queued_items es'"
  by (induction es rule: queued_items.induct) auto

lemma received_messages_append [simp]:
  "received_messages (es @ es') = received_messages es @ received_messages es'"
  by (induction es rule: received_messages.induct) auto

lemma sends_simps [simp]:
  "queued_items (sends i v) = (if stopped v = None then [(i, True)] else [])"
  "received_messages (sends i v) = []" "Received r \<notin> set (sends i v)" "Accepted \<notin> set (sends i v)"
  by (simp_all add: sends_def)

lemmas handle_defs = vn_connect_def vn_accept_def drop_state_def drop_connection_def Let_def

lemmas call_defs = handle_defs unbounded_send_def new_outgoing_message_def outgoing_send_def
  outgoing_take_def shutdown_def receive_incoming_message_def receive_cancelled_def

section \<open>Handles and promises\<close>

definition handles_inv :: "side \<Rightarrow> 's vat_event list \<Rightarrow> ('c, 'w) vat_network \<Rightarrow> bool" where
  "handles_inv s es v \<longleftrightarrow>
     vn_side v = s \<and> peer v = other_side s \<and> (on_disconnect v \<longleftrightarrow> 0 < strong v)
     \<and> count_list es Accepted \<le> of_bool (\<not> vn_connection v) \<and> (vn_connection v \<longrightarrow> 0 < strong v)
     \<and> (input v = None \<or> receiving v = None)"

lemma writer_turn_handles [simp]:
  "vn_side (writer_turn ops conv v) = vn_side v" "peer (writer_turn ops conv v) = peer v"
  "on_disconnect (writer_turn ops conv v) = on_disconnect v" "strong (writer_turn ops conv v) = strong v"
  "vn_connection (writer_turn ops conv v) = vn_connection v" "input (writer_turn ops conv v) = input v"
  "receiving (writer_turn ops conv v) = receiving v" "next_promise (writer_turn ops conv v) = next_promise v"
  by (simp_all add: writer_turn_def split: list.split prod.split)

lemma receive_future_handles:
  assumes "receive_future cops rd v = (r, v')"
  shows "vn_side v' = vn_side v" "peer v' = peer v" "on_disconnect v' = on_disconnect v"
    "strong v' = strong v" "vn_connection v' = vn_connection v" "queue v' = queue v" "sink v' = sink v"
    "sink_batch v' = sink_batch v" "unacked v' = unacked v" "acked v' = acked v" "stopped v' = stopped v"
    "next_promise v' = next_promise v" "receiving v' = None"
  using assms by (auto simp: receive_future_def split: option.splits prod.splits sum.splits)

lemma count_list_sends [simp]: "count_list (sends i v) Accepted = 0"
  by (simp add: sends_def)

lemma vat_run_handles:
  assumes "vat_run ops conv cops rd (vat_network_new conn w s opts) es v"
  shows "handles_inv s es v"
  using assms
proof (induction rule: vat_run.induct)
  case run_start
  show ?case by (simp add: handles_inv_def vat_network_new_def)
next
  case (run_received es v r v')
  then show ?case using receive_future_handles [OF run_received.hyps(3)] by (simp add: handles_inv_def)
next
  case (run_writer_turn es v)
  then show ?case by (simp add: handles_inv_def)
qed (auto simp: handles_inv_def call_defs split: if_splits option.splits)

section \<open>The writer between the calls\<close>

lemma queued_snoc: "queued (q @ [x]) = queued q @ (if finish q = None then queued [x] else [])"
  by (induction q rule: queued.induct) auto

lemma finish_snoc: "finish (q @ [x]) = (if finish q = None then finish [x] else finish q)"
  by (induction q rule: finish.induct) auto

text \<open>
  While the writer runs, the queue is what is left of the items sent, and what it has taken is
  written and acknowledged; once it has stopped, its whole run is a correct one.
\<close>

definition writer_inv :: "('w \<Rightarrow> bytes) \<Rightarrow> (io_error \<Rightarrow> capnp_error) \<Rightarrow> 'w \<Rightarrow> (item \<times> bool) list
    \<Rightarrow> ('c, 'w) vat_network \<Rightarrow> bool" where
  "writer_inv wire conv w h v =
     (case stopped v of
        None \<Rightarrow> \<exists>ms. queued h = ms @ queued (queue v) \<and> finish h = finish (queue v)
          \<and> wire (sink v) = wire w @ framed_bytes ms \<and> acked v = map snd ms \<and> unacked v = []
          \<and> batch_inv (sink_batch v) \<and> content (chunks (sink_batch v)) = []
      | Some result \<Rightarrow> writer_outcome conv (wire w) (wire (sink v)) h result (acked v))"

lemma writer_inv_cong:
  "queue v' = queue v \<Longrightarrow> sink v' = sink v \<Longrightarrow> sink_batch v' = sink_batch v \<Longrightarrow> unacked v' = unacked v
     \<Longrightarrow> acked v' = acked v \<Longrightarrow> stopped v' = stopped v \<Longrightarrow> writer_inv wire conv w h v' = writer_inv wire conv w h v"
  by (simp add: writer_inv_def split: option.split)

lemma writer_inv_send:
  assumes "writer_inv wire conv w h v"
  shows "writer_inv wire conv w (h @ (if stopped v = None then [(i, True)] else [])) (unbounded_send i v)"
  using assms
  by (cases "stopped v") (auto simp: writer_inv_def unbounded_send_def queued_snoc finish_snoc)

context byte_sink
begin

lemma writer_inv_turn:
  assumes inv: "writer_inv wire conv w h v" and "writable h"
  shows "writer_inv wire conv w h (writer_turn ops conv v)"
proof (cases "stopped v")
  case (Some r)
  then show ?thesis using inv by (simp add: writer_turn_def)
next
  case None
  then obtain ms where ms: "queued h = ms @ queued (queue v)" "finish h = finish (queue v)"
      "wire (sink v) = wire w @ framed_bytes ms" "acked v = map snd ms" "unacked v = []"
      "batch_inv (sink_batch v)" "content (chunks (sink_batch v)) = []"
    using inv by (auto simp: writer_inv_def)
  show ?thesis
  proof (cases "queue v")
    case Nil
    then show ?thesis using inv None ms by (simp add: writer_turn_def writer_inv_def writer_outcome_def)
  next
    case (Cons y rest)
    obtain i x where q: "queue v = (i, x) # rest" using Cons by (cases y) auto
    obtain stop acks c b w' q' where
      turn: "write_turn ops conv (sink v) (sink_batch v) [] i rest = (stop, acks, c, b, w', q')"
      by (rule prod_cases6)
    have "writable ((i, x) # rest)" using assms(2) ms(1) q by (auto simp: writable_def)
    note spec = write_turn_spec [OF turn ms(6,7) this, folded q]
    show ?thesis
    proof (cases stop)
      case None
      then obtain ms' where ms': "gathered (queue v) ms' None q'" "acks = map snd ms'" "w' = []"
          "wire c = wire (sink v) @ framed_bytes ms'" "batch_inv b" "content (chunks b) = []"
        using spec by auto
      then show ?thesis
        using None turn q ms \<open>stopped v = None\<close>
        by (simp add: writer_turn_def writer_inv_def gathered_def)
    next
      case (Some r)
      then have "writer_outcome conv (wire w) (wire c) h r (map snd ms @ acks)"
        using spec ms by (intro outcome_step [where q' = "queue v"]) simp_all
      then show ?thesis
        using Some turn q ms \<open>stopped v = None\<close> by (simp add: writer_turn_def writer_inv_def)
    qed
  qed
qed

lemma vat_run_writer:
  assumes "vat_run ops conv cops rd (vat_network_new conn w s opts) es v" and "writable (queued_items es)"
  shows "writer_inv wire conv w (queued_items es) v"
  using assms
proof (induction rule: vat_run.induct)
  case run_start
  have "batch_inv (batch_new INLINE_LIMIT)" using batch_reach_inv [OF reach_new] by simp
  then show ?case by (simp add: writer_inv_def vat_network_new_def batch_new_def content_def)
next
  case (run_send es v m p v')
  have "writable (queued_items es)"
    using run_send.prems by (auto simp: writable_def queued_snoc split: if_splits)
  from writer_inv_send [OF run_send.IH [OF this], of "Message m (next_promise v)"] show ?case
    using run_send.hyps(3)
    by (auto simp: outgoing_send_def Let_def unbounded_send_def elim!: writer_inv_cong [THEN iffD1, rotated -1] split: if_splits)
next
  case (run_shutdown es v r p v')
  have "writable (queued_items es)"
    using run_shutdown.prems by (auto simp: writable_def queued_snoc split: if_splits)
  from writer_inv_send [OF run_shutdown.IH [OF this], of "Done r (next_promise v)"] show ?case
    using run_shutdown.hyps(3)
    by (auto simp: shutdown_def Let_def unbounded_send_def elim!: writer_inv_cong [THEN iffD1, rotated -1] split: if_splits)
next
  case (run_received es v r v')
  then show ?case
    using receive_future_handles [OF run_received.hyps(3)] writer_inv_cong [of v' v] by simp
next
  case (run_writer_turn es v)
  then show ?case by (simp add: writer_inv_turn)
qed (auto simp: call_defs elim!: writer_inv_cong [THEN iffD2, rotated -1] split: if_splits option.splits)

end

section \<open>The reader between the calls\<close>

definition reader_inv :: "('b, 's) capnp_ops \<Rightarrow> ('c \<Rightarrow> bytes) \<Rightarrow> reader_options \<Rightarrow> bytes
    \<Rightarrow> 's vat_event list \<Rightarrow> ('c, 'w) vat_network \<Rightarrow> bool" where
  "reader_inv cops rest opts stream es v \<longleftrightarrow>
     (let parsed = parse_all 512 (traversal_limit_in_words opts) stream;
          got = map (read_segments cops) (received_messages es)
      in prefix got (fst parsed)
       \<and> (\<forall>c ib. input v = Some (c, ib) \<or> receiving v = Some (c, ib) \<longrightarrow>
            inbound_inv ib \<and> options ib = opts
            \<and> parsed = (case parse_all 512 (traversal_limit_in_words opts) (buffered ib @ rest c) of
                          (ms, r) \<Rightarrow> (got @ ms, r)))
       \<and> (Received (Inr None) \<in> set es \<longrightarrow> parsed = (got, Inr ()))
       \<and> (\<forall>e. Received (Inl e) \<in> set es \<longrightarrow>
            parsed = (got, Inl e) \<and> input v = None \<and> receiving v = None))"

context framed_stream
begin

lemma reader_inv_received:
  assumes inv: "reader_inv ops rest opts stream es v" and "receiving v = Some (c, ib)" and "input v = None"
    and step: "receive_future ops rd v = (r, v')"
  shows "reader_inv ops rest opts stream (es @ [Received r]) v'"
proof -
  let ?limit = "traversal_limit_in_words opts"
  let ?got = "map (read_segments ops) (received_messages es)" and ?S = "buffered ib @ rest c"
  have ib: "inbound_inv ib" "options ib = opts" and quiet: "Received (Inl e) \<notin> set es" for e
    using inv assms(2) by (auto simp: reader_inv_def Let_def)
  obtain ms end' where parsed: "parse_all 512 ?limit ?S = (ms, end')"
      "parse_all 512 ?limit stream = (?got @ ms, end')"
    using inv assms(2) by (cases "parse_all 512 ?limit ?S") (auto simp: reader_inv_def Let_def)
  have ended: "ms = []" "end' = Inr ()" if "Received (Inr None) \<in> set es"
    using inv that parsed(2) by (auto simp: reader_inv_def Let_def)
  obtain res ib' c' where nxt: "inbound_next ops rd ib c = (res, ib', c')" by (rule prod_cases3)
  note del = next_spec [OF ib(1), of c, unfolded nxt delivers_def, simplified, unfolded ib(2)]
  note unfold = parse_all.simps [of 512 ?limit ?S]
  show ?thesis
  proof (cases "parse_frame 512 ?limit ?S")
    case (Inl e)
    then have "res = Inl e" "ms = []" "end' = Inl e" using del parsed(1) unfold by auto
    then show ?thesis
      using step assms(2,3) nxt parsed(2) quiet ended
      by (auto simp: receive_future_def reader_inv_def Let_def)
  next
    case (Inr p)
    show ?thesis
    proof (cases p)
      case None
      then have "res = Inr None" "ms = []" "end' = Inr ()" "inbound_inv ib'" "buffered ib' @ rest c' = []"
          "options ib' = opts"
        using Inr del parsed(1) unfold ib(2) by auto
      then show ?thesis
        using step assms(2,3) nxt parsed(2) quiet
        by (auto simp: receive_future_def reader_inv_def Let_def parse_all.simps [of _ _ "[]"] parse_frame_def)
    next
      case (Some x)
      obtain segs tail where x: "x = (segs, tail)" by (cases x)
      obtain ms1 where ms1: "parse_all 512 ?limit tail = (ms1, end')" "ms = segs # ms1"
        using parsed(1) unfold Inr Some x by (cases "parse_all 512 ?limit tail") auto
      obtain m where "res = Inr (Some m)" "read_segments ops m = segs" "inbound_inv ib'"
          "buffered ib' @ rest c' = tail" "options ib' = opts"
        using del Inr Some x ib(2) by auto
      then show ?thesis
        using step assms(2,3) nxt parsed(2) quiet ms1 ended
        by (auto simp: receive_future_def reader_inv_def Let_def)
    qed
  qed
qed

lemma vat_run_reader:
  assumes "vat_run sops conv ops rd (vat_network_new conn w s opts) es v"
  shows "reader_inv ops rest opts (rest conn) es v"
  using assms
proof (induction rule: vat_run.induct)
  case run_start
  have "buffered (inbound_new opts STAGING_CAPACITY) = []" "inbound_inv (inbound_new opts STAGING_CAPACITY)"
    "options (inbound_new opts STAGING_CAPACITY) = opts"
    by (simp_all add: buffered_def inbound_new_def inbound_inv_def vec_with_capacity_def)
  then show ?case by (simp add: reader_inv_def vat_network_new_def Let_def split: prod.split)
next
  case (run_received es v r v')
  obtain c ib where "receiving v = Some (c, ib)" using run_received.hyps(2) by auto
  moreover have "input v = None"
    using vat_run_handles [OF run_received.hyps(1)] run_received.hyps(2) by (auto simp: handles_inv_def)
  ultimately show ?case using reader_inv_received run_received.IH run_received.hyps(3) by blast
next
  case (run_receive es v v')
  then show ?case
    by (auto simp: receive_incoming_message_def reader_inv_def Let_def split: option.splits)
next
  case (run_cancelled es v)
  then show ?case by (auto simp: receive_cancelled_def reader_inv_def Let_def)
next
  case (run_writer_turn es v)
  then show ?case by (simp add: reader_inv_def)
qed (auto simp: reader_inv_def call_defs sends_def split: if_splits option.splits)

end

section \<open>Promises\<close>

fun promise_of :: "item \<Rightarrow> nat" where
  "promise_of (Message m p) = p"
| "promise_of (Done r p) = p"

lemma queued_in_items: "(m, p) \<in> set (queued q) \<Longrightarrow> Message m p \<in> set (map fst q)"
  by (induction q rule: queued.induct) auto

lemma finish_in_items: "finish q = Some (r, p) \<Longrightarrow> Done r p \<in> set (map fst q)"
  by (induction q rule: finish.induct) auto

lemma queued_items_iff: "Queued i \<in> set es \<longleftrightarrow> i \<in> set (map fst (queued_items es))"
  by (induction es rule: queued_items.induct) auto

lemma vat_run_promises:
  assumes "vat_run ops conv cops rd (vat_network_new conn w s opts) es v"
  shows "distinct (map (promise_of \<circ> fst) (queued_items es))
    \<and> (\<forall>i \<in> set (queued_items es). promise_of (fst i) < next_promise v)"
  using assms
proof (induction rule: vat_run.induct)
  case (run_received es v r v')
  then show ?case using receive_future_handles(12) [OF run_received.hyps(3)] by simp
qed (auto simp: vat_network_new_def call_defs less_Suc_eq split: if_splits option.splits)

lemma same_promise:
  assumes "distinct (map (promise_of \<circ> fst) h)" and "i \<in> set (map fst h)" and "j \<in> set (map fst h)"
    and "promise_of i = promise_of j"
  shows "i = j"
  using assms by (auto simp: distinct_map inj_on_def)

text \<open>An acknowledged message and all before it are on the wire.\<close>

lemma outcome_acked:
  assumes "acks = map snd (take n (queued h)) @ rest_acks" and "prefix (before @ framed_bytes (take n (queued h))) after"
    and "p \<notin> set rest_acks" and "p \<in> set acks"
  shows "\<exists>pre m. prefix (pre @ [(m, p)]) (queued h) \<and> prefix (before @ framed_bytes (pre @ [(m, p)])) after"
proof -
  from assms(1,3,4) obtain m where "(m, p) \<in> set (take n (queued h))" by auto
  then obtain pre post where split: "take n (queued h) = pre @ (m, p) # post" by (meson split_list)
  then have taken: "prefix (pre @ [(m, p)]) (take n (queued h))" by simp
  then have "prefix (before @ framed_bytes (pre @ [(m, p)])) (before @ framed_bytes (take n (queued h)))"
    by (auto simp: prefix_def)
  then have "prefix (before @ framed_bytes (pre @ [(m, p)])) after"
    using assms(2) by (rule prefix_order.trans)
  moreover have "prefix (pre @ [(m, p)]) (queued h)"
    using taken take_is_prefix by (rule prefix_order.trans)
  ultimately show ?thesis by blast
qed

context byte_sink
begin

lemma vat_acked:
  assumes run: "vat_run ops conv cops rd (vat_network_new conn w s opts) es v"
    and "writable (queued_items es)" and "Queued (Message m p) \<in> set es" and "p \<in> set (acked v)"
  shows "\<exists>pre. prefix (pre @ [(m, p)]) (queued (queued_items es))
    \<and> prefix (wire w @ framed_bytes (pre @ [(m, p)])) (wire (sink v))"
proof -
  let ?h = "queued_items es"
  have dist: "distinct (map (promise_of \<circ> fst) ?h)" and m: "Message m p \<in> set (map fst ?h)"
    using vat_run_promises [OF run] assms(3) queued_items_iff by auto
  have not_done: "finish ?h \<noteq> Some (r, p)" for r
    using same_promise [OF dist m, of "Done r p"] finish_in_items by auto
  have "\<exists>n rest_acks. acked v = map snd (take n (queued ?h)) @ rest_acks
      \<and> prefix (wire w @ framed_bytes (take n (queued ?h))) (wire (sink v)) \<and> p \<notin> set rest_acks"
  proof (cases "stopped v")
    case None
    then obtain ms where "queued ?h = ms @ queued (queue v)" "wire (sink v) = wire w @ framed_bytes ms"
        "acked v = map snd ms"
      using vat_run_writer [OF run assms(2)] by (auto simp: writer_inv_def)
    then show ?thesis by (intro exI [of _ "length ms"] exI [of _ "[]"]) simp
  next
    case (Some r)
    then have "writer_outcome conv (wire w) (wire (sink v)) ?h r (acked v)"
      using vat_run_writer [OF run assms(2)] by (simp add: writer_inv_def)
    then show ?thesis
      unfolding writer_outcome_def
    proof (elim disjE exE conjE)
      assume "wire (sink v) = wire w @ framed_bytes (queued ?h)"
        "acked v = map snd (queued ?h) @ (case finish ?h of None \<Rightarrow> [] | Some (r, a) \<Rightarrow> [a])"
      then show ?thesis
        using not_done by (intro exI [of _ "length (queued ?h)"]) (auto split: option.splits)
    qed (auto intro!: exI [of _ "[]"])
  qed
  then obtain pre m' where pre: "prefix (pre @ [(m', p)]) (queued ?h)"
      "prefix (wire w @ framed_bytes (pre @ [(m', p)])) (wire (sink v))"
    using outcome_acked assms(4) by metis
  have "(m', p) \<in> set (queued ?h)" using pre(1) by (auto simp: prefix_def)
  then have "m' = m" using same_promise [OF dist m] queued_in_items by fastforce
  then show ?thesis using pre by auto
qed

end

text \<open>What is on the wire is a part of what was queued, from its beginning.\<close>

lemma writer_inv_prefix:
  assumes "writer_inv wire conv w h v"
  shows "prefix (wire (sink v)) (wire w @ framed_bytes (queued h))"
proof (cases "stopped v")
  case None
  then show ?thesis using assms by (auto simp: writer_inv_def)
next
  case (Some r)
  then have "writer_outcome conv (wire w) (wire (sink v)) h r (acked v)" using assms by (simp add: writer_inv_def)
  then show ?thesis
    unfolding writer_outcome_def
  proof (elim disjE exE conjE)
    fix e n part
    assume "wire (sink v) = wire w @ framed_bytes (take n (queued h)) @ part"
      "prefix part (framed_bytes (drop n (queued h)))"
    then show ?thesis using framed_bytes_simps(3) [of "take n (queued h)" "drop n (queued h)"] by simp
  qed simp
qed

section \<open>Shutting down\<close>

lemma gather_finish: "gather b w i q = (b', w', None, q') \<Longrightarrow> finish q' = finish ((i, x) # q)"
proof (induction q arbitrary: b w i x)
  case Nil
  then show ?case by (cases i) (auto simp: Let_def split: if_splits)
next
  case (Cons y q)
  obtain nxt ready where y: "y = (nxt, ready)" by (cases y)
  show ?case
  proof (cases i)
    case (Message m a)
    then show ?thesis
      using Cons.prems Cons.IH [of "push b m" "w @ [a]" nxt ready] y
      by (cases ready) (auto simp: Let_def split: if_splits)
  qed (use Cons.prems in simp)
qed

lemma write_turn_finish:
  "write_turn ops conv c b w i q = (None, acks, c', b', w', q') \<Longrightarrow> finish q' = finish ((i, x) # q)"
  by (auto simp: write_turn_def dest: gather_finish split: prod.splits sum.splits option.splits)

definition ends :: "('c, 'w) vat_network \<Rightarrow> bool" where
  "ends v \<longleftrightarrow> stopped v \<noteq> None \<or> finish (queue v) \<noteq> None \<or> strong v = 0 \<and> building v = 0"

lemma writer_turn_progress:
  assumes "ends v" and "stopped (writer_turn ops conv v) = None"
  shows "ends (writer_turn ops conv v) \<and> length (queue (writer_turn ops conv v)) < length (queue v)"
proof (cases "queue v")
  case Nil
  then show ?thesis using assms by (auto simp: writer_turn_def ends_def split: if_splits)
next
  case (Cons y rest)
  obtain i x where q: "queue v = (i, x) # rest" using Cons by (cases y) auto
  obtain stop acks c b w q' where
    turn: "write_turn ops conv (sink v) (sink_batch v) (unacked v) i rest = (stop, acks, c, b, w, q')"
    by (rule prod_cases6)
  then have "stop = None" "stopped v = None"
    using assms(2) q by (auto simp: writer_turn_def split: if_splits)
  then show ?thesis
    using assms(1) q turn write_turn_finish [of ops conv _ _ _ i rest _ _ _ _ q' x] write_turn_shorter [OF turn]
    by (auto simp: writer_turn_def ends_def)
qed

lemma writer_stays_stopped: "stopped v \<noteq> None \<Longrightarrow> (writer_turn ops conv ^^ n) v = v"
  by (induction n) (simp_all add: writer_turn_def)

lemma writer_finishes: "ends v \<Longrightarrow> length (queue v) < n \<Longrightarrow> stopped ((writer_turn ops conv ^^ n) v) \<noteq> None"
proof (induction n arbitrary: v)
  case (Suc n)
  show ?case
  proof (cases "stopped (writer_turn ops conv v) = None")
    case True
    then have "ends (writer_turn ops conv v)" "length (queue (writer_turn ops conv v)) < n"
      using writer_turn_progress [OF Suc.prems(1) True] Suc.prems(2) by simp_all
    from Suc.IH [OF this] show ?thesis by (simp add: funpow_Suc_right del: funpow.simps(2))
  next
    case False
    then show ?thesis using writer_stays_stopped [OF False] by (simp add: funpow_Suc_right del: funpow.simps(2))
  qed
qed simp

text \<open>What a peer parses of the bytes a network has written are the first of the messages queued.\<close>

lemma written_messages_parse:
  assumes sink: "byte_sink ops wire"
    and wf: "list_all (wf_message limit) (map fst (queued (queued_items es)))"
    and sender: "vat_run ops conv cops' rd' (vat_network_new conn' w s' opts') es v" and "wire w = []"
  shows "\<exists>k r. parse_all 512 limit (wire (sink v)) = (take k (map fst (queued (queued_items es))), r)"
proof -
  have "writable (queued_items es)" using wf by (fastforce simp: writable_def list_all_iff dest: wf_messageD(1))
  then have "prefix (wire (sink v)) (concat (map serialize (map fst (queued (queued_items es)))))"
    using writer_inv_prefix [OF byte_sink.vat_run_writer [OF sink sender]] \<open>wire w = []\<close>
    by (simp add: framed_bytes_eq)
  from parse_all_prefix [OF this wf] show ?thesis by auto
qed

section \<open>Properties\<close>

text \<open>A network over a stream with one empty message and a sink that never fails.\<close>

definition sample_network :: "(trickle, limited_sink) vat_network" where
  "sample_network = vat_network_new (trickle_new [0,0,0,0, 0,0,0,0] [3]) \<lparr>sunk = [], budget = 100\<rparr> Server
     \<lparr>traversal_limit_in_words = Some 8, nesting_limit = 64\<rparr>"

definition sample_sent :: "(trickle, limited_sink) vat_network" where
  "sample_sent = writer_turn limited_ops (\<lambda>e. writer_stopped)
     (snd (outgoing_send [[1,2,3,4,5,6,7,8]] (new_outgoing_message sample_network)))"

abbreviation sample_run :: "(nat list \<times> bytes) vat_event list \<Rightarrow> (trickle, limited_sink) vat_network \<Rightarrow> bool" where
  "sample_run \<equiv> vat_run limited_ops (\<lambda>e. writer_stopped) list_capnp trickle_ops sample_network"

lemmas writer_eval = writer_turn_def outgoing_send_def unbounded_send_def new_outgoing_message_def
  vat_network_new_def Let_def write_turn_def write_batch_def take_chunks_def limited_ops_def
  limited_write_def push_def push_table_def push_segment_def batch_new_def inline_tail_def
  extend_last_def is_empty_def content_def vec_new_def WORD_def INLINE_LIMIT_def

lemma sample_sent_run: "sample_run [Queued (Message [[1,2,3,4,5,6,7,8]] 0)] sample_sent"
proof -
  let ?v = "new_outgoing_message sample_network" and ?m = "[[1,2,3,4,5,6,7,8]] :: bytes list"
  have fresh: "stopped ?v = None" "building ?v = 1" "fst (outgoing_send ?m ?v) = 0" "0 < strong sample_network"
    by (simp_all add: sample_network_def vat_network_new_def new_outgoing_message_def outgoing_send_def Let_def)
  have "sample_run [] ?v" by (rule run_new_message [OF run_start fresh(4)])
  then have "sample_run ([] @ sends (Message ?m 0) ?v) (snd (outgoing_send ?m ?v))"
    by (rule run_send) (use fresh in \<open>simp_all add: prod_eq_iff\<close>)
  then show ?thesis
    unfolding sample_sent_def by (intro run_writer_turn) (simp add: sends_def fresh(1))
qed

text \<open>Any network over that stream receives the empty message.\<close>

lemma empty_message_run:
  "\<exists>m v. read_segments list_capnp m = [[]]
     \<and> vat_run ops conv list_capnp trickle_ops (vat_network_new (trickle_new [0,0,0,0, 0,0,0,0] [3]) w s opts)
         [Received (Inr (Some m))] v"
proof -
  let ?c = "trickle_new [0,0,0,0, 0,0,0,0] [3]" and ?ib = "inbound_new opts STAGING_CAPACITY"
  let ?new = "vat_network_new ?c w s opts"
  let ?v = "?new\<lparr>input := None, receiving := Some (?c, ?ib)\<rparr>"
  have start: "receive_incoming_message ?new = (Inr (), ?v)" "0 < strong ?new" "receiving ?v = Some (?c, ?ib)"
    by (simp_all add: receive_incoming_message_def vat_network_new_def)
  have "buffered ?ib @ trickle_rest ?c = [0,0,0,0, 0,0,0,0]" "inbound_inv ?ib" "options ?ib = opts"
    by (simp_all add: buffered_def inbound_new_def inbound_inv_def vec_with_capacity_def trickle_rest_def trickle_new_def)
  moreover have "serialize [[]] = [0,0,0,0, 0,0,0,0]" by code_simp
  then have "parse_frame 512 (traversal_limit_in_words opts) [0,0,0,0, 0,0,0,0] = Inr (Some ([[]], []))"
    using parse_serialize [of "traversal_limit_in_words opts" "[[]]" "[]"]
    by (simp add: wf_message_def message_words_def exceeds_def split: option.split)
  ultimately obtain m ib c where
    "inbound_next list_capnp trickle_ops ?ib ?c = (Inr (Some m), ib, c)" and m: "read_segments list_capnp m = [[]]"
    using trickle_framing.next_spec [of ?ib ?c]
    by (auto simp: delivers_def split: prod.splits)
  then obtain v where "receive_future list_capnp trickle_ops ?v = (Inr (Some m), v)"
    by (simp add: receive_future_def)
  then have "vat_run ops conv list_capnp trickle_ops ?new ([] @ [Received (Inr (Some m))]) v"
    by (intro run_received [OF run_receive [OF run_start start(2,1)]]) simp_all
  then have "vat_run ops conv list_capnp trickle_ops ?new [Received (Inr (Some m))] v" by simp
  with m show ?thesis by (intro exI [of _ m] exI [of _ v] conjI)
qed

lemma sample_received_run: "\<exists>m v. sample_run [Received (Inr (Some m))] v"
proof -
  obtain m v where "vat_run limited_ops (\<lambda>e. writer_stopped) list_capnp trickle_ops sample_network [Received (Inr (Some m))] v"
    by (rule exE [OF empty_message_run [folded sample_network_def]]) (auto simp: sample_network_def)
  then show ?thesis by (intro exI [of _ m] exI [of _ v])
qed

text \<open>C19: In every interleaving of the calls on the handles of a network, the turns of its writer
  and the drops: the state lives exactly as long as a handle does, and its end is signalled then and
  only then; \<open>accept\<close> gives out the network's own handle at most once; \<open>connect\<close> refuses the own side
  and panics only when no handle is left; the driver resolves exactly when the writer has stopped
  and the last handle is gone, with the writer's result; at most one receive is in progress.\<close>

theorem network_handles:
  assumes "vat_run ops from_io_error cops rd (vat_network_new conn w s opts) es v"
  shows "(on_disconnect v \<longleftrightarrow> 0 < strong v) \<and> count_list es Accepted \<le> 1
    \<and> (fst (vn_connect host v) = NoConnection \<longleftrightarrow> host = s)
    \<and> (fst (vn_connect host v) = Panicked \<longleftrightarrow> host = get_peer_vat_id v \<and> strong v = 0)
    \<and> (driver v = Some r \<longleftrightarrow> stopped v = Some r \<and> strong v = 0)
    \<and> (receiving v \<noteq> None \<longrightarrow> fst (receive_incoming_message v) = Inl receive_in_progress)"
proof -
  have inv: "handles_inv s es v" using assms by (rule vat_run_handles)
  have "host \<noteq> s \<longleftrightarrow> host = other_side s" by (cases host; cases s) (simp_all add: other_side_def)
  moreover have "count_list es Accepted \<le> 1"
    using inv by (cases "vn_connection v") (simp_all add: handles_inv_def)
  ultimately show ?thesis
    using inv by (auto simp: handles_inv_def vn_connect_def driver_def get_peer_vat_id_def
        receive_incoming_message_def split: option.splits if_splits)
qed

theorem network_handles_witness:
  "fst (vn_connect Client sample_sent) \<noteq> Panicked \<and> driver sample_sent \<noteq> Some (Inr ())"
proof -
  have "strong sample_sent = 1"
    by (simp add: sample_sent_def outgoing_send_def unbounded_send_def new_outgoing_message_def
        sample_network_def vat_network_new_def Let_def)
  then show ?thesis
    using network_handles [OF sample_sent_run [unfolded sample_network_def], where host = Client and r = "Inr ()"]
    by simp
qed

text \<open>C18: The receives of a connection give the messages of the stream, each once, in order and
  unchanged, whatever the calls between them; a receive that reports the end comes after all of
  them, and one that fails reports the error of the framing at that place, after which the
  connection refuses every further receive.\<close>

theorem network_receives:
  assumes "byte_stream rd rest" and "capnp_framing cops lens_of raw_of table_of"
    and "vat_run ops from_io_error cops rd (vat_network_new conn w s opts) es v"
    and "parse_all 512 (traversal_limit_in_words opts) (rest conn) = (ms, ending)"
  shows "prefix (map (read_segments cops) (received_messages es)) ms
    \<and> (Received (Inr None) \<in> set es \<longrightarrow>
         map (read_segments cops) (received_messages es) = ms \<and> ending = Inr ())
    \<and> (\<forall>e. Received (Inl e) \<in> set es \<longrightarrow>
         map (read_segments cops) (received_messages es) = ms \<and> ending = Inl e
         \<and> receive_incoming_message v = (Inl receive_in_progress, v))"
proof -
  have "framed_stream rd rest cops lens_of raw_of table_of" using assms(1,2) by (simp add: framed_stream_def)
  from framed_stream.vat_run_reader [OF this assms(3)] show ?thesis
    using assms(4) by (auto simp: reader_inv_def Let_def receive_incoming_message_def)
qed

theorem network_receives_witness:
  "\<exists>m v. sample_run [Received (Inr (Some m))] v \<and> prefix [read_segments list_capnp m] [[[]]]"
proof -
  obtain m v where run: "sample_run [Received (Inr (Some m))] v" using sample_received_run by blast
  have "parse_all 512 (Some 8) [0,0,0,0, 0,0,0,0] = ([[[]]], Inr ())" by code_simp
  then have "prefix [read_segments list_capnp m] [[[]]]"
    using network_receives [OF trickle.byte_stream_axioms list_framing.capnp_framing_axioms
        run [unfolded sample_network_def], of "[[[]]]" "Inr ()"]
    by (simp add: trickle_rest_def trickle_new_def)
  with run show ?thesis by (intro exI [of _ m] exI [of _ v] conjI)
qed

text \<open>C3: Two networks joined by a stream, with messages within the limits of the format and of the
  reader: what the receives of one give are messages sent on the
  other, in the order they were sent, unchanged and without repetition; and once the receiver has
  met the end of the stream or an error, it has got every message whose promise was fulfilled at
  the sender.\<close>

theorem connected_networks_deliver:
  assumes sink: "byte_sink ops wire" and stream: "byte_stream rd rest"
    and framing: "capnp_framing cops lens_of raw_of table_of"
    and wf: "list_all (wf_message (traversal_limit_in_words opts)) (map fst (queued (queued_items es)))"
    and sender: "vat_run ops conv cops' rd' (vat_network_new conn' w s' opts') es v" and "wire w = []"
    and receiver: "vat_run ops' conv' cops rd (vat_network_new conn w' s opts) es' v'"
    and joined: "rest conn = wire (sink v)"
  shows "prefix (map (read_segments cops) (received_messages es')) (map fst (queued (queued_items es)))
    \<and> (Queued (Message m p) \<in> set es \<and> promise p v = Some (Inr ())
         \<and> (Received (Inr None) \<in> set es' \<or> (\<exists>e. Received (Inl e) \<in> set es'))
       \<longrightarrow> m \<in> set (map (read_segments cops) (received_messages es')))"
proof -
  let ?limit = "traversal_limit_in_words opts" and ?h = "queued_items es"
  let ?got = "map (read_segments cops) (received_messages es')"
  have writable: "writable ?h" using wf by (fastforce simp: writable_def list_all_iff dest: wf_messageD(1))
  obtain k r where parsed: "parse_all 512 ?limit (rest conn) = (take k (map fst (queued ?h)), r)"
    using written_messages_parse [OF sink wf sender \<open>wire w = []\<close>] joined by auto
  have "framed_stream rd rest cops lens_of raw_of table_of" using stream framing by (simp add: framed_stream_def)
  note reader = framed_stream.vat_run_reader [OF this receiver, unfolded reader_inv_def parsed, simplified]
  have order: "prefix ?got (map fst (queued ?h))"
    using reader take_is_prefix by (auto simp: Let_def intro: prefix_order.trans)
  have "m \<in> set ?got" if m: "Queued (Message m p) \<in> set es" "promise p v = Some (Inr ())"
    and ended: "Received (Inr None) \<in> set es' \<or> (\<exists>e. Received (Inl e) \<in> set es')"
  proof -
    obtain pre where pre: "prefix (pre @ [(m, p)]) (queued ?h)"
        "prefix (framed_bytes (pre @ [(m, p)])) (rest conn)"
      using byte_sink.vat_acked [OF sink sender writable m(1)] m(2) \<open>wire w = []\<close> joined
      by (auto simp: promise_def split: if_splits)
    then obtain t where "rest conn = concat (map serialize (map fst (pre @ [(m, p)]))) @ t"
      by (auto simp: prefix_def framed_bytes_eq)
    moreover have "list_all (wf_message ?limit) (map fst (pre @ [(m, p)]))"
      using wf pre(1) by (auto simp: prefix_def)
    ultimately have "m \<in> set (fst (parse_all 512 ?limit (rest conn)))"
      using parse_all_serialized [of ?limit "map fst (pre @ [(m, p)])" t]
      by (simp split: prod.split)
    moreover have "?got = take k (map fst (queued ?h))" using reader ended by (auto simp: Let_def)
    ultimately show ?thesis using parsed by simp
  qed
  with order show ?thesis by blast
qed

theorem connected_networks_deliver_witness:
  "\<exists>m v. sample_run [Received (Inr (Some m))] v \<and> prefix [read_segments list_capnp m] [[[]]]"
proof -
  obtain m v where run: "sample_run [Received (Inr (Some m))] v" using sample_received_run by blast
  let ?sender = "vat_network_new () \<lparr>sunk = [], budget = 8\<rparr> Client
      \<lparr>traversal_limit_in_words = None, nesting_limit = 64\<rparr> :: (unit, limited_sink) vat_network"
  let ?v = "writer_turn limited_ops (\<lambda>e. writer_stopped) (snd (outgoing_send [[]] (new_outgoing_message ?sender)))"
  have sent: "vat_run limited_ops (\<lambda>e. writer_stopped) list_capnp rd ?sender
      ([] @ sends (Message [[]] 0) (new_outgoing_message ?sender)) ?v" for rd
    by (intro run_writer_turn run_send [OF run_new_message [OF run_start]])
      (simp_all add: vat_network_new_def new_outgoing_message_def outgoing_send_def Let_def)
  have zero: "to_le 4 (0 :: u32) = [0,0,0,0]" by code_simp
  have wire: "sunk (sink ?v) = [0,0,0,0, 0,0,0,0]"
    by (simp add: writer_eval zero)
  have "list_all (wf_message (Some 8)) [[[]]]" by (simp add: wf_message_def exceeds_def message_words_def)
  then have "prefix [read_segments list_capnp m] [[[]]]"
    using connected_networks_deliver [OF limited.byte_sink_axioms trickle.byte_stream_axioms
        list_framing.capnp_framing_axioms _ sent _ run [unfolded sample_network_def]] wire
    by (simp add: sends_def new_outgoing_message_def vat_network_new_def trickle_rest_def trickle_new_def)
  with run show ?thesis by (intro exI [of _ m] exI [of _ v] conjI)
qed

text \<open>C20: Shutting down ends. The promise of \<open>shutdown\<close> is resolved after at most one turn of the
  writer more than there are items queued with it, whatever the stream does; and when the last
  handle is gone and no message is being built, the driver resolves within as many turns.\<close>

theorem network_shuts_down:
  assumes "vat_run ops from_io_error cops rd (vat_network_new conn w s opts) es v"
  shows "promise (fst (shutdown r v))
           ((writer_turn ops from_io_error ^^ (length (queue v) + 2)) (snd (shutdown r v))) \<noteq> None
    \<and> (strong v = 0 \<and> building v = 0 \<longrightarrow>
         driver ((writer_turn ops from_io_error ^^ (length (queue v) + 1)) v) \<noteq> None)"
proof
  have "ends (snd (shutdown r v))" "length (queue (snd (shutdown r v))) < length (queue v) + 2"
    by (auto simp: ends_def shutdown_def unbounded_send_def Let_def finish_snoc)
  from writer_finishes [OF this, of ops from_io_error] show "promise (fst (shutdown r v))
      ((writer_turn ops from_io_error ^^ (length (queue v) + 2)) (snd (shutdown r v))) \<noteq> None"
    by (auto simp: promise_def)
  have quiet: "on_disconnect ((writer_turn ops from_io_error ^^ n) v) = on_disconnect v" for n
    by (induction n) simp_all
  show "strong v = 0 \<and> building v = 0 \<longrightarrow>
      driver ((writer_turn ops from_io_error ^^ (length (queue v) + 1)) v) \<noteq> None"
  proof
    assume gone: "strong v = 0 \<and> building v = 0"
    then have "\<not> on_disconnect v" using vat_run_handles [OF assms] by (simp add: handles_inv_def)
    then show "driver ((writer_turn ops from_io_error ^^ (length (queue v) + 1)) v) \<noteq> None"
      using writer_finishes [of v "length (queue v) + 1" ops from_io_error] gone quiet [of "length (queue v) + 1"]
      by (auto simp: driver_def ends_def)
  qed
qed

theorem network_shuts_down_witness:
  "promise (fst (shutdown (Inr ()) sample_sent))
     ((writer_turn limited_ops (\<lambda>e. writer_stopped) ^^ (length (queue sample_sent) + 2))
        (snd (shutdown (Inr ()) sample_sent))) \<noteq> None"
  using network_shuts_down [OF sample_sent_run [unfolded sample_network_def], of "Inr ()"] by simp

end
