(* ===== verification/Session.thy ===== *)
theory Session
  imports Endpoint Handshake_Duplex Vat_Network "HOL-Library.Multiset"
begin

text \<open>
  \<open>src/src/rpc/mod.rs\<close> and \<open>src/src/rpc/acceptor.rs\<close>: sessions over authenticated connections, and
  the acceptor that runs many handshakes at once. \<open>RpcSystem\<close> is a parameter, the capability it
  bootstraps from a network (\<open>'r\<close>); a task is known by how it ended. The two halves of a connection,
  for the reader and the writer of its network, are the same handle. The handshake of a connection
  is \<open>authenticate_server\<close> of \<open>Handshake\<close>, in all of its runs.
\<close>

section \<open>Sessions\<close>

definition default_reader_options :: reader_options where
  "default_reader_options = \<lparr>traversal_limit_in_words = Some (1024 * 1024), nesting_limit = 32\<rparr>"

record ('c, 'r) rpc_session =
  remote :: 'r
  network :: "('c, 'c) vat_network"
  peer_version :: "version option"

type_synonym ('c, 'r) bootstrap = "('c, 'c) vat_network \<Rightarrow> side \<Rightarrow> 'r"

definition spawn_session_with_options :: "('c, 'r) bootstrap \<Rightarrow> 'c \<Rightarrow> side \<Rightarrow> reader_options \<Rightarrow> ('c, 'r) rpc_session" where
  "spawn_session_with_options bootstrap conn side opts =
     (let net = vat_network_new conn conn side opts;
          remote_side = (case side of side.Server \<Rightarrow> side.Client | side.Client \<Rightarrow> side.Server)
      in \<lparr>remote = bootstrap net remote_side, network = net, peer_version = None\<rparr>)"

definition spawn_session :: "('c, 'r) bootstrap \<Rightarrow> 'c \<Rightarrow> side \<Rightarrow> ('c, 'r) rpc_session" where
  "spawn_session bootstrap conn side = spawn_session_with_options bootstrap conn side default_reader_options"

datatype task_end = Finished "capnp_error + unit" | TaskPanicked string

definition session_wait :: "'e report_ops \<Rightarrow> task_end \<Rightarrow> 'e + unit" where
  "session_wait ops ended =
     (case ended of
        Finished (Inr _) \<Rightarrow> Inr ()
      | Finished (Inl e) \<Rightarrow> Inl (from_capnp_exception ops e)
      | TaskPanicked panic \<Rightarrow>
          Inl (attach ops (report_new ops (RpcContext Setup))
                 (OpaqueAttachment (''rpc driver task panicked: '' @ panic))))"

text \<open>The two calls that establish one session, given what the listener or the endpoint returned.\<close>

definition accept_session :: "('k, 'g, 's) hs_env \<Rightarrow> ('s conn, 'r) bootstrap \<Rightarrow> transport_error report + 's conn
    \<Rightarrow> handshake_mode \<Rightarrow> protocol \<Rightarrow> (rpc_error report + ('s conn, 'r) rpc_session) io" where
  "accept_session env bootstrap accepted mode protocol =
     bind_ok (Ret (recontext Setup accepted)) (\<lambda>conn.
     bind_ok (io_bind (authenticate_server env conn mode protocol) (\<lambda>r. Ret (recontext Setup r))) (\<lambda>version.
       Ret (Inr ((spawn_session bootstrap conn side.Server)\<lparr>peer_version := version\<rparr>))))"

definition connect_session :: "('k, 'g, 's) hs_env \<Rightarrow> ('s conn, 'r) bootstrap \<Rightarrow> platform \<Rightarrow> ('a, 's) connect_ops
    \<Rightarrow> 'a endpoint \<Rightarrow> handshake_mode \<Rightarrow> protocol \<Rightarrow> (rpc_error report + ('s conn, 'r) rpc_session) io" where
  "connect_session env bootstrap plat ops endpoint mode protocol =
     bind_ok (Ret (recontext Setup (endpoint_connect plat ops endpoint))) (\<lambda>conn.
     bind_ok (io_bind (authenticate_client env mode protocol) (\<lambda>r. Ret (recontext Setup r))) (\<lambda>version.
       Ret (Inr ((spawn_session bootstrap conn side.Client)\<lparr>peer_version := version\<rparr>))))"

section \<open>The acceptor\<close>

definition DEFAULT_MAX_PENDING :: nat where "DEFAULT_MAX_PENDING = 64"
definition DEFAULT_HANDSHAKE_DEADLINE :: nat where "DEFAULT_HANDSHAKE_DEADLINE = 10000000000"

datatype 's accept_step =
    Accepted "transport_error report + 's conn"
  | Settled "('s conn \<times> version option) option"

text \<open>The handshakes under way are known by their connections; \<open>accepting\<close>: an accept is under way.\<close>

record 's session_acceptor =
  sa_mode :: handshake_mode
  sa_protocol :: protocol
  max_pending :: nat
  deadline :: nat
  accepting :: bool
  pending :: "'s conn multiset"

definition acceptor_new :: "handshake_mode \<Rightarrow> protocol \<Rightarrow> 's session_acceptor" where
  "acceptor_new mode protocol =
     \<lparr>sa_mode = mode, sa_protocol = protocol, max_pending = DEFAULT_MAX_PENDING,
      deadline = DEFAULT_HANDSHAKE_DEADLINE, accepting = False, pending = {#}\<rparr>"

definition set_max_pending :: "nat \<Rightarrow> 's session_acceptor \<Rightarrow> 's session_acceptor" where
  "set_max_pending n a = a\<lparr>max_pending := max n 1\<rparr>"

definition set_handshake_deadline :: "nat \<Rightarrow> 's session_acceptor \<Rightarrow> 's session_acceptor" where
  "set_handshake_deadline d a = a\<lparr>deadline := d\<rparr>"

definition pending_count :: "'s session_acceptor \<Rightarrow> nat" where
  "pending_count a = size (pending a)"

text \<open>How the handshake of a connection can settle: it passes, it fails, or the deadline passes first.\<close>

inductive settles :: "('k, 'g, 's) hs_env \<Rightarrow> 's session_acceptor \<Rightarrow> 's conn \<Rightarrow> ('s conn \<times> version option) option \<Rightarrow> bool"
  for env a conn where
  settled_passed: "runs (authenticate_server env conn (sa_mode a) (sa_protocol a)) tr (Inr version)
    \<Longrightarrow> settles env a conn (Some (conn, version))"
| settled_failed: "runs (authenticate_server env conn (sa_mode a) (sa_protocol a)) tr (Inl report)
    \<Longrightarrow> settles env a conn None"
| settled_late: "settles env a conn None"

text \<open>
  One turn of the loop of \<open>next\<close>. \<open>begin_turn\<close> starts an accept if none is under way; a settled
  handshake has left \<open>pending\<close> before its result is looked at.
\<close>

definition begin_turn :: "'s session_acceptor \<Rightarrow> 's session_acceptor" where
  "begin_turn a = a\<lparr>accepting := True\<rparr>"

datatype ('s, 'r) turn = Again | Return "rpc_error report + ('s conn, 'r) rpc_session"

definition end_turn :: "('s conn, 'r) bootstrap \<Rightarrow> 's accept_step \<Rightarrow> 's session_acceptor
    \<Rightarrow> ('s, 'r) turn \<times> 's session_acceptor" where
  "end_turn bootstrap settled a =
     (case settled of
        Accepted accepted \<Rightarrow>
          let a = a\<lparr>accepting := False\<rparr> in
          (case recontext Setup accepted of
             Inl report \<Rightarrow> (Return (Inl report), a)
           | Inr conn \<Rightarrow>
               if max_pending a \<le> size (pending a) then (Again, a)
               else (Again, a\<lparr>pending := add_mset conn (pending a)\<rparr>))
      | Settled (Some (conn, version)) \<Rightarrow>
          (Return (Inr ((spawn_session bootstrap conn side.Server)\<lparr>peer_version := version\<rparr>)), a)
      | Settled None \<Rightarrow> (Again, a))"

section \<open>Histories of an acceptor\<close>

datatype ('s, 'r) acceptor_event =
    Arrived "'s conn"
  | Turned_away "'s conn"
  | Gone "'s conn"
  | Handed_out "'s conn" "('s conn, 'r) rpc_session"
  | Listener_failed

inductive acceptor_run :: "('k, 'g, 's) hs_env \<Rightarrow> ('s conn, 'r) bootstrap \<Rightarrow> 's session_acceptor
    \<Rightarrow> ('s, 'r) acceptor_event list \<Rightarrow> 's session_acceptor \<Rightarrow> bool"
  for env bootstrap a0 where
  acc_start: "acceptor_run env bootstrap a0 [] a0"
| acc_begin: "acceptor_run env bootstrap a0 es a \<Longrightarrow> acceptor_run env bootstrap a0 es (begin_turn a)"
| acc_accepted: "acceptor_run env bootstrap a0 es a \<Longrightarrow> accepting a
    \<Longrightarrow> end_turn bootstrap (Accepted (Inr conn)) a = (Again, a')
    \<Longrightarrow> acceptor_run env bootstrap a0
          (es @ (if pending a' = pending a then [Arrived conn, Turned_away conn] else [Arrived conn])) a'"
| acc_failed: "acceptor_run env bootstrap a0 es a \<Longrightarrow> accepting a
    \<Longrightarrow> end_turn bootstrap (Accepted (Inl report)) a = (Return (Inl report'), a')
    \<Longrightarrow> acceptor_run env bootstrap a0 (es @ [Listener_failed]) a'"
| acc_passed: "acceptor_run env bootstrap a0 es a \<Longrightarrow> conn \<in># pending a \<Longrightarrow> settles env a conn (Some passed)
    \<Longrightarrow> end_turn bootstrap (Settled (Some passed)) (a\<lparr>pending := pending a - {#conn#}\<rparr>) = (Return (Inr session), a')
    \<Longrightarrow> acceptor_run env bootstrap a0 (es @ [Handed_out conn session]) a'"
| acc_gone: "acceptor_run env bootstrap a0 es a \<Longrightarrow> conn \<in># pending a \<Longrightarrow> settles env a conn None
    \<Longrightarrow> end_turn bootstrap (Settled None) (a\<lparr>pending := pending a - {#conn#}\<rparr>) = (Again, a')
    \<Longrightarrow> acceptor_run env bootstrap a0 (es @ [Gone conn]) a'"

primrec enters :: "('s, 'r) acceptor_event \<Rightarrow> 's conn multiset" where
  "enters (Arrived c) = {#c#}"
| "enters (Turned_away c) = {#}"
| "enters (Gone c) = {#}"
| "enters (Handed_out c session) = {#}"
| "enters Listener_failed = {#}"

primrec leaves :: "('s, 'r) acceptor_event \<Rightarrow> 's conn multiset" where
  "leaves (Arrived c) = {#}"
| "leaves (Turned_away c) = {#c#}"
| "leaves (Gone c) = {#c#}"
| "leaves (Handed_out c session) = {#c#}"
| "leaves Listener_failed = {#}"

definition passed_session :: "('k, 'g, 's) hs_env \<Rightarrow> ('s conn, 'r) bootstrap \<Rightarrow> handshake_mode \<Rightarrow> protocol
    \<Rightarrow> 's conn \<Rightarrow> ('s conn, 'r) rpc_session \<Rightarrow> bool" where
  "passed_session env bootstrap mode protocol conn session \<longleftrightarrow>
     (\<exists>tr version. runs (authenticate_server env conn mode protocol) tr (Inr version)
        \<and> session = (spawn_session bootstrap conn side.Server)\<lparr>peer_version := version\<rparr>)"

definition acceptor_inv :: "('k, 'g, 's) hs_env \<Rightarrow> ('s conn, 'r) bootstrap \<Rightarrow> handshake_mode \<Rightarrow> protocol \<Rightarrow> nat
    \<Rightarrow> ('s, 'r) acceptor_event list \<Rightarrow> 's session_acceptor \<Rightarrow> bool" where
  "acceptor_inv env bootstrap mode protocol n es a \<longleftrightarrow>
     sa_mode a = mode \<and> sa_protocol a = protocol \<and> max_pending a = n \<and> size (pending a) \<le> n
     \<and> sum_list (map enters es) = pending a + sum_list (map leaves es)
     \<and> (\<forall>conn session. Handed_out conn session \<in> set es \<longrightarrow>
          passed_session env bootstrap mode protocol conn session)"

inductive_cases settles_someE: "settles env a conn (Some passed)"

lemma acceptor_run_inv:
  assumes "acceptor_run env bootstrap (set_max_pending n (acceptor_new mode protocol)) es a"
  shows "acceptor_inv env bootstrap mode protocol (max n 1) es a"
  using assms
proof (induction rule: acceptor_run.induct)
  case acc_start
  show ?case by (simp add: acceptor_inv_def set_max_pending_def acceptor_new_def)
next
  case (acc_accepted es a conn a')
  then show ?case
    by (auto simp: acceptor_inv_def end_turn_def recontext_def Let_def split: if_splits)
next
  case (acc_passed es a conn passed session a')
  then obtain tr version where run: "runs (authenticate_server env conn mode protocol) tr (Inr version)"
      "passed = (conn, version)"
    by (auto simp: acceptor_inv_def elim!: settles_someE)
  then have "passed_session env bootstrap mode protocol conn session"
    using acc_passed.hyps(4) by (auto simp: end_turn_def passed_session_def)
  moreover obtain rest where "pending a = add_mset conn rest" using acc_passed.hyps(2) by (metis insert_DiffM)
  ultimately show ?case using acc_passed run(2) by (auto simp: acceptor_inv_def end_turn_def)
next
  case (acc_gone es a conn a')
  moreover obtain rest where "pending a = add_mset conn rest" using acc_gone.hyps(2) by (metis insert_DiffM)
  ultimately show ?case by (auto simp: acceptor_inv_def end_turn_def)
qed (auto simp: acceptor_inv_def begin_turn_def end_turn_def recontext_def Let_def)

section \<open>The size of a message\<close>

lemma split_words_total: "length (concat (split_words ns bs)) \<le> 8 * sum_list ns"
  by (induction ns arbitrary: bs) (auto intro: add_mono)

lemma parse_frame_bounded:
  assumes "parse_frame cl (Some limit) bs = Inr (Some (m, rest))"
  shows "length (concat m) \<le> 8 * limit"
proof -
  obtain ns t where "m = split_words ns t" "sum_list ns \<le> limit"
    using assms
    by (auto simp: parse_frame_def parse_table_def exceeds_def Let_def not_less split: if_splits)
  then show ?thesis using split_words_total [of ns t] by simp
qed

lemma parse_all_bounded: "m \<in> set (fst (parse_all cl (Some limit) bs)) \<Longrightarrow> length (concat m) \<le> 8 * limit"
proof (induction "length bs" arbitrary: bs rule: less_induct)
  case less
  show ?case
  proof (cases "\<exists>m' rest. parse_frame cl (Some limit) bs = Inr (Some (m', rest))")
    case True
    then obtain m' rest where parse: "parse_frame cl (Some limit) bs = Inr (Some (m', rest))" by blast
    then have "m = m' \<or> m \<in> set (fst (parse_all cl (Some limit) rest))"
      using less.prems by (auto simp: parse_all.simps [of cl _ bs] split: prod.splits)
    then show ?thesis
      using less.hyps [OF parse_frame_shorter [OF parse]] parse_frame_bounded [OF parse] by blast
  next
    case False
    then show ?thesis
      using less.prems by (auto simp: parse_all.simps [of cl _ bs] split: sum.splits option.splits prod.splits)
  qed
qed

section \<open>Properties\<close>

text \<open>C4: The acceptor hands out only sessions that passed. In every history of arriving connections,
  handshakes that pass, fail or run out of time in any order, listener errors and dropped calls: each
  session handed out is on a connection whose whole server handshake succeeded, with the version
  that handshake returned; every connection that arrived is still being authenticated, was handed
  out, failed, or was turned away, so none is lost or handed out twice; no more handshakes are under
  way than configured, and at least one is allowed; and a connection that arrives while fewer are
  under way is taken.\<close>

theorem acceptor_hands_out_passed_sessions:
  assumes "acceptor_run env bootstrap (set_max_pending n (acceptor_new mode protocol)) es a"
  shows "(\<forall>conn session. Handed_out conn session \<in> set es \<longrightarrow>
        passed_session env bootstrap mode protocol conn session)
    \<and> sum_list (map enters es) = pending a + sum_list (map leaves es)
    \<and> pending_count a \<le> max n 1
    \<and> (pending_count a < max n 1 \<longrightarrow>
         pending (snd (end_turn bootstrap (Accepted (Inr c)) a)) = add_mset c (pending a))"
  using acceptor_run_inv [OF assms]
  by (auto simp: acceptor_inv_def pending_count_def end_turn_def recontext_def Let_def)

theorem acceptor_hands_out_passed_sessions_witness:
  "passed_session (sample_env hmac) (\<lambda>_ _. ()) Disabled (protocol_new 7 1 0 0) (Tcp 3)
     (spawn_session (\<lambda>_ _. ()) (Tcp 3) side.Server)"
proof -
  let ?b = "\<lambda>_ _. () :: unit" and ?env = "sample_env hmac" and ?p = "protocol_new 7 1 0 0"
  let ?a = "set_max_pending 0 (acceptor_new Disabled ?p) :: nat session_acceptor"
  let ?s = "(spawn_session ?b (Tcp 3) side.Server)\<lparr>peer_version := None\<rparr> :: (nat conn, unit) rpc_session"
  let ?c = "(begin_turn ?a)\<lparr>accepting := False, pending := {#Tcp 3#}\<rparr>"
  have "acceptor_run ?env ?b ?a ([] @ [Arrived (Tcp 3)]) ?c"
    using acc_accepted [OF acc_begin [OF acc_start], of ?a ?b "Tcp 3" ?c ?env]
    by (simp add: begin_turn_def end_turn_def recontext_def set_max_pending_def acceptor_new_def Let_def)
  moreover have "settles ?env ?c (Tcp 3) (Some (Tcp 3, None))"
    by (rule settled_passed [of _ _ _ "[]"])
      (simp add: authenticate_server_def begin_turn_def set_max_pending_def acceptor_new_def)
  ultimately have "acceptor_run ?env ?b ?a (([] @ [Arrived (Tcp 3)]) @ [Handed_out (Tcp 3) ?s]) (?c\<lparr>pending := {#}\<rparr>)"
    by (intro acc_passed [where a = ?c and passed = "(Tcp 3, None)"]) (simp_all add: end_turn_def)
  from acceptor_hands_out_passed_sessions [OF this] show ?thesis
    by (simp add: spawn_session_def spawn_session_with_options_def Let_def)
qed

text \<open>C39: No peer can make a session accept a message of more than \<open>1024 * 1024\<close> words: on any stream
  and in every interleaving, each message the network of a spawned session delivers has at most
  that many words in its segments together.\<close>

theorem session_messages_bounded:
  assumes "byte_stream rd rest" and "capnp_framing cops lens_of raw_of table_of"
    and "vat_run ops from_io_error cops rd (network (spawn_session bootstrap conn side)) es v"
    and "m \<in> set (received_messages es)"
  shows "length (concat (read_segments cops m)) \<le> 8 * (1024 * 1024)"
proof -
  let ?parsed = "parse_all 512 (traversal_limit_in_words default_reader_options) (rest conn)"
  have framed: "framed_stream rd rest cops lens_of raw_of table_of" using assms(1,2) by (simp add: framed_stream_def)
  have "prefix (map (read_segments cops) (received_messages es)) (fst ?parsed)"
    using framed_stream.vat_run_reader [OF framed, of ops from_io_error conn conn side default_reader_options es v] assms(3)
    by (simp add: reader_inv_def spawn_session_def spawn_session_with_options_def Let_def)
  then have "read_segments cops m \<in> set (fst ?parsed)" using assms(4) by (auto simp: prefix_def)
  then show ?thesis
    using parse_all_bounded [of "read_segments cops m" 512 "1024 * 1024"]
    by (simp add: default_reader_options_def)
qed

theorem session_messages_bounded_witness:
  "\<exists>m v. vat_run \<lparr>write_vectored_all = (\<lambda>c cs. (Inr (), c)), sink_flush = (\<lambda>c. (Inr (), c))\<rparr> (\<lambda>e. writer_stopped)
        list_capnp trickle_ops
        (network (spawn_session (\<lambda>_ _. ()) (trickle_new [0,0,0,0, 0,0,0,0] [3]) side.Client)) [Received (Inr (Some m))] v
     \<and> length (concat (read_segments list_capnp m)) \<le> 8 * (1024 * 1024)"
proof -
  let ?c = "trickle_new [0,0,0,0, 0,0,0,0] [3]"
  let ?ops = "\<lparr>write_vectored_all = (\<lambda>c cs. (Inr (), c)), sink_flush = (\<lambda>c. (Inr (), c))\<rparr> :: trickle sink_ops"
  have net: "network (spawn_session (\<lambda>_ _. ()) ?c side.Client) = vat_network_new ?c ?c side.Client default_reader_options"
    by (simp add: spawn_session_def spawn_session_with_options_def Let_def)
  obtain m v where "vat_run ?ops (\<lambda>e. writer_stopped) list_capnp trickle_ops
      (vat_network_new ?c ?c side.Client default_reader_options) [Received (Inr (Some m))] v"
    using empty_message_run [of ?ops "\<lambda>e. writer_stopped" ?c side.Client default_reader_options]
    by (elim exE conjE) (rule that)
  then have run: "vat_run ?ops (\<lambda>e. writer_stopped) list_capnp trickle_ops
      (network (spawn_session (\<lambda>_ _. ()) ?c side.Client)) [Received (Inr (Some m))] v" by (simp only: net)
  from session_messages_bounded [OF trickle.byte_stream_axioms list_framing.capnp_framing_axioms run, of m]
  have "length (concat (read_segments list_capnp m)) \<le> 8 * (1024 * 1024)" by simp
  with run show ?thesis by (intro exI [of _ m] exI [of _ v] conjI)
qed

end
