(* ===== verification/Frame_Failures.thy ===== *)
theory Frame_Failures
  imports Frame_Inbound
begin

text \<open>
  The reader of \<open>src/src/rpc/frame.rs\<close> on a stream whose reads may fail. \<open>failing_stream\<close> is the
  contract of such a stream; every \<open>byte_stream\<close> is one. The reader is compared with the same
  reader on the stream \<open>repaired\<close>, which goes on from the bytes still to come where a read of the
  original fails: up to a failure the two runs are the same.
\<close>

section \<open>Streams that fail\<close>

text \<open>
  \<open>failed r e\<close> says that one of the reads made from \<open>r\<close> on fails with \<open>e\<close>. A read that succeeds
  gives the next bytes. \<open>read_exact\<close> gives all that was asked for or fails; at the end of the stream
  it reports that.
\<close>

locale failing_stream =
  fixes rd :: "'r reader_ops" and rest :: "'r \<Rightarrow> bytes" and failed :: "'r \<Rightarrow> io_error \<Rightarrow> bool"
  assumes append_ok: "read_append rd r room = (Inr got, r') \<Longrightarrow>
        rest r = got @ rest r' \<and> length got \<le> room \<and> (got = [] \<and> 0 < room \<longrightarrow> rest r = [])
        \<and> (\<forall>e. failed r' e \<longrightarrow> failed r e)"
    and append_failed: "read_append rd r room = (Inl e, r') \<Longrightarrow> failed r e"
    and exact_ok: "read_exact rd r n = (Inr bs, r') \<Longrightarrow>
        rest r = bs @ rest r' \<and> length bs = n \<and> (\<forall>e. failed r' e \<longrightarrow> failed r e)"
    and exact_failed: "read_exact rd r n = (Inl e, r') \<Longrightarrow>
        failed r e \<or> e = UnexpectedEof \<and> length (rest r) < n"

section \<open>The repaired stream\<close>

definition list_append :: "bytes \<Rightarrow> nat \<Rightarrow> (io_error + bytes) \<times> ('r + bytes)" where
  "list_append bs room = (Inr (take room bs), Inr (drop room bs))"

definition list_exact :: "bytes \<Rightarrow> nat \<Rightarrow> (io_error + bytes) \<times> ('r + bytes)" where
  "list_exact bs n = (if n \<le> length bs then (Inr (take n bs), Inr (drop n bs)) else (Inl UnexpectedEof, Inr bs))"

fun repaired_append :: "'r reader_ops \<Rightarrow> ('r \<Rightarrow> bytes) \<Rightarrow> 'r + bytes \<Rightarrow> nat \<Rightarrow> (io_error + bytes) \<times> ('r + bytes)" where
  "repaired_append rd rest (Inl r) room =
     (case read_append rd r room of
        (Inl e, _) \<Rightarrow> list_append (rest r) room
      | (Inr got, r') \<Rightarrow> (Inr got, Inl r'))"
| "repaired_append rd rest (Inr bs) room = list_append bs room"

fun repaired_exact :: "'r reader_ops \<Rightarrow> ('r \<Rightarrow> bytes) \<Rightarrow> 'r + bytes \<Rightarrow> nat \<Rightarrow> (io_error + bytes) \<times> ('r + bytes)" where
  "repaired_exact rd rest (Inl r) n =
     (case read_exact rd r n of
        (Inl e, _) \<Rightarrow> list_exact (rest r) n
      | (Inr bs, r') \<Rightarrow> (Inr bs, Inl r'))"
| "repaired_exact rd rest (Inr bs) n = list_exact bs n"

definition repaired :: "'r reader_ops \<Rightarrow> ('r \<Rightarrow> bytes) \<Rightarrow> ('r + bytes) reader_ops" where
  "repaired rd rest = \<lparr>read_append = repaired_append rd rest, read_exact = repaired_exact rd rest\<rparr>"

text \<open>
  A run on the stream either ends with an error one of its reads failed with, or it gives the
  same answer and leaves the same reader as the run on the repaired stream.
\<close>

definition same_or_failed :: "(io_error \<Rightarrow> capnp_kind) \<Rightarrow> ('r \<Rightarrow> io_error \<Rightarrow> bool) \<Rightarrow> 'r
    \<Rightarrow> (capnp_kind + 'a) \<times> inbound \<times> 'r \<Rightarrow> (capnp_kind + 'a) \<times> inbound \<times> ('r + bytes) \<Rightarrow> bool" where
  "same_or_failed conv failed r out out' \<longleftrightarrow>
     (case (out, out') of ((res, ib, r1), (res', ib', r1')) \<Rightarrow>
        (\<exists>e. failed r e \<and> res = Inl (conv e))
        \<or> res' = res \<and> ib' = ib \<and> (isl res \<or> r1' = Inl r1 \<and> (\<forall>e. failed r1 e \<longrightarrow> failed r e)))"

lemma same_or_failed_error [simp]:
  "same_or_failed conv failed r (Inl k, ib, r1) (Inl k, ib, r1')"
  by (simp add: same_or_failed_def)

lemma same_or_failed_ok [simp]:
  "same_or_failed conv failed r (Inr x, ib, r1) (Inr x, ib, Inl r1) \<longleftrightarrow> (\<forall>e. failed r1 e \<longrightarrow> failed r e)"
  by (simp add: same_or_failed_def)

lemma same_or_failed_failure: "failed r e \<Longrightarrow> same_or_failed conv failed r (Inl (conv e), ib, r1) out'"
  by (auto simp: same_or_failed_def split: prod.splits)

lemma same_or_failed_later:
  "same_or_failed conv failed r1 out out' \<Longrightarrow> (\<And>e. failed r1 e \<Longrightarrow> failed r e) \<Longrightarrow> same_or_failed conv failed r out out'"
  by (auto simp: same_or_failed_def split: prod.splits)

text \<open>Sequential composition: what follows is run only after an answer, on the reader left.\<close>

lemma same_or_failed_cases:
  assumes "same_or_failed conv failed r out out'"
  obtains (failed) e ib r1 where "failed r e" "out = (Inl (conv e), ib, r1)"
    | (error) k ib r1 r1' where "out = (Inl k, ib, r1)" "out' = (Inl k, ib, r1')"
    | (ok) x ib r1 where "out = (Inr x, ib, r1)" "out' = (Inr x, ib, Inl r1)" "\<And>e. failed r1 e \<Longrightarrow> failed r e"
  using assms
  by (cases "fst out"; cases out; cases out') (auto simp: same_or_failed_def)

lemma delivers_same:
  assumes "same_or_failed conv failed r out out'" and "delivers ops (case_sum rest (\<lambda>bs. bs)) parsed ib out'"
  shows "delivers ops rest parsed ib out \<or> (\<exists>e. failed r e \<and> fst out = Inl (conv e))"
  using assms(1)
proof (cases rule: same_or_failed_cases)
  case (error k ib' r1 r1')
  then show ?thesis using assms(2) by (auto simp: delivers_def split: sum.splits option.splits)
next
  case (ok x ib' r1)
  then show ?thesis using assms(2) by (auto simp: delivers_def split: sum.splits option.splits)
qed auto

context failing_stream
begin

lemma repaired_stream: "byte_stream (repaired rd rest) (case_sum rest (\<lambda>bs. bs))"
proof
  fix room n :: nat and r :: "'r + bytes"
  show "\<exists>got r'. read_append (repaired rd rest) r room = (Inr got, r')
      \<and> case_sum rest (\<lambda>bs. bs) r = got @ case_sum rest (\<lambda>bs. bs) r' \<and> length got \<le> room
      \<and> (got = [] \<longrightarrow> case_sum rest (\<lambda>bs. bs) r = [])" if "0 < room"
    using that
    by (cases r) (auto simp: repaired_def list_append_def dest!: append_ok split: prod.splits sum.splits)
  show "\<exists>r'. read_exact (repaired rd rest) r n = (Inr (take n (case_sum rest (\<lambda>bs. bs) r)), r')
      \<and> case_sum rest (\<lambda>bs. bs) r' = drop n (case_sum rest (\<lambda>bs. bs) r)" if "n \<le> length (case_sum rest (\<lambda>bs. bs) r)"
    using that
    by (cases r) (auto simp: repaired_def list_exact_def dest!: exact_ok split: prod.splits sum.splits)
  show "\<exists>r'. read_exact (repaired rd rest) r n = (Inl UnexpectedEof, r')" if "length (case_sum rest (\<lambda>bs. bs) r) < n"
    using that
    by (cases r) (auto simp: repaired_def list_exact_def dest!: exact_ok split: prod.splits sum.splits)
qed

lemma fill_same:
  "same_or_failed conv failed r (fill rd conv ib r needed eof_ok) (fill (repaired rd rest) conv ib (Inl r) needed eof_ok)"
proof (induction "needed - length (buffered ib)" arbitrary: ib r rule: less_induct)
  case (less ib r)
  show ?case
  proof (cases "length (buffered ib) < needed")
    case True
    define ib1 where "ib1 = make_room needed ib"
    define room where "room = vec_cap (staging ib1) - length (vec_bytes (staging ib1))"
    note unfold = fill.simps [of _ _ ib] repaired_def buffered_def ib1_def [symmetric] room_def [symmetric]
    obtain a r1 where a: "read_append rd r room = (a, r1)" by fastforce
    show ?thesis
    proof (cases a)
      case (Inl e)
      then show ?thesis
        using True a append_failed by (simp add: unfold same_or_failed_failure)
    next
      case (Inr got)
      note ok = append_ok [OF a [unfolded Inr]]
      have "same_or_failed conv failed r1 (fill rd conv (append_staging got ib1) r1 needed eof_ok)
          (fill (repaired rd rest) conv (append_staging got ib1) (Inl r1) needed eof_ok)" if "got \<noteq> []"
        using that True by (intro less) (simp add: buffered_def ib1_def diff_less_mono2 flip: length_greater_0_conv)
      then have later: "got \<noteq> [] \<Longrightarrow> same_or_failed conv failed r (fill rd conv (append_staging got ib1) r1 needed eof_ok)
          (fill (repaired rd rest) conv (append_staging got ib1) (Inl r1) needed eof_ok)"
        using ok by (blast intro: same_or_failed_later)
      then show ?thesis using True a Inr ok by (simp add: unfold Let_def)
    qed
  next
    case False
    then show ?thesis by (simp add: fill.simps buffered_def)
  qed
qed

lemma body_same:
  "same_or_failed (from_io ops) failed r (read_body ops rd ib r lengths) (read_body ops (repaired rd rest) ib (Inl r) lengths)"
proof -
  let ?len = "total_words ops lengths * WORD"
  show ?thesis
  proof (cases "?len \<le> capacity ib")
    case True
    from fill_same [of "from_io ops" r ib ?len False] show ?thesis
      by (cases rule: same_or_failed_cases) (use True in \<open>auto simp: read_body_def Let_def intro: same_or_failed_failure\<close>)
  next
    case False
    define n where "n = ?len - min (length (vec_bytes (staging ib)) - pos ib) ?len"
    obtain a r1 where a: "read_exact rd r n = (a, r1)" by fastforce
    note unfold = read_body_def Let_def repaired_def n_def [symmetric] list_exact_def
    show ?thesis
    proof (cases a)
      case (Inl e)
      then show ?thesis using False a exact_failed [of r n e r1]
        by (auto simp: unfold intro: same_or_failed_failure)
    next
      case (Inr bs)
      then show ?thesis using False a exact_ok [of r n bs r1] by (simp add: unfold)
    qed
  qed
qed

lemma table_same:
  "same_or_failed (from_io ops) failed r (read_table ops rd ib r count) (read_table ops (repaired rd rest) ib (Inl r) count)"
  using fill_same [of "from_io ops" r ib "next_multiple_of (4 * (count + 1)) WORD" False]
proof (cases rule: same_or_failed_cases)
  case (ok x ib1 r1)
  then show ?thesis
    using same_or_failed_later [OF body_same [of ops r1], of r]
    by (simp add: read_table_def Let_def split: sum.split)
qed (simp_all add: read_table_def Let_def same_or_failed_failure)

lemma next_same:
  "same_or_failed (from_io ops) failed r (inbound_next ops rd ib r) (inbound_next ops (repaired rd rest) ib (Inl r))"
  using fill_same [of "from_io ops" r ib WORD True]
proof (cases rule: same_or_failed_cases)
  case (ok x ib1 r1)
  then show ?thesis
    using same_or_failed_later [OF table_same [of ops r1], of r]
    by (cases x) (simp_all add: inbound_next_def Let_def)
qed (simp_all add: inbound_next_def same_or_failed_failure)

text \<open>The reader delivers what the incoming bytes mean, or reports a failure of the stream as such.\<close>

lemma next_delivers_or_fails:
  assumes "capnp_framing ops lens_of raw_of table_of" and "inbound_inv ib"
  shows "delivers ops rest (parse_frame 512 (traversal_limit_in_words (options ib)) (buffered ib @ rest r)) ib
      (inbound_next ops rd ib r)
    \<or> (\<exists>e. failed r e \<and> fst (inbound_next ops rd ib r) = Inl (from_io ops e))"
proof (rule delivers_same [OF next_same])
  have "framed_stream (repaired rd rest) (case_sum rest (\<lambda>bs. bs)) ops lens_of raw_of table_of"
    by (intro framed_stream.intro repaired_stream assms(1))
  from framed_stream.next_spec [OF this assms(2), of "Inl r"]
  show "delivers ops (case_sum rest (\<lambda>bs. bs))
      (parse_frame 512 (traversal_limit_in_words (options ib)) (buffered ib @ rest r)) ib
      (inbound_next ops (repaired rd rest) ib (Inl r))" by simp
qed

end

text \<open>The reader of the tests never fails but at its end.\<close>

interpretation trickle_reads: failing_stream trickle_ops trickle_rest "\<lambda>t e. False"
proof
  fix t t' :: trickle and n :: nat and bs e
  show "trickle_rest t = bs @ trickle_rest t' \<and> length bs \<le> n \<and> (bs = [] \<and> 0 < n \<longrightarrow> trickle_rest t = [])
      \<and> (\<forall>e. False \<longrightarrow> False)" if "read_append trickle_ops t n = (Inr bs, t')"
    using that trickle_read_spec [of t n bs t'] by (auto simp: trickle_ops_def trickle_append_def split: prod.splits)
  show False if "read_append trickle_ops t n = (Inl e, t')"
    using that by (simp add: trickle_ops_def trickle_append_def split: prod.splits)
  show "trickle_rest t = bs @ trickle_rest t' \<and> length bs = n \<and> (\<forall>e. False \<longrightarrow> False)"
    if "read_exact trickle_ops t n = (Inr bs, t')"
    using that trickle.exact_some [of n t] trickle.exact_eof [of t n] by (cases "n \<le> length (trickle_rest t)") auto
  show "False \<or> e = UnexpectedEof \<and> length (trickle_rest t) < n" if "read_exact trickle_ops t n = (Inl e, t')"
    using that trickle.exact_some [of n t] trickle.exact_eof [of t n] by (cases "n \<le> length (trickle_rest t)") auto
qed

end
