(* ===== verification/Streams.thy ===== *)
theory Streams
  imports Npipe Vsock Network Frame_Failures
begin

text \<open>
  Reading and writing on a connection: the \<open>AsyncRead\<close>, \<open>AsyncWrite\<close> and \<open>Splitable\<close> impls of
  \<open>src/src/net/conn.rs\<close>, \<open>src/src/net/npipe.rs\<close> and \<open>src/src/net/vsock/\<close>. The calls act on a
  world \<open>'w\<close> in which a handle \<open>'s\<close> names a socket, so clones of a connection, which are equal
  handles, act on one socket. The streams of \<open>compio\<close>, the operations of its driver and the extension
  traits of \<open>compio::io\<close> are parameters; their laws are the locales \<open>transports\<close> and \<open>io_ext_laws\<close>.
\<close>

section \<open>Calls\<close>

record ('h, 'w) stream_ops =
  st_read :: "'h \<Rightarrow> nat \<Rightarrow> 'w \<Rightarrow> (io_error + bytes) \<times> 'w"
  st_write :: "'h \<Rightarrow> bytes \<Rightarrow> 'w \<Rightarrow> (io_error + nat) \<times> 'w"
  st_write_vectored :: "'h \<Rightarrow> bytes list \<Rightarrow> 'w \<Rightarrow> (io_error + nat) \<times> 'w"
  st_flush :: "'h \<Rightarrow> 'w \<Rightarrow> (io_error + unit) \<times> 'w"
  st_shutdown :: "'h \<Rightarrow> 'w \<Rightarrow> (io_error + unit) \<times> 'w"

text \<open>
  \<open>TcpStream\<close>, \<open>UnixStream\<close>, \<open>NamedPipeServer\<close> and \<open>NamedPipeClient\<close>; the operations \<open>Recv\<close>, \<open>Send\<close>
  and \<open>SendVectored\<close> with the system call that shuts down the sending side; and the default that
  \<open>AsyncWrite\<close> gives for \<open>write_vectored\<close>.
\<close>

record ('s, 'w) stream_env =
  tcp_stream :: "('s, 'w) stream_ops"
  unix_stream :: "('s, 'w) stream_ops"
  pipe_server :: "('s, 'w) stream_ops"
  pipe_client :: "('s, 'w) stream_ops"
  op_recv :: "'s \<Rightarrow> nat \<Rightarrow> 'w \<Rightarrow> (io_error + bytes) \<times> 'w"
  op_send :: "'s \<Rightarrow> bytes \<Rightarrow> 'w \<Rightarrow> (io_error + nat) \<times> 'w"
  op_send_vectored :: "'s \<Rightarrow> bytes list \<Rightarrow> 'w \<Rightarrow> (io_error + nat) \<times> 'w"
  os_shutdown_send :: "'s \<Rightarrow> 'w \<Rightarrow> (io_error + unit) \<times> 'w"
  default_write_vectored :: "(bytes \<Rightarrow> 'w \<Rightarrow> (io_error + nat) \<times> 'w)
    \<Rightarrow> bytes list \<Rightarrow> 'w \<Rightarrow> (io_error + nat) \<times> 'w"

section \<open>Named pipes\<close>

fun npipe_read :: "('s, 'w) stream_env \<Rightarrow> 's named_pipe_stream \<Rightarrow> nat \<Rightarrow> 'w \<Rightarrow> (io_error + bytes) \<times> 'w" where
  "npipe_read env (Server stream) n w = st_read (pipe_server env) stream n w"
| "npipe_read env (Client stream) n w = st_read (pipe_client env) stream n w"

fun npipe_write :: "('s, 'w) stream_env \<Rightarrow> 's named_pipe_stream \<Rightarrow> bytes \<Rightarrow> 'w \<Rightarrow> (io_error + nat) \<times> 'w" where
  "npipe_write env (Server stream) bs w = st_write (pipe_server env) stream bs w"
| "npipe_write env (Client stream) bs w = st_write (pipe_client env) stream bs w"

text \<open>There is no \<open>write_vectored\<close> in the impl, so calls get the default of the trait.\<close>

definition npipe_write_vectored :: "('s, 'w) stream_env \<Rightarrow> 's named_pipe_stream \<Rightarrow> bytes list \<Rightarrow> 'w
    \<Rightarrow> (io_error + nat) \<times> 'w" where
  "npipe_write_vectored env pipe bufs w = default_write_vectored env (npipe_write env pipe) bufs w"

fun npipe_flush :: "('s, 'w) stream_env \<Rightarrow> 's named_pipe_stream \<Rightarrow> 'w \<Rightarrow> (io_error + unit) \<times> 'w" where
  "npipe_flush env (Server stream) w = st_flush (pipe_server env) stream w"
| "npipe_flush env (Client stream) w = st_flush (pipe_client env) stream w"

fun npipe_shutdown :: "('s, 'w) stream_env \<Rightarrow> 's named_pipe_stream \<Rightarrow> 'w \<Rightarrow> (io_error + unit) \<times> 'w" where
  "npipe_shutdown env (Server stream) w = st_shutdown (pipe_server env) stream w"
| "npipe_shutdown env (Client stream) w = st_shutdown (pipe_client env) stream w"

definition npipe_split :: "'s named_pipe_stream \<Rightarrow> 's named_pipe_stream \<times> 's named_pipe_stream" where
  "npipe_split pipe = (pipe, pipe)"

section \<open>Vsock\<close>

text \<open>The Linux stream ignores what the system call says about a shutdown.\<close>

definition vsock_stream_read :: "('s, 'w) stream_env \<Rightarrow> 's \<Rightarrow> nat \<Rightarrow> 'w \<Rightarrow> (io_error + bytes) \<times> 'w" where
  "vsock_stream_read env stream n w = op_recv env stream n w"

definition vsock_stream_write :: "('s, 'w) stream_env \<Rightarrow> 's \<Rightarrow> bytes \<Rightarrow> 'w \<Rightarrow> (io_error + nat) \<times> 'w" where
  "vsock_stream_write env stream bs w = op_send env stream bs w"

definition vsock_stream_write_vectored :: "('s, 'w) stream_env \<Rightarrow> 's \<Rightarrow> bytes list \<Rightarrow> 'w \<Rightarrow> (io_error + nat) \<times> 'w" where
  "vsock_stream_write_vectored env stream bufs w = op_send_vectored env stream bufs w"

definition vsock_stream_flush :: "'s \<Rightarrow> 'w \<Rightarrow> (io_error + unit) \<times> 'w" where
  "vsock_stream_flush stream w = (Inr (), w)"

definition vsock_stream_shutdown :: "('s, 'w) stream_env \<Rightarrow> 's \<Rightarrow> 'w \<Rightarrow> (io_error + unit) \<times> 'w" where
  "vsock_stream_shutdown env stream w = (Inr (), snd (os_shutdown_send env stream w))"

definition hv_stream_read :: "('s, 'w) stream_env \<Rightarrow> 's \<Rightarrow> nat \<Rightarrow> 'w \<Rightarrow> (io_error + bytes) \<times> 'w" where
  "hv_stream_read env stream n w = op_recv env stream n w"

definition hv_stream_write :: "('s, 'w) stream_env \<Rightarrow> 's \<Rightarrow> bytes \<Rightarrow> 'w \<Rightarrow> (io_error + nat) \<times> 'w" where
  "hv_stream_write env stream bs w = op_send env stream bs w"

definition hv_stream_write_vectored :: "('s, 'w) stream_env \<Rightarrow> 's \<Rightarrow> bytes list \<Rightarrow> 'w \<Rightarrow> (io_error + nat) \<times> 'w" where
  "hv_stream_write_vectored env stream bufs w = op_send_vectored env stream bufs w"

definition hv_stream_flush :: "'s \<Rightarrow> 'w \<Rightarrow> (io_error + unit) \<times> 'w" where
  "hv_stream_flush stream w = (Inr (), w)"

definition hv_stream_shutdown :: "('s, 'w) stream_env \<Rightarrow> 's \<Rightarrow> 'w \<Rightarrow> (io_error + unit) \<times> 'w" where
  "hv_stream_shutdown env stream w = os_shutdown_send env stream w"

text \<open>\<open>VStream\<close>. Where it has no stream (\<open>Infallible\<close>), its methods have no case.\<close>

fun v_read :: "platform \<Rightarrow> ('s, 'w) stream_env \<Rightarrow> 's \<Rightarrow> nat \<Rightarrow> 'w \<Rightarrow> (io_error + bytes) \<times> 'w" where
  "v_read Windows env s n w = hv_stream_read env s n w"
| "v_read Linux env s n w = vsock_stream_read env s n w"

fun v_write :: "platform \<Rightarrow> ('s, 'w) stream_env \<Rightarrow> 's \<Rightarrow> bytes \<Rightarrow> 'w \<Rightarrow> (io_error + nat) \<times> 'w" where
  "v_write Windows env s bs w = hv_stream_write env s bs w"
| "v_write Linux env s bs w = vsock_stream_write env s bs w"

fun v_write_vectored :: "platform \<Rightarrow> ('s, 'w) stream_env \<Rightarrow> 's \<Rightarrow> bytes list \<Rightarrow> 'w \<Rightarrow> (io_error + nat) \<times> 'w" where
  "v_write_vectored Windows env s bufs w = hv_stream_write_vectored env s bufs w"
| "v_write_vectored Linux env s bufs w = vsock_stream_write_vectored env s bufs w"

fun v_flush :: "platform \<Rightarrow> 's \<Rightarrow> 'w \<Rightarrow> (io_error + unit) \<times> 'w" where
  "v_flush Windows s w = hv_stream_flush s w"
| "v_flush Linux s w = vsock_stream_flush s w"

fun v_shutdown :: "platform \<Rightarrow> ('s, 'w) stream_env \<Rightarrow> 's \<Rightarrow> 'w \<Rightarrow> (io_error + unit) \<times> 'w" where
  "v_shutdown Windows env s w = hv_stream_shutdown env s w"
| "v_shutdown Linux env s w = vsock_stream_shutdown env s w"

definition v_split :: "'s \<Rightarrow> 's \<times> 's" where
  "v_split s = (s, s)"

section \<open>Connections\<close>

fun conn_read :: "platform \<Rightarrow> ('s, 'w) stream_env \<Rightarrow> 's conn \<Rightarrow> nat \<Rightarrow> 'w \<Rightarrow> (io_error + bytes) \<times> 'w" where
  "conn_read plat env (Tcp s) n w = st_read (tcp_stream env) s n w"
| "conn_read plat env (Uds s) n w = st_read (unix_stream env) s n w"
| "conn_read plat env (Npipe s) n w = npipe_read env s n w"
| "conn_read plat env (Vsock s) n w = v_read plat env s n w"

fun conn_write :: "platform \<Rightarrow> ('s, 'w) stream_env \<Rightarrow> 's conn \<Rightarrow> bytes \<Rightarrow> 'w \<Rightarrow> (io_error + nat) \<times> 'w" where
  "conn_write plat env (Tcp s) bs w = st_write (tcp_stream env) s bs w"
| "conn_write plat env (Uds s) bs w = st_write (unix_stream env) s bs w"
| "conn_write plat env (Npipe s) bs w = npipe_write env s bs w"
| "conn_write plat env (Vsock s) bs w = v_write plat env s bs w"

fun conn_write_vectored :: "platform \<Rightarrow> ('s, 'w) stream_env \<Rightarrow> 's conn \<Rightarrow> bytes list \<Rightarrow> 'w \<Rightarrow> (io_error + nat) \<times> 'w" where
  "conn_write_vectored plat env (Tcp s) bufs w = st_write_vectored (tcp_stream env) s bufs w"
| "conn_write_vectored plat env (Uds s) bufs w = st_write_vectored (unix_stream env) s bufs w"
| "conn_write_vectored plat env (Npipe s) bufs w = npipe_write_vectored env s bufs w"
| "conn_write_vectored plat env (Vsock s) bufs w = v_write_vectored plat env s bufs w"

fun conn_flush :: "platform \<Rightarrow> ('s, 'w) stream_env \<Rightarrow> 's conn \<Rightarrow> 'w \<Rightarrow> (io_error + unit) \<times> 'w" where
  "conn_flush plat env (Tcp s) w = st_flush (tcp_stream env) s w"
| "conn_flush plat env (Uds s) w = st_flush (unix_stream env) s w"
| "conn_flush plat env (Npipe s) w = npipe_flush env s w"
| "conn_flush plat env (Vsock s) w = v_flush plat s w"

fun conn_shutdown :: "platform \<Rightarrow> ('s, 'w) stream_env \<Rightarrow> 's conn \<Rightarrow> 'w \<Rightarrow> (io_error + unit) \<times> 'w" where
  "conn_shutdown plat env (Tcp s) w = st_shutdown (tcp_stream env) s w"
| "conn_shutdown plat env (Uds s) w = st_shutdown (unix_stream env) s w"
| "conn_shutdown plat env (Npipe s) w = npipe_shutdown env s w"
| "conn_shutdown plat env (Vsock s) w = v_shutdown plat env s w"

definition conn_ops :: "platform \<Rightarrow> ('s, 'w) stream_env \<Rightarrow> ('s conn, 'w) stream_ops" where
  "conn_ops plat env =
     \<lparr>st_read = conn_read plat env, st_write = conn_write plat env,
      st_write_vectored = conn_write_vectored plat env, st_flush = conn_flush plat env,
      st_shutdown = conn_shutdown plat env\<rparr>"

text \<open>The variants a platform has, and the socket behind a connection.\<close>

fun conn_exists :: "platform \<Rightarrow> 's conn \<Rightarrow> bool" where
  "conn_exists plat (Npipe _) \<longleftrightarrow> plat = Windows"
| "conn_exists plat (Vsock _) \<longleftrightarrow> plat \<noteq> OtherUnix"
| "conn_exists plat _ \<longleftrightarrow> True"

fun conn_socket :: "'s conn \<Rightarrow> 's" where
  "conn_socket (Tcp s) = s"
| "conn_socket (Uds s) = s"
| "conn_socket (Npipe (Server s)) = s"
| "conn_socket (Npipe (Client s)) = s"
| "conn_socket (Vsock s) = s"

text \<open>The connections whose shutdown says nothing about a failure of the system call.\<close>

fun silent_shutdown :: "platform \<Rightarrow> 's conn \<Rightarrow> bool" where
  "silent_shutdown plat (Vsock _) \<longleftrightarrow> plat = Linux"
| "silent_shutdown plat _ \<longleftrightarrow> False"

section \<open>What a stream promises\<close>

text \<open>
  \<open>sv_inc v w s\<close> are the bytes still to come on a socket, \<open>sv_out v w s\<close> those it has taken, and \<open>sv_ended v w s\<close>
  says that its sending side was shut down. A read gives an initial part of the bytes to come, and
  nothing only at the end; a write adds an initial part of its buffer to the bytes taken; a call that
  fails moves nothing; only a shutdown ends the sending side; and no call touches the other
  direction or another socket.
\<close>

record ('w, 's) stream_view =
  sv_inc :: "'w \<Rightarrow> 's \<Rightarrow> bytes"
  sv_out :: "'w \<Rightarrow> 's \<Rightarrow> bytes"
  sv_ended :: "'w \<Rightarrow> 's \<Rightarrow> bool"

definition received_part :: "('w, 's) stream_view \<Rightarrow> 's \<Rightarrow> nat \<Rightarrow> 'w \<Rightarrow> (io_error + bytes) \<times> 'w \<Rightarrow> bool" where
  "received_part v s n w answer \<longleftrightarrow>
     (case answer of (r, w') \<Rightarrow> sv_out v w' = sv_out v w \<and> sv_ended v w' = sv_ended v w
        \<and> (case r of
             Inl e \<Rightarrow> sv_inc v w' = sv_inc v w
           | Inr bs \<Rightarrow> length bs \<le> n \<and> (\<exists>later. sv_inc v w s = bs @ later \<and> sv_inc v w' = (sv_inc v w)(s := later))
               \<and> (bs = [] \<and> 0 < n \<longrightarrow> sv_inc v w s = [])))"

definition sent_part :: "('w, 's) stream_view \<Rightarrow> 's \<Rightarrow> bytes \<Rightarrow> 'w \<Rightarrow> (io_error + nat) \<times> 'w \<Rightarrow> bool" where
  "sent_part v s bs w answer \<longleftrightarrow>
     (case answer of (r, w') \<Rightarrow> sv_inc v w' = sv_inc v w \<and> sv_ended v w' = sv_ended v w
        \<and> (case r of
             Inl e \<Rightarrow> sv_out v w' = sv_out v w
           | Inr k \<Rightarrow> k \<le> length bs \<and> sv_out v w' = (sv_out v w)(s := sv_out v w s @ take k bs)))"

definition flushed :: "('w, 's) stream_view \<Rightarrow> 'w \<Rightarrow> (io_error + unit) \<times> 'w \<Rightarrow> bool" where
  "flushed v w answer \<longleftrightarrow>
     (case answer of (r, w') \<Rightarrow> sv_inc v w' = sv_inc v w \<and> sv_out v w' = sv_out v w \<and> sv_ended v w' = sv_ended v w)"

definition shut_down :: "('w, 's) stream_view \<Rightarrow> bool \<Rightarrow> 's \<Rightarrow> 'w \<Rightarrow> (io_error + unit) \<times> 'w \<Rightarrow> bool" where
  "shut_down v silent s w answer \<longleftrightarrow>
     (case answer of (r, w') \<Rightarrow> sv_inc v w' = sv_inc v w \<and> sv_out v w' = sv_out v w
        \<and> (r = Inr () \<and> sv_ended v w' = (sv_ended v w)(s := True)
           \<or> (r \<noteq> Inr () \<or> silent) \<and> sv_ended v w' = sv_ended v w))"

locale stream_contract =
  fixes ops :: "('h, 'w) stream_ops" and usable :: "'h \<Rightarrow> bool" and silent :: "'h \<Rightarrow> bool" and sock :: "'h \<Rightarrow> 's"
    and v :: "('w, 's) stream_view"
  assumes read_part: "usable h \<Longrightarrow> received_part v (sock h) n w (st_read ops h n w)"
    and write_part: "usable h \<Longrightarrow> sent_part v (sock h) bs w (st_write ops h bs w)"
    and vectored_part: "usable h \<Longrightarrow> sent_part v (sock h) (concat bufs) w (st_write_vectored ops h bufs w)"
    and flush_part: "usable h \<Longrightarrow> flushed v w (st_flush ops h w)"
    and shutdown_part: "usable h \<Longrightarrow> shut_down v (silent h) (sock h) w (st_shutdown ops h w)"

section \<open>A connection keeps the promise\<close>

text \<open>
  The laws of the streams below: each keeps the contract on its own handles, and the default
  \<open>write_vectored\<close> writes an initial part of the buffers if the \<open>write\<close> it is built on writes an
  initial part of its buffer.
\<close>

locale transports =
  fixes env :: "('s, 'w) stream_env" and v :: "('w, 's) stream_view"
  assumes tcp_contract: "stream_contract (tcp_stream env) (\<lambda>_. True) (\<lambda>_. False) (\<lambda>s. s) v"
    and unix_contract: "stream_contract (unix_stream env) (\<lambda>_. True) (\<lambda>_. False) (\<lambda>s. s) v"
    and server_contract: "stream_contract (pipe_server env) (\<lambda>_. True) (\<lambda>_. False) (\<lambda>s. s) v"
    and client_contract: "stream_contract (pipe_client env) (\<lambda>_. True) (\<lambda>_. False) (\<lambda>s. s) v"
    and recv_part: "received_part v s n w (op_recv env s n w)"
    and send_part: "sent_part v s bs w (op_send env s bs w)"
    and send_vectored_part: "sent_part v s (concat bufs) w (op_send_vectored env s bufs w)"
    and os_shutdown_part: "shut_down v False s w (os_shutdown_send env s w)"
    and default_part: "(\<And>bs w. sent_part v s bs w (wr bs w))
          \<Longrightarrow> sent_part v s (concat bufs) w (default_write_vectored env wr bufs w)"
begin

lemmas below = stream_contract.read_part stream_contract.write_part stream_contract.vectored_part
  stream_contract.flush_part stream_contract.shutdown_part

lemmas stream_parts =
  below [OF tcp_contract TrueI] below [OF unix_contract TrueI]
  below [OF server_contract TrueI] below [OF client_contract TrueI]
  recv_part send_part send_vectored_part os_shutdown_part

lemmas vsock_defs = vsock_stream_read_def vsock_stream_write_def vsock_stream_write_vectored_def
  vsock_stream_flush_def vsock_stream_shutdown_def hv_stream_read_def hv_stream_write_def
  hv_stream_write_vectored_def hv_stream_flush_def hv_stream_shutdown_def

lemma npipe_write_part: "sent_part v (conn_socket (Npipe pipe)) bs w (npipe_write env pipe bs w)"
  by (cases pipe) (simp_all add: stream_parts)

lemma ignored_shutdown: "shut_down v True s w (Inr (), snd (os_shutdown_send env s w))"
  using os_shutdown_part [of s w] by (auto simp: shut_down_def)

lemma conn_contract: "stream_contract (conn_ops plat env) (conn_exists plat) (silent_shutdown plat) conn_socket v"
proof
  fix c :: "'s conn" and n bs bufs w
  assume c: "conn_exists plat c"
  have v: "plat = Windows \<or> plat = Linux" if "c = Vsock s" for s
    using c that by (cases plat) auto
  show "received_part v (conn_socket c) n w (st_read (conn_ops plat env) c n w)"
    using v by (cases c rule: conn_socket.cases) (auto simp: conn_ops_def stream_parts vsock_defs)
  show "sent_part v (conn_socket c) bs w (st_write (conn_ops plat env) c bs w)"
    using v by (cases c rule: conn_socket.cases) (auto simp: conn_ops_def stream_parts vsock_defs)
  show "sent_part v (conn_socket c) (concat bufs) w (st_write_vectored (conn_ops plat env) c bufs w)"
    using v by (cases c rule: conn_socket.cases)
      (auto simp: conn_ops_def stream_parts vsock_defs npipe_write_vectored_def
        simp flip: conn_socket.simps(3,4) intro!: default_part npipe_write_part)
  show "flushed v w (st_flush (conn_ops plat env) c w)"
    using v by (cases c rule: conn_socket.cases)
      (auto simp: conn_ops_def stream_parts vsock_defs flushed_def [of _ w "(Inr (), w)"])
  show "shut_down v (silent_shutdown plat c) (conn_socket c) w (st_shutdown (conn_ops plat env) c w)"
    using v by (cases c rule: conn_socket.cases)
      (auto simp: conn_ops_def stream_parts vsock_defs ignored_shutdown)
qed

end

sublocale transports \<subseteq> conns: stream_contract "conn_ops plat env" "conn_exists plat" "silent_shutdown plat" conn_socket v
  for plat
  by (rule conn_contract)

section \<open>The extension traits\<close>

text \<open>
  What \<open>write_vectored_all\<close> and \<open>read_exact\<close> do with a stream: they call \<open>write_vectored\<close> with the
  buffers not written yet and \<open>read\<close> for the bytes still missing until nothing is left, a call fails,
  or a call moves nothing; a call that was interrupted may be made again.
\<close>

inductive writes_all :: "('h, 'w) stream_ops \<Rightarrow> 'h \<Rightarrow> bytes list \<Rightarrow> 'w \<Rightarrow> (io_error + unit) \<times> 'w \<Rightarrow> bool"
  for ops h where
  all_written: "concat bufs = [] \<Longrightarrow> writes_all ops h bufs w (Inr (), w)"
| some_written: "st_write_vectored ops h bufs w = (Inr k, w') \<Longrightarrow> 0 < k \<Longrightarrow> concat bufs' = drop k (concat bufs)
    \<Longrightarrow> writes_all ops h bufs' w' answer \<Longrightarrow> writes_all ops h bufs w answer"
| none_written: "st_write_vectored ops h bufs w = (Inr 0, w') \<Longrightarrow> concat bufs \<noteq> []
    \<Longrightarrow> writes_all ops h bufs w (Inl e, w')"
| write_failed: "st_write_vectored ops h bufs w = (Inl e, w') \<Longrightarrow> writes_all ops h bufs w (Inl e, w')"
| write_again: "st_write_vectored ops h bufs w = (Inl Interrupted, w') \<Longrightarrow> writes_all ops h bufs w' answer
    \<Longrightarrow> writes_all ops h bufs w answer"

inductive reads_exactly :: "('h, 'w) stream_ops \<Rightarrow> 'h \<Rightarrow> nat \<Rightarrow> 'w \<Rightarrow> (io_error + bytes) \<times> 'w \<Rightarrow> bool"
  for ops h where
  all_read: "reads_exactly ops h 0 w (Inr [], w)"
| some_read: "0 < n \<Longrightarrow> st_read ops h n w = (Inr bs, w') \<Longrightarrow> bs \<noteq> [] \<Longrightarrow> reads_exactly ops h (n - length bs) w' (r, w'')
    \<Longrightarrow> reads_exactly ops h n w (map_sum id (\<lambda>more. bs @ more) r, w'')"
| none_read: "0 < n \<Longrightarrow> st_read ops h n w = (Inr [], w') \<Longrightarrow> reads_exactly ops h n w (Inl UnexpectedEof, w')"
| read_failed: "0 < n \<Longrightarrow> st_read ops h n w = (Inl e, w') \<Longrightarrow> reads_exactly ops h n w (Inl e, w')"
| read_again: "0 < n \<Longrightarrow> st_read ops h n w = (Inl Interrupted, w') \<Longrightarrow> reads_exactly ops h n w' answer
    \<Longrightarrow> reads_exactly ops h n w answer"

record ('h, 'w) io_ext =
  ext_write_vectored_all :: "('h, 'w) stream_ops \<Rightarrow> 'h \<Rightarrow> bytes list \<Rightarrow> 'w \<Rightarrow> (io_error + unit) \<times> 'w"
  ext_append :: "('h, 'w) stream_ops \<Rightarrow> 'h \<Rightarrow> nat \<Rightarrow> 'w \<Rightarrow> (io_error + bytes) \<times> 'w"
  ext_read_exact :: "('h, 'w) stream_ops \<Rightarrow> 'h \<Rightarrow> nat \<Rightarrow> 'w \<Rightarrow> (io_error + bytes) \<times> 'w"

locale io_ext_laws =
  fixes ext :: "('h, 'w) io_ext"
  assumes write_vectored_all_law: "writes_all ops h bufs w (ext_write_vectored_all ext ops h bufs w)"
    and append_law: "ext_append ext ops h room w = st_read ops h room w"
    and read_exact_law: "reads_exactly ops h n w (ext_read_exact ext ops h n w)"

text \<open>The sink and the reader a network has in a connection, through one of its handles.\<close>

definition stream_sink :: "('h, 'w) io_ext \<Rightarrow> ('h, 'w) stream_ops \<Rightarrow> 'h \<Rightarrow> 'w sink_ops" where
  "stream_sink ext ops h =
     \<lparr>write_vectored_all = (\<lambda>w cs. ext_write_vectored_all ext ops h (map chunk_as_init cs) w),
      sink_flush = st_flush ops h\<rparr>"

definition stream_reader :: "('h, 'w) io_ext \<Rightarrow> ('h, 'w) stream_ops \<Rightarrow> 'h \<Rightarrow> 'w reader_ops" where
  "stream_reader ext ops h =
     \<lparr>read_append = (\<lambda>w room. ext_append ext ops h room w), read_exact = (\<lambda>w n. ext_read_exact ext ops h n w)\<rparr>"

text \<open>The errors with which one of the reads made from a world on fails.\<close>

inductive read_fails :: "('h, 'w) stream_ops \<Rightarrow> 'h \<Rightarrow> 'w \<Rightarrow> io_error \<Rightarrow> bool" for ops h where
  fails_now: "st_read ops h n w = (Inl e, w') \<Longrightarrow> read_fails ops h w e"
| fails_later: "st_read ops h n w = (r, w') \<Longrightarrow> read_fails ops h w' e \<Longrightarrow> read_fails ops h w e"

context stream_contract
begin

lemma writes_all_in_order:
  assumes "writes_all ops h bufs w (r, w')" and "usable h"
  shows "\<exists>part. prefix part (concat bufs) \<and> sv_out v w' = (sv_out v w)(sock h := sv_out v w (sock h) @ part)
    \<and> sv_inc v w' = sv_inc v w \<and> sv_ended v w' = sv_ended v w \<and> (r = Inr () \<longrightarrow> part = concat bufs)"
  using assms(1)
proof (induction bufs w "(r, w')")
  case (all_written bufs)
  then show ?case by (intro exI [of _ "[]"]) auto
next
  case (some_written bufs w k w1 bufs')
  then obtain part where "prefix part (concat bufs')" "sv_out v w' = (sv_out v w1)(sock h := sv_out v w1 (sock h) @ part)"
      "sv_inc v w' = sv_inc v w1" "sv_ended v w' = sv_ended v w1" "r = Inr () \<longrightarrow> part = concat bufs'" by blast
  moreover have "k \<le> length (concat bufs)" "sv_inc v w1 = sv_inc v w" "sv_ended v w1 = sv_ended v w"
      "sv_out v w1 = (sv_out v w)(sock h := sv_out v w (sock h) @ take k (concat bufs))"
    using vectored_part [OF assms(2), of bufs w] some_written.hyps(1) by (auto simp: sent_part_def)
  moreover have "prefix (take k (concat bufs) @ part) (concat bufs)"
    using calculation(1) some_written.hyps(3) by (metis append_take_drop_id same_prefix_prefix)
  ultimately show ?case
    using some_written.hyps(3) by (intro exI [of _ "take k (concat bufs) @ part"]) auto
next
  case (none_written bufs w)
  then show ?case
    using vectored_part [OF assms(2), of bufs w] by (intro exI [of _ "[]"]) (auto simp: sent_part_def)
next
  case (write_failed bufs w)
  then show ?case
    using vectored_part [OF assms(2), of bufs w] by (intro exI [of _ "[]"]) (auto simp: sent_part_def)
next
  case (write_again bufs w w1)
  then show ?case using vectored_part [OF assms(2), of bufs w] by (auto simp: sent_part_def)
qed

lemma reads_exactly_in_order:
  assumes "reads_exactly ops h n w (r, w')" and "usable h"
  shows "case r of
      Inr bs \<Rightarrow> sv_inc v w (sock h) = bs @ sv_inc v w' (sock h) \<and> length bs = n
        \<and> (\<forall>e. read_fails ops h w' e \<longrightarrow> read_fails ops h w e)
    | Inl e \<Rightarrow> read_fails ops h w e \<or> e = UnexpectedEof \<and> length (sv_inc v w (sock h)) < n"
  using assms(1)
proof (induction n w "(r, w')" arbitrary: r)
  case all_read
  then show ?case by simp
next
  case (some_read n w bs w1 r1)
  obtain later where "sv_inc v w (sock h) = bs @ later" "sv_inc v w1 = (sv_inc v w)(sock h := later)" "length bs \<le> n"
    using read_part [OF assms(2), of n w] some_read.hyps(2) by (auto simp: received_part_def)
  with some_read.hyps fails_later [OF some_read.hyps(2)] show ?case by (cases r1) auto
next
  case (none_read n w)
  then show ?case using read_part [OF assms(2), of n w] by (auto simp: received_part_def)
next
  case (read_failed n w e)
  then show ?case by (auto intro: fails_now)
next
  case (read_again n w w1)
  moreover have "sv_inc v w1 = sv_inc v w"
    using read_part [OF assms(2), of n w] read_again.hyps(2) by (auto simp: received_part_def)
  ultimately show ?case using fails_later [OF read_again.hyps(2)] by (cases r) auto
qed

lemma handle_is_sink:
  assumes "io_ext_laws ext" and "usable h"
  shows "byte_sink (stream_sink ext ops h) (\<lambda>w. sv_out v w (sock h))"
proof
  fix w w' :: 'w and cs u
  note all = io_ext_laws.write_vectored_all_law [OF assms(1), of ops h "map chunk_as_init cs" w]
  show "sv_out v w' (sock h) = sv_out v w (sock h) @ content cs"
    if "write_vectored_all (stream_sink ext ops h) w cs = (Inr u, w')"
    using writes_all_in_order [of h "map chunk_as_init cs" w "Inr u" w'] all assms(2) that
    by (auto simp: stream_sink_def content_def)
  show "\<exists>part. prefix part (content cs) \<and> sv_out v w' (sock h) = sv_out v w (sock h) @ part"
    if "write_vectored_all (stream_sink ext ops h) w cs = (Inl e, w')" for e
    using writes_all_in_order [of h "map chunk_as_init cs" w "Inl e" w'] all assms(2) that
    by (auto simp: stream_sink_def content_def)
  show "sv_out v w' (sock h) = sv_out v w (sock h)" if "sink_flush (stream_sink ext ops h) w = (r, w')" for r
    using flush_part [OF assms(2), of w] that by (simp add: stream_sink_def flushed_def)
qed

lemma sink_stays_open:
  assumes "io_ext_laws ext" and "usable h"
  shows "sv_ended v (snd (write_vectored_all (stream_sink ext ops h) w cs)) = sv_ended v w"
    and "sv_ended v (snd (sink_flush (stream_sink ext ops h) w)) = sv_ended v w"
proof -
  obtain r w' where "ext_write_vectored_all ext ops h (map chunk_as_init cs) w = (r, w')" by fastforce
  then show "sv_ended v (snd (write_vectored_all (stream_sink ext ops h) w cs)) = sv_ended v w"
    using writes_all_in_order [of h "map chunk_as_init cs" w r w'] assms(2)
      io_ext_laws.write_vectored_all_law [OF assms(1), of ops h "map chunk_as_init cs" w]
    by (auto simp: stream_sink_def)
  show "sv_ended v (snd (sink_flush (stream_sink ext ops h) w)) = sv_ended v w"
    using flush_part [OF assms(2), of w] by (auto simp: stream_sink_def flushed_def split: prod.splits)
qed

lemma handle_is_reader:
  assumes "io_ext_laws ext" and "usable h"
  shows "failing_stream (stream_reader ext ops h) (\<lambda>w. sv_inc v w (sock h)) (read_fails ops h)"
proof
  fix n w w' bs e
  note append = read_part [OF assms(2), of n w] io_ext_laws.append_law [OF assms(1), of ops h n w]
  show "sv_inc v w (sock h) = bs @ sv_inc v w' (sock h) \<and> length bs \<le> n \<and> (bs = [] \<and> 0 < n \<longrightarrow> sv_inc v w (sock h) = [])
      \<and> (\<forall>e. read_fails ops h w' e \<longrightarrow> read_fails ops h w e)"
    if "read_append (stream_reader ext ops h) w n = (Inr bs, w')"
    using append that fails_later [of ops h n w "Inr bs" w'] by (auto simp: stream_reader_def received_part_def)
  show "read_fails ops h w e" if "read_append (stream_reader ext ops h) w n = (Inl e, w')"
    using append that by (auto simp: stream_reader_def intro: fails_now)
  have exact: "reads_exactly ops h n w (r, w')" if "read_exact (stream_reader ext ops h) w n = (r, w')" for r
    using io_ext_laws.read_exact_law [OF assms(1), of ops h n w] that by (simp add: stream_reader_def)
  show "sv_inc v w (sock h) = bs @ sv_inc v w' (sock h) \<and> length bs = n \<and> (\<forall>e. read_fails ops h w' e \<longrightarrow> read_fails ops h w e)"
    if "read_exact (stream_reader ext ops h) w n = (Inr bs, w')"
    using reads_exactly_in_order [OF exact [OF that] assms(2)] by simp
  show "read_fails ops h w e \<or> e = UnexpectedEof \<and> length (sv_inc v w (sock h)) < n"
    if "read_exact (stream_reader ext ops h) w n = (Inl e, w')"
    using reads_exactly_in_order [OF exact [OF that] assms(2)] by simp
qed

end

section \<open>Sockets in memory\<close>

text \<open>
  Sockets that give at most three bytes to a read and take at most two from a write, some of which
  fail once their bytes are read, and the extension traits written as loops.
\<close>

record mem_sockets =
  incoming :: "nat \<Rightarrow> bytes"
  outgoing :: "nat \<Rightarrow> bytes"
  closed_out :: "nat \<Rightarrow> bool"
  broken :: "nat \<Rightarrow> bool"

definition mem_view :: "(mem_sockets, nat) stream_view" where
  "mem_view = \<lparr>sv_inc = incoming, sv_out = outgoing, sv_ended = closed_out\<rparr>"

definition mem_read :: "nat \<Rightarrow> nat \<Rightarrow> mem_sockets \<Rightarrow> (io_error + bytes) \<times> mem_sockets" where
  "mem_read s n w =
     (if broken w s \<and> incoming w s = [] then (Inl (OtherIo 104), w)
      else (Inr (take (min n 3) (incoming w s)), w\<lparr>incoming := (incoming w)(s := drop (min n 3) (incoming w s))\<rparr>))"

definition mem_write :: "nat \<Rightarrow> bytes \<Rightarrow> mem_sockets \<Rightarrow> (io_error + nat) \<times> mem_sockets" where
  "mem_write s bs w =
     (if closed_out w s then (Inl (OtherIo 32), w)
      else (Inr (min 2 (length bs)), w\<lparr>outgoing := (outgoing w)(s := outgoing w s @ take 2 bs)\<rparr>))"

definition mem_shutdown :: "nat \<Rightarrow> mem_sockets \<Rightarrow> (io_error + unit) \<times> mem_sockets" where
  "mem_shutdown s w =
     (if broken w s then (Inl (OtherIo 107), w) else (Inr (), w\<lparr>closed_out := (closed_out w)(s := True)\<rparr>))"

definition first_buffer :: "(bytes \<Rightarrow> 'w \<Rightarrow> (io_error + nat) \<times> 'w) \<Rightarrow> bytes list \<Rightarrow> 'w \<Rightarrow> (io_error + nat) \<times> 'w" where
  "first_buffer wr bufs w = (case filter (\<lambda>b. b \<noteq> []) bufs of [] \<Rightarrow> wr [] w | b # _ \<Rightarrow> wr b w)"

definition mem_stream :: "(nat, mem_sockets) stream_ops" where
  "mem_stream =
     \<lparr>st_read = mem_read, st_write = mem_write, st_write_vectored = (\<lambda>s bufs. mem_write s (concat bufs)),
      st_flush = (\<lambda>s w. (Inr (), w)), st_shutdown = mem_shutdown\<rparr>"

definition mem_env :: "(nat, mem_sockets) stream_env" where
  "mem_env =
     \<lparr>tcp_stream = mem_stream, unix_stream = mem_stream, pipe_server = mem_stream, pipe_client = mem_stream,
      op_recv = mem_read, op_send = mem_write, op_send_vectored = (\<lambda>s bufs. mem_write s (concat bufs)),
      os_shutdown_send = mem_shutdown, default_write_vectored = first_buffer\<rparr>"

lemma mem_read_part: "received_part mem_view s n w (mem_read s n w)"
proof -
  have "incoming w s = take (min n 3) (incoming w s) @ drop (min n 3) (incoming w s)" by simp
  then show ?thesis by (auto simp: received_part_def mem_read_def mem_view_def simp del: append_take_drop_id)
qed

lemma mem_write_part: "sent_part mem_view s bs w (mem_write s bs w)"
  by (simp add: sent_part_def mem_write_def mem_view_def min_def)

lemma mem_shutdown_part: "shut_down mem_view silent s w (mem_shutdown s w)"
  by (simp add: shut_down_def mem_shutdown_def mem_view_def)

lemmas mem_parts = mem_read_part mem_write_part mem_shutdown_part

lemma mem_stream_contract: "stream_contract mem_stream (\<lambda>_. True) (\<lambda>_. False) (\<lambda>s. s) mem_view"
  by unfold_locales (simp_all add: mem_stream_def mem_parts flushed_def)

lemma first_nonempty: "filter (\<lambda>b. b \<noteq> []) bufs = b # rest \<Longrightarrow> \<exists>later. concat bufs = b @ later"
  by (induction bufs) (auto split: if_splits)

lemma sent_part_longer: "sent_part v s bs w answer \<Longrightarrow> sent_part v s (bs @ later) w answer"
  by (auto simp: sent_part_def split: prod.splits sum.splits)

lemma first_buffer_part:
  assumes "\<And>bs w. sent_part v s bs w (wr bs w)"
  shows "sent_part v s (concat bufs) w (first_buffer wr bufs w)"
proof (cases "filter (\<lambda>b. b \<noteq> []) bufs")
  case Nil
  then show ?thesis using sent_part_longer [OF assms [of "[]" w], of "concat bufs"] by (simp add: first_buffer_def)
next
  case (Cons b bs)
  then show ?thesis
    using first_nonempty [OF Cons] sent_part_longer [OF assms [of b w]] by (auto simp: first_buffer_def)
qed

interpretation memory: transports mem_env mem_view
  by (rule transports.intro) (simp_all add: mem_env_def mem_stream_contract mem_parts first_buffer_part)

function loop_write :: "('h, 'w) stream_ops \<Rightarrow> 'h \<Rightarrow> bytes list \<Rightarrow> 'w \<Rightarrow> (io_error + unit) \<times> 'w" where
  "loop_write ops h bufs w =
     (if concat bufs = [] then (Inr (), w)
      else (case st_write_vectored ops h bufs w of
              (Inl e, w') \<Rightarrow> (Inl e, w')
            | (Inr k, w') \<Rightarrow> if k = 0 then (Inl (OtherIo 0), w') else loop_write ops h [drop k (concat bufs)] w'))"
  by pat_completeness auto
termination
  by (relation "measure (\<lambda>(ops, h, bufs, w). length (concat bufs))") auto

function loop_read :: "('h, 'w) stream_ops \<Rightarrow> 'h \<Rightarrow> nat \<Rightarrow> 'w \<Rightarrow> (io_error + bytes) \<times> 'w" where
  "loop_read ops h n w =
     (if n = 0 then (Inr [], w)
      else (case st_read ops h n w of
              (Inl e, w') \<Rightarrow> (Inl e, w')
            | (Inr bs, w') \<Rightarrow>
                if bs = [] then (Inl UnexpectedEof, w')
                else (case loop_read ops h (n - length bs) w' of
                        (r, w'') \<Rightarrow> (map_sum id (\<lambda>later. bs @ later) r, w''))))"
  by pat_completeness auto
termination
  by (relation "measure (\<lambda>(ops, h, n, w). n)") auto

declare loop_write.simps [simp del] loop_read.simps [simp del]

definition loop_ext :: "('h, 'w) io_ext" where
  "loop_ext = \<lparr>ext_write_vectored_all = loop_write, ext_append = (\<lambda>ops. st_read ops), ext_read_exact = loop_read\<rparr>"

lemma loop_write_writes: "writes_all ops h bufs w (loop_write ops h bufs w)"
proof (induction ops h bufs w rule: loop_write.induct)
  case (1 ops h bufs w)
  obtain r w' where r: "st_write_vectored ops h bufs w = (r, w')" by fastforce
  consider "concat bufs = []" | e where "concat bufs \<noteq> []" "r = Inl e" | "concat bufs \<noteq> []" "r = Inr 0"
    | k where "concat bufs \<noteq> []" "r = Inr k" "0 < k" by (cases r) auto
  then show ?case
  proof cases
    case 4
    then have "writes_all ops h [drop k (concat bufs)] w' (loop_write ops h [drop k (concat bufs)] w')"
      using 1 r by simp
    with 4 r some_written [of ops h bufs w k w' "[drop k (concat bufs)]"] show ?thesis
      by (subst loop_write.simps) (simp del: concat_eq_Nil_conv)
  qed (use r in \<open>simp_all add: loop_write.simps [of _ _ bufs] all_written none_written write_failed
    del: concat_eq_Nil_conv\<close>)
qed

lemma loop_read_reads: "reads_exactly ops h n w (loop_read ops h n w)"
proof (induction ops h n w rule: loop_read.induct)
  case (1 ops h n w)
  obtain r w' where r: "st_read ops h n w = (r, w')" by fastforce
  consider "n = 0" | e where "0 < n" "r = Inl e" | "0 < n" "r = Inr []"
    | bs where "0 < n" "r = Inr bs" "bs \<noteq> []" by (cases r) auto
  then show ?case
  proof cases
    case 4
    obtain r2 w2 where r2: "loop_read ops h (n - length bs) w' = (r2, w2)" by fastforce
    have "reads_exactly ops h (n - length bs) w' (loop_read ops h (n - length bs) w')" using 1 r 4 by simp
    with r r2 4 some_read [of n ops h w bs w' r2 w2] show ?thesis
      by (subst loop_read.simps) simp
  qed (use r in \<open>simp_all add: loop_read.simps [of _ _ n] loop_read.simps [of _ _ 0] all_read none_read read_failed\<close>)
qed

interpretation loops: io_ext_laws loop_ext
  by unfold_locales (simp_all add: loop_ext_def loop_write_writes loop_read_reads)

text \<open>A named pipe over these sockets, read through the loops.\<close>

interpretation mem_pipe: failing_stream "stream_reader loop_ext (conn_ops Windows mem_env) (Npipe (Server s))"
    "\<lambda>w. incoming w s" "read_fails (conn_ops Windows mem_env) (Npipe (Server s))" for s
  using stream_contract.handle_is_reader [OF memory.conn_contract loops.io_ext_laws_axioms, of Windows "Npipe (Server s)"]
  by (simp add: mem_view_def)

lemma mem_fails_broken:
  "read_fails (conn_ops Windows mem_env) (Npipe (Server s)) w e \<Longrightarrow> broken w s"
  by (induction rule: read_fails.induct)
    (auto simp: conn_ops_def mem_env_def mem_stream_def mem_read_def split: if_splits)

section \<open>Properties\<close>

text \<open>C13: Reading messages from a connection. On every platform and transport, through any handle that
  exists there, and however its reads split the incoming bytes, are interrupted or fail: the
  reader delivers exactly the message, the end or the error that the bytes it has and those that
  arrive on the socket mean, with the bytes after it still to come; or it returns the error of a read of
  this connection that failed.\<close>

theorem conn_reader_delivers:
  assumes "transports env v" and "io_ext_laws ext" and "conn_exists plat c"
    and "capnp_framing cops lens_of raw_of table_of" and "inbound_inv ib"
  shows "delivers cops (\<lambda>w. sv_inc v w (conn_socket c))
      (parse_frame 512 (traversal_limit_in_words (options ib)) (buffered ib @ sv_inc v w (conn_socket c))) ib
      (inbound_next cops (stream_reader ext (conn_ops plat env) c) ib w)
    \<or> (\<exists>e. read_fails (conn_ops plat env) c w e
         \<and> fst (inbound_next cops (stream_reader ext (conn_ops plat env) c) ib w) = Inl (from_io cops e))"
proof -
  have "failing_stream (stream_reader ext (conn_ops plat env) c) (\<lambda>w. sv_inc v w (conn_socket c))
      (read_fails (conn_ops plat env) c)"
    using stream_contract.handle_is_reader [OF transports.conn_contract [OF assms(1)] assms(2,3)] .
  from failing_stream.next_delivers_or_fails [OF this assms(4,5)] show ?thesis .
qed

theorem conn_reader_delivers_witness:
  "let w = \<lparr>incoming = (\<lambda>s. [0,0,0,0, 1,0,0,0, 1,2,3,4,5,6,7,8, 9]), outgoing = (\<lambda>s. []),
            closed_out = (\<lambda>s. False), broken = (\<lambda>s. s = 4)\<rparr>;
       opts = \<lparr>traversal_limit_in_words = Some 1, nesting_limit = 64\<rparr>
   in delivers list_capnp (\<lambda>w. incoming w 3) (Inr (Some ([[1,2,3,4,5,6,7,8]], [9]))) (inbound_new opts 16)
        (inbound_next list_capnp (stream_reader loop_ext (conn_ops Windows mem_env) (Npipe (Server 3)))
           (inbound_new opts 16) w)"
proof -
  let ?w = "\<lparr>incoming = (\<lambda>s. [0,0,0,0, 1,0,0,0, 1,2,3,4,5,6,7,8, 9]), outgoing = (\<lambda>s. []),
      closed_out = (\<lambda>s. False), broken = (\<lambda>s. s = 4)\<rparr> :: mem_sockets"
  let ?ib = "inbound_new \<lparr>traversal_limit_in_words = Some 1, nesting_limit = 64\<rparr> 16"
  have "parse_frame 512 (traversal_limit_in_words (options ?ib)) (buffered ?ib @ incoming ?w 3)
        = Inr (Some ([[1,2,3,4,5,6,7,8]], [9]))" by code_simp
  moreover have "inbound_inv ?ib" by code_simp
  moreover have "\<not> read_fails (conn_ops Windows mem_env) (Npipe (Server 3)) ?w e" for e
    using mem_fails_broken [of 3 ?w e] by auto
  ultimately show ?thesis
    using conn_reader_delivers [OF memory.transports_axioms loops.io_ext_laws_axioms _
        list_framing.capnp_framing_axioms, of Windows "Npipe (Server 3)" ?ib ?w]
    by (simp add: mem_view_def)
qed

text \<open>C14: Writing on a connection. On every platform and transport, through any handle that exists there,
  the batches a network writes are taken in order, completely when the write succeeds and up to some
  point when it fails, however the socket splits or interrupts them; a flush loses nothing, and
  neither ever ends the sending side. A shutdown ends it, on this socket only, exactly when it
  succeeds; on a Linux vsock it always reports success, also when the system call failed and
  nothing was ended.\<close>

theorem conn_carries_writer:
  assumes "transports env v" and "io_ext_laws ext" and "conn_exists plat c"
  shows "byte_sink (stream_sink ext (conn_ops plat env) c) (\<lambda>w. sv_out v w (conn_socket c))
    \<and> sv_ended v (snd (write_vectored_all (stream_sink ext (conn_ops plat env) c) w cs)) = sv_ended v w
    \<and> sv_ended v (snd (sink_flush (stream_sink ext (conn_ops plat env) c) w)) = sv_ended v w
    \<and> (case st_shutdown (conn_ops plat env) c w of
         (r, w') \<Rightarrow> sv_out v w' = sv_out v w \<and> sv_inc v w' = sv_inc v w
           \<and> (if plat = Linux \<and> (\<exists>s. c = Vsock s)
              then r = Inr () \<and> sv_ended v w'
                = (case os_shutdown_send env (conn_socket c) w of
                     (Inr _, _) \<Rightarrow> (sv_ended v w)(conn_socket c := True)
                   | (Inl _, _) \<Rightarrow> sv_ended v w)
              else sv_ended v w' = (if r = Inr () then (sv_ended v w)(conn_socket c := True) else sv_ended v w)))"
proof -
  note contract = transports.conn_contract [OF assms(1), of plat]
  have silent: "silent_shutdown plat c \<longleftrightarrow> plat = Linux \<and> (\<exists>s. c = Vsock s)" by (cases c) auto
  have "r = Inr () \<and> sv_ended v w' = (case os_shutdown_send env (conn_socket c) w of
        (Inr _, _) \<Rightarrow> (sv_ended v w)(conn_socket c := True) | (Inl _, _) \<Rightarrow> sv_ended v w)"
    if "silent_shutdown plat c" "st_shutdown (conn_ops plat env) c w = (r, w')" for r w'
    using that silent transports.os_shutdown_part [OF assms(1), of "conn_socket c" w]
    by (auto simp: conn_ops_def vsock_stream_shutdown_def shut_down_def split: prod.splits sum.splits)
  with stream_contract.shutdown_part [OF contract assms(3), of w] show ?thesis
    using stream_contract.handle_is_sink [OF contract assms(2,3)] stream_contract.sink_stays_open [OF contract assms(2,3)]
    by (auto simp: shut_down_def silent split: prod.splits)
qed

theorem conn_carries_writer_witness:
  "let w = \<lparr>incoming = (\<lambda>s. []), outgoing = (\<lambda>s. [7]), closed_out = (\<lambda>s. False), broken = (\<lambda>s. s = 4)\<rparr>
   in byte_sink (stream_sink loop_ext (conn_ops Windows mem_env) (Npipe (Server 3))) (\<lambda>w. outgoing w 3)
    \<and> closed_out (snd (st_shutdown (conn_ops Windows mem_env) (Npipe (Server 3)) w)) = (\<lambda>s. False)(3 := True)
    \<and> fst (st_shutdown (conn_ops Linux mem_env) (Vsock 4) w) = Inr ()
    \<and> closed_out (snd (st_shutdown (conn_ops Linux mem_env) (Vsock 4) w)) = (\<lambda>s. False)"
proof -
  let ?w = "\<lparr>incoming = (\<lambda>s. []), outgoing = (\<lambda>s. [7]), closed_out = (\<lambda>s. False), broken = (\<lambda>s. s = 4)\<rparr> :: mem_sockets"
  note writer = conn_carries_writer [OF memory.transports_axioms loops.io_ext_laws_axioms]
  have "fst (st_shutdown (conn_ops Windows mem_env) (Npipe (Server 3)) ?w) = Inr ()"
    by (simp add: conn_ops_def mem_env_def mem_stream_def mem_shutdown_def)
  moreover have "os_shutdown_send mem_env 4 ?w = (Inl (OtherIo 107), ?w)" by (simp add: mem_env_def mem_shutdown_def)
  ultimately show ?thesis
    using writer [of Windows "Npipe (Server 3)" ?w "[]"] writer [of Linux "Vsock 4" ?w "[]"]
    by (auto simp: mem_view_def split: prod.splits)
qed

end
