(* ===== verification/Handshake_Safety.thy ===== *)
theory Handshake_Safety
  imports Handshake_Duplex
begin

text \<open>
  Each half of the handshake of \<open>src/src/auth/handshake.rs\<close> alone, against a peer that may send
  anything: what a side knows when it succeeds, how it reports a peer of another handshake
  version, and that what it sends fits the packets a peer accepts.
\<close>

section \<open>Reads of a whole packet\<close>

lemma frame_packet_inj:
  assumes "frame_packet body = frame_packet body'"
  shows "body = body'"
  using assms by (simp add: frame_packet_def append_eq_append_conv)

lemma read_packet_received:
  assumes "runs read_packet_with_timeout tr res" and "received tr = frame_packet body" and "body \<noteq> []"
  shows "res = Inr body"
proof -
  have len: "4 < length (received tr)" using assms(2,3) by simp
  from assms(1) have "(\<exists>b. res = Inr b) \<or> length (received tr) \<le> 4"
    by (auto simp: with_timeout_read_packet runs_simps Let_def split_sum_ex split: if_splits)
  then obtain b where "res = Inr b" using len by auto
  with assms(1,2) runs_read_packet(1) show ?thesis by (metis frame_packet_inj)
qed

lemma refuse_result: "runs (refuse reason report) tr res \<Longrightarrow> res = Inl report"
  by (auto simp: refuse_def runs_bind)

text \<open>The server reads one packet only: its judgement takes nothing from the connection.\<close>

definition reads_nothing :: "event list \<Rightarrow> bool" where
  "reads_nothing tr \<longleftrightarrow> received tr = []"

interpretation unread: trace_invariant reads_nothing
  by unfold_locales (simp_all add: reads_nothing_def)

lemma unread_write: "keeps reads_nothing (write_packet body)"
  by (rule keepsI) (auto simp: write_packet_def reads_nothing_def runs_simps split_sum_ex)

lemma unread_verify: "keeps reads_nothing (verify_signed_process env pid key)"
proof (rule unread.keeps_attestation)
  show "os_event e \<Longrightarrow> reads_nothing [e]" for e by (cases e) (auto simp: reads_nothing_def)
qed

lemma unread_refuse: "keeps reads_nothing (refuse reason report)"
  unfolding refuse_def by (intro unread.keeps_bind unread_write unread.keeps_ret)

lemma unread_panic: "keeps reads_nothing Panic"
  by (rule keepsI) simp

lemmas unread_intros = unread.keeps_ret unread.keeps_bind unread.keeps_bind_ok unread_write
  unread_refuse unread_verify unread_panic

lemma unread_judge_client: "keeps reads_nothing (judge_client env mode protocol attested nonce body)"
proof -
  have "keeps reads_nothing (check_proof env mode attested nonce pf)" for pf
    unfolding check_proof_def
    by (cases mode) (auto intro!: unread_intros split: option.split sum.split)
  then show ?thesis
    unfolding judge_client_def Let_def
    by (auto intro!: unread_intros simp del: incompatibility_None split: option.split sum.split)
qed

text \<open>A run of the server that accepts, and of the client.\<close>

definition packet_header :: "bytes \<Rightarrow> bytes" where
  "packet_header body = to_le 4 (word_of_nat (length body) :: u32)"

lemma read_packet_run:
  "length body \<le> 4096 \<Longrightarrow> runs read_packet_with_timeout [Got (packet_header body), Got body] (Inr body)"
  using take_frame_header [of body]
  by (auto simp: with_timeout_read_packet runs_simps Let_def split_sum_ex packet_header_def frame_packet_def)

lemma server_run:
  assumes "mode \<noteq> Disabled" and "attested_pid env c mode = Inr attested"
    and "length nonce = NONCE_LEN" and "compatible protocol p" and "length pf \<le> 4000"
    and "proof_established env c mode nonce pf tr"
  shows "runs (authenticate_server env c mode protocol)
    ([Random nonce] @ [Wrote (frame_packet (encode_hello (scheme_id mode) protocol nonce))]
     @ [Got (packet_header (encode_client_auth (scheme_id mode) p pf)), Got (encode_client_auth (scheme_id mode) p pf)]
     @ tr @ [Wrote (frame_packet (encode_ack ACK_OK []))])
    (Inr (Some (proto_version p)))"
proof -
  have "runs (bind_ok (check_proof env mode attested nonce pf) (\<lambda>_.
      bind_ok (write_packet (encode_ack ACK_OK [])) (\<lambda>_. Ret (Inr (Some (proto_version p))))))
      (tr @ [Wrote (frame_packet (encode_ack ACK_OK []))]) (Inr (Some (proto_version p)))"
    using runs_check_proof [OF assms(2)] assms(6) by (auto simp: runs_bind_ok_Inr runs_write_packet)
  moreover have "incompatibility protocol p = None" using assms(4) by simp
  ultimately have judged: "runs (judge_client env mode protocol attested nonce (encode_client_auth (scheme_id mode) p pf))
      (tr @ [Wrote (frame_packet (encode_ack ACK_OK []))]) (Inr (Some (proto_version p)))"
    using assms(5) by (simp add: judge_current_client del: incompatibility_None)
  have read: "runs read_packet_with_timeout
      [Got (packet_header (encode_client_auth (scheme_id mode) p pf)), Got (encode_client_auth (scheme_id mode) p pf)]
      (Inr (encode_client_auth (scheme_id mode) p pf))"
    using assms(5) by (intro read_packet_run) simp
  show ?thesis
    using assms(1-3) judged read
    by (simp add: authenticate_server_def runs_simps runs_bind_ok_Inr runs_write_packet split_sum_ex)
      (metis append_Cons append_Nil)
qed

lemma client_run:
  assumes "mode \<noteq> Disabled" and "compatible protocol p" and "length nonce \<le> 4000"
  shows "runs (authenticate_client env mode protocol)
    ([Got (packet_header (encode_hello (scheme_id mode) p nonce)), Got (encode_hello (scheme_id mode) p nonce)]
     @ [Wrote (frame_packet (encode_client_auth (scheme_id mode) protocol (client_proof env mode nonce)))]
     @ [Got (packet_header (encode_ack ACK_OK [])), Got (encode_ack ACK_OK [])])
    (Inr (Some (proto_version p)))"
proof -
  let ?hello = "encode_hello (scheme_id mode) p nonce" and ?ack = "encode_ack ACK_OK []"
  have "incompatibility protocol p = None" using assms(2) by simp
  then have "answer_hello env mode protocol ?hello
      = bind_ok (write_packet (encode_client_auth (scheme_id mode) protocol (client_proof env mode nonce)))
          (\<lambda>_. await_ack p)"
    using assms(3) by (simp add: answer_current_hello await_ack_def del: incompatibility_None)
  moreover have "runs (await_ack p) [Got (packet_header ?ack), Got ?ack] (Inr (Some (proto_version p)))"
    using read_packet_run [of ?ack] by (auto simp: await_ack_def runs_bind_ok_Inr runs_verdict)
  ultimately have "runs (answer_hello env mode protocol ?hello)
      ([Wrote (frame_packet (encode_client_auth (scheme_id mode) protocol (client_proof env mode nonce)))]
       @ [Got (packet_header ?ack), Got ?ack]) (Inr (Some (proto_version p)))"
    by (auto simp: runs_bind_ok_Inr runs_write_packet)
  then show ?thesis
    using read_packet_run [of ?hello] hello_not_ack [of "scheme_id mode" p nonce] assms(1,3)
    by (fastforce simp: authenticate_client_def runs_bind_ok_Inr)
qed

section \<open>Sizes of what is sent\<close>

lemma length_show_u32: "length (show_nat (unat (w :: u32))) \<le> 10"
  using length_show_nat [of "unat w" 10] unat_u32_less [of w] by simp

lemma length_show_u16: "length (show_nat (unat (w :: u16))) \<le> 10"
  using length_show_nat [of "unat w" 10] unat_u16_less [of w] by simp

lemma length_show_u8: "length (show_nat (unat (w :: u8))) \<le> 10"
proof -
  have "unat w < 2 ^ 8" using unsigned_less [of w] by simp
  then show ?thesis using length_show_nat [of "unat w" 10] by simp
qed

lemma length_version_fmt: "length (version_fmt v) \<le> 32"
  using length_show_u32 [of "major v"] length_show_u32 [of "minor v"] length_show_u32 [of "patch v"]
  by (cases v) simp

lemma length_protocol_fmt: "length (protocol_fmt p) \<le> 50"
  using length_version_fmt [of "proto_version p"] by (simp add: protocol_fmt_def)

lemma length_incompatibility: "incompatibility l p = Some (e, why) \<Longrightarrow> length why \<le> 200"
  using length_version_fmt [of "proto_version l"] length_version_fmt [of "proto_version p"]
    length_protocol_fmt [of l] length_protocol_fmt [of p]
  by (auto simp: incompatibility_def split: if_splits)

text \<open>Every write is one packet of at most \<open>MAX_PACKET_LEN\<close> bytes.\<close>

definition writes_packets :: "event list \<Rightarrow> bool" where
  "writes_packets tr \<longleftrightarrow>
     (\<forall>bs. Wrote bs \<in> set tr \<longrightarrow> (\<exists>body. bs = frame_packet body \<and> length body \<le> unat MAX_PACKET_LEN))"

interpretation framed: trace_invariant writes_packets
  by unfold_locales (auto simp: writes_packets_def)

lemma framed_write: "length body \<le> 4096 \<Longrightarrow> keeps writes_packets (write_packet body)"
  by (rule keepsI) (auto simp: write_packet_def writes_packets_def MAX_PACKET_LEN_def runs_simps split_sum_ex)

lemma framed_refuse: "length reason \<le> 4000 \<Longrightarrow> keeps writes_packets (refuse reason report)"
  unfolding refuse_def by (intro framed.keeps_bind framed_write framed.keeps_ret) simp

lemma framed_read: "keeps writes_packets read_packet_with_timeout"
  by (rule keepsI)
    (auto simp: with_timeout_read_packet writes_packets_def runs_simps Let_def split_sum_ex split: if_splits)

lemma framed_verify: "keeps writes_packets (verify_signed_process env pid key)"
  by (rule framed.keeps_attestation) (auto simp: writes_packets_def)

lemmas framed_intros = framed.keeps_ret framed.keeps_bind framed.keeps_bind_ok framed_write
  framed_refuse framed_read framed_verify

lemma framed_panic: "keeps writes_packets Panic"
  by (rule keepsI) simp

lemma framed_check_proof: "keeps writes_packets (check_proof env mode attested nonce pf)"
  unfolding check_proof_def
  by (cases mode) (auto intro!: framed_intros framed_panic split: option.split sum.split)

lemma framed_judge_client: "keeps writes_packets (judge_client env mode protocol attested nonce body)"
proof -
  have "length (''unsupported handshake version: client='' @ show_nat (unat (v :: u16)) @ '' server=''
      @ show_nat (unat HANDSHAKE_VERSION)) \<le> 4000" for v
    using length_show_u16 [of v] length_show_u16 [of HANDSHAKE_VERSION] by simp
  moreover have "length (''handshake auth mismatch: client='' @ show_nat (unat (s :: u8)) @ '' server=''
      @ show_nat (unat (scheme_id mode))) \<le> 4000" for s
    using length_show_u8 [of s] length_show_u8 [of "scheme_id mode"] by simp
  moreover have "length why \<le> 4000" if "incompatibility protocol p = Some (e, why)" for p e why
    using length_incompatibility [OF that] by simp
  ultimately show ?thesis
    unfolding judge_client_def Let_def
    by (auto intro!: framed_intros framed_check_proof simp del: incompatibility_None
        split: option.split sum.split)
qed

lemma framed_server: "keeps writes_packets (authenticate_server env c mode protocol)"
  unfolding authenticate_server_def
  by (auto intro!: framed_intros framed_judge_client framed.keeps_fill_random
      simp: writes_packets_def NONCE_LEN_def split: sum.split)

lemma framed_client:
  assumes "hmac_laws env"
  shows "keeps writes_packets (authenticate_client env mode protocol)"
proof -
  have "length (client_proof env mode nonce) \<le> 32" for nonce
    by (rule hmac_laws.client_proof_length [OF assms])
  then have "26 + length (client_proof env mode nonce) \<le> 4096" for nonce
    by (rule le_trans [OF add_left_mono]) simp
  then show ?thesis
    unfolding authenticate_client_def answer_hello_def
    by (auto intro!: framed_intros simp del: incompatibility_None split: option.split sum.split)
qed

section \<open>Two handshakes on one pair of streams\<close>

lemma frames_apart:
  assumes "frame_packet b @ x = frame_packet b' @ y" and "length b \<le> 4096" and "length b' \<le> 4096"
  shows "b = b' \<and> x = y"
proof -
  have "to_le 4 (word_of_nat (length b) :: u32) = to_le 4 (word_of_nat (length b') :: u32)" and bodies: "b @ x = b' @ y"
    using assms(1) by (auto simp: frame_packet_def append_eq_append_conv)
  from arg_cong [OF this(1), of "from_le :: bytes \<Rightarrow> u32"] have "(word_of_nat (length b) :: u32) = word_of_nat (length b')"
    by (simp add: from_le_to_le)
  from arg_cong [OF this, of unat] have "length b = length b'" using assms(2,3) by (simp add: unat_of_nat_u32)
  with bodies show ?thesis by (simp add: append_eq_append_conv)
qed

lemma server_bytes:
  assumes "runs (authenticate_server env c mode protocol) tr (Inr r)" and "mode \<noteq> Disabled"
  shows "\<exists>nonce p pf. length nonce = NONCE_LEN \<and> length pf \<le> 4070 \<and> r = Some (proto_version p)
    \<and> sent tr = frame_packet (encode_hello (scheme_id mode) protocol nonce) @ frame_packet (encode_ack ACK_OK [])
    \<and> received tr = frame_packet (encode_client_auth (scheme_id mode) p pf)"
proof -
  obtain nonce header p pf tr1 where "length nonce = NONCE_LEN" "r = Some (proto_version p)"
      "header @ encode_client_auth (scheme_id mode) p pf = frame_packet (encode_client_auth (scheme_id mode) p pf)"
      "length (encode_client_auth (scheme_id mode) p pf) \<le> 4096" "proof_established env c mode nonce pf tr1"
      "tr = [Random nonce, Wrote (frame_packet (encode_hello (scheme_id mode) protocol nonce)),
        Got header, Got (encode_client_auth (scheme_id mode) p pf)] @ tr1 @ [Wrote (frame_packet (encode_ack ACK_OK []))]"
    using runs_server [OF assms] by blast
  then show ?thesis using proof_established_quiet [of env c mode nonce pf tr1]
    by (intro exI [of _ nonce] exI [of _ p] exI [of _ pf]) simp
qed

lemma client_bytes:
  assumes "runs (authenticate_client env mode protocol) tr (Inr r)" and "mode \<noteq> Disabled"
  shows "\<exists>nonce p reason. length nonce \<le> 4070 \<and> length reason \<le> 4092 \<and> r = Some (proto_version p)
    \<and> received tr = frame_packet (encode_hello (scheme_id mode) p nonce) @ frame_packet (encode_ack ACK_OK reason)
    \<and> sent tr = frame_packet (encode_client_auth (scheme_id mode) protocol (client_proof env mode nonce))"
proof -
  obtain h1 p nonce h2 reason where "r = Some (proto_version p)"
      "h1 @ encode_hello (scheme_id mode) p nonce = frame_packet (encode_hello (scheme_id mode) p nonce)"
      "h2 @ encode_ack ACK_OK reason = frame_packet (encode_ack ACK_OK reason)"
      "length (encode_hello (scheme_id mode) p nonce) \<le> 4096" "length (encode_ack ACK_OK reason) \<le> 4096"
      "tr = [Got h1, Got (encode_hello (scheme_id mode) p nonce),
        Wrote (frame_packet (encode_client_auth (scheme_id mode) protocol (client_proof env mode nonce))),
        Got h2, Got (encode_ack ACK_OK reason)]"
    using runs_client [OF assms] by blast
  then show ?thesis by (intro exI [of _ nonce] exI [of _ p] exI [of _ reason]) simp
qed

lemma disabled_bytes:
  "runs (authenticate_server env c Disabled protocol) tr (Inr r) \<Longrightarrow> tr = [] \<and> r = None"
  "runs (authenticate_client env' Disabled protocol) tr (Inr r) \<Longrightarrow> tr = [] \<and> r = None"
  by (auto simp: authenticate_server_def authenticate_client_def)

context hmac_laws
begin

lemma length_client_proof: "length (client_proof env mode nonce) \<le> 32"
  by (cases mode) (simp_all add: client_proof_def mac_finalize_def tag_length)

end

text \<open>
  A server and a client handshake that both passed on one pair of streams took from the streams
  exactly what the other had sent: each knows the version of the other, and what follows is what
  the other wrote afterwards.
\<close>

lemma handshakes_meet:
  assumes server: "runs (authenticate_server env conn mode protocol) tr (Inr version)"
    and client: "runs (authenticate_client env' mode' protocol') tr' (Inr version')"
    and "mode = Disabled \<longleftrightarrow> mode' = Disabled" and "hmac_laws env'"
    and down: "received tr' @ x = sent tr @ y" and up: "received tr @ x' = sent tr' @ y'"
  shows "x = y \<and> x' = y'
    \<and> version = (if mode = Disabled then None else Some (proto_version protocol'))
    \<and> version' = (if mode = Disabled then None else Some (proto_version protocol))"
proof (cases "mode = Disabled")
  case True
  then show ?thesis using disabled_bytes server client assms(3) down up by fastforce
next
  case False
  obtain nonce p pf where s: "length nonce = NONCE_LEN" "length pf \<le> 4070" "version = Some (proto_version p)"
      "sent tr = frame_packet (encode_hello (scheme_id mode) protocol nonce) @ frame_packet (encode_ack ACK_OK [])"
      "received tr = frame_packet (encode_client_auth (scheme_id mode) p pf)"
    using server_bytes [OF server False] by blast
  obtain nonce' p' reason where c: "length nonce' \<le> 4070" "length reason \<le> 4092" "version' = Some (proto_version p')"
      "received tr' = frame_packet (encode_hello (scheme_id mode') p' nonce') @ frame_packet (encode_ack ACK_OK reason)"
      "sent tr' = frame_packet (encode_client_auth (scheme_id mode') protocol' (client_proof env' mode' nonce'))"
    using client_bytes [OF client] False assms(3) by blast
  have short: "length nonce \<le> 4070" "length (client_proof env' mode' nonce') \<le> 4070"
    using s(1) hmac_laws.length_client_proof [OF assms(4), of mode' nonce'] by (simp_all add: NONCE_LEN_def)
  have hello: "encode_hello (scheme_id mode') p' nonce' = encode_hello (scheme_id mode) protocol nonce
      \<and> frame_packet (encode_ack ACK_OK reason) @ x = frame_packet (encode_ack ACK_OK []) @ y"
    using down s(4) c(1,4) short(1) by (intro frames_apart) simp_all
  then have "x = y" using frames_apart [of "encode_ack ACK_OK reason" x "encode_ack ACK_OK []" y] c(2) by simp
  moreover have auth: "encode_client_auth (scheme_id mode) p pf
        = encode_client_auth (scheme_id mode') protocol' (client_proof env' mode' nonce') \<and> x' = y'"
    using up s(2,5) c(5) short(2) by (intro frames_apart) simp_all
  moreover have "p' = protocol"
    using arg_cong [OF hello [THEN conjunct1], of decode_hello] c(1) short(1) by simp
  moreover have "p = protocol'"
    using arg_cong [OF auth [THEN conjunct1], of decode_client_auth] s(2) short(2) by simp
  ultimately show ?thesis using s(3) c(3) False by simp
qed

text \<open>A client of another handshake version is told so. Whatever else its packet holds, and
  even if the rest of it could not be decoded, the server reports an unsupported version
  and not a malformed packet.\<close>

lemma old_client_is_reported_as_version:
  assumes "runs (authenticate_server env c mode protocol) tr res" and "mode \<noteq> Disabled"
    and "received tr = frame_packet body"
    and "packet_version body = Some w" and "w \<noteq> HANDSHAKE_VERSION"
  shows "\<exists>why. res = Inl (Report UnsupportedVersion [Text why])"
proof -
  have body: "body \<noteq> []" using assms(4) by auto
  then have got: "received tr \<noteq> []" using assms(3) by (simp add: frame_packet_def)
  obtain attested nonce tr1 where hello:
      "runs (bind_ok (write_packet (encode_hello (scheme_id mode) protocol nonce)) (\<lambda>_.
         bind_ok read_packet_with_timeout (judge_client env mode protocol attested nonce))) tr1 res"
      "received tr1 = received tr"
    using assms(1,2) got
    by (auto simp: authenticate_server_def runs_simps split_sum_ex split: sum.splits)
  from hello(1) obtain tr2 where rest:
      "runs (bind_ok read_packet_with_timeout (judge_client env mode protocol attested nonce)) tr2 res"
      "received tr2 = received tr"
    by (rule runs_bind_okE)
      (use hello(2) got in \<open>auto dest!: keepsD [OF unread_write] simp: reads_nothing_def\<close>)
  from rest(1) obtain tr3 r tr4 where split: "runs read_packet_with_timeout tr3 r" "tr2 = tr3 @ tr4"
      "case r of Inl e \<Rightarrow> res = Inl e \<and> tr4 = []
       | Inr b \<Rightarrow> runs (judge_client env mode protocol attested nonce b) tr4 res"
    by (rule runs_bind_okE) fastforce+
  have "received tr4 = []"
    using split(3) keepsD [OF unread_judge_client] by (auto simp: reads_nothing_def split: sum.splits)
  then have "r = Inr body"
    using read_packet_received [OF split(1) _ body] split(2) rest(2) assms(3) by simp
  moreover have "foreign_version body = Some w" using assms(4,5) by (simp add: foreign_version_def)
  ultimately show ?thesis
    using split(3) by (auto simp: judge_client_def Let_def dest!: refuse_result)
qed

text \<open>The attestation inside a longer trace that opens no process of its own.\<close>

lemma signed_trace:
  assumes "proof_established env c (SignedProcess key) nonce pf tr1"
    and "\<forall>q h. Opened q h \<notin> set before \<union> set after" and "tr = before @ tr1 @ after"
  shows "cfg_platform env = Windows
    \<and> (\<exists>pid h1 h2 h3 created path img sf before after.
         conn_peer_identity Windows (peer_lookup env) c = Pid pid
       \<and> tr = before @ [Opened pid h1, Times h1 created, Closed h1,
                        Opened pid h2, ImageName h2 path, FileRead path (Inr img),
                        FileRead (path @ ''.sig'') sf, Closed h2,
                        Opened pid h3, Times h3 created, Closed h3] @ after
       \<and> image_signed env key img sf
       \<and> (\<forall>q h. Opened q h \<in> set tr \<longrightarrow> q = pid))"
proof -
  obtain pid h1 h2 h3 created path img sf where att: "cfg_platform env = Windows"
      "conn_peer_identity Windows (peer_lookup env) c = Pid pid" "image_signed env key img sf"
      "tr1 = [Opened pid h1, Times h1 created, Closed h1, Opened pid h2, ImageName h2 path,
        FileRead path (Inr img), FileRead (path @ ''.sig'') sf, Closed h2,
        Opened pid h3, Times h3 created, Closed h3]"
    using assms(1) by (auto simp: proof_established_def runs_verify_signed_process)
  have "\<forall>q h. Opened q h \<in> set tr \<longrightarrow> q = pid" using assms(2) by (auto simp: assms(3) att(4))
  then show ?thesis using att assms(3) by blast
qed

section \<open>Properties\<close>

text \<open>C2: A server that accepts knows its client. Whatever the peer sends, success means that the
  server drew a nonce, received exactly one packet, a client auth of its own scheme for a
  compatible protocol whose version it returns, and that the proof in it is the tag of the
  configured secret over that nonce, or that the process the operating system names at the
  other end was attested: its creation time was read, the image file of that same process was
  found, read and accepted by the signature check, and the creation time was the same
  afterwards, with no other process opened. Without a proof only the version mode accepts.
  What the server sent is its hello and the final ack.\<close>

theorem server_accepts_only_proven_clients:
  assumes "hmac_laws env" and "runs (authenticate_server env c mode protocol) tr (Inr (Some v))"
  shows "\<exists>nonce p pf. Random nonce \<in> set tr \<and> length nonce = NONCE_LEN
    \<and> sent tr = frame_packet (encode_hello (scheme_id mode) protocol nonce)
               @ frame_packet (encode_ack ACK_OK [])
    \<and> received tr = frame_packet (encode_client_auth (scheme_id mode) p pf)
    \<and> proto_id p = proto_id protocol \<and> major (proto_version p) = major (proto_version protocol)
    \<and> v = proto_version p
    \<and> (case mode of
         Disabled \<Rightarrow> False
       | VersionOnly \<Rightarrow> pf = []
       | HmacSha256 key \<Rightarrow> pf = hmac_sha256 env key (HMAC_LABEL @ to_le 2 HANDSHAKE_VERSION @ nonce)
       | SignedProcess key \<Rightarrow>
           cfg_platform env = Windows
           \<and> (\<exists>pid h1 h2 h3 created path img sf before after.
                conn_peer_identity Windows (peer_lookup env) c = Pid pid
              \<and> tr = before @ [Opened pid h1, Times h1 created, Closed h1,
                               Opened pid h2, ImageName h2 path, FileRead path (Inr img),
                               FileRead (path @ ''.sig'') sf, Closed h2,
                               Opened pid h3, Times h3 created, Closed h3] @ after
              \<and> image_signed env key img sf
              \<and> (\<forall>q h. Opened q h \<in> set tr \<longrightarrow> q = pid)))"
proof -
  have mode: "mode \<noteq> Disabled" using assms(2) by (auto simp: authenticate_server_def)
  obtain nonce header p pf tr1 where run:
      "length nonce = NONCE_LEN" "v = proto_version p" "compatible protocol p"
      "header @ encode_client_auth (scheme_id mode) p pf
       = frame_packet (encode_client_auth (scheme_id mode) p pf)"
      "proof_established env c mode nonce pf tr1"
      "tr = [Random nonce, Wrote (frame_packet (encode_hello (scheme_id mode) protocol nonce)),
             Got header, Got (encode_client_auth (scheme_id mode) p pf)]
            @ tr1 @ [Wrote (frame_packet (encode_ack ACK_OK []))]"
    using runs_server [OF assms(2) mode] by auto
  have quiet: "sent tr1 = [] \<and> received tr1 = []" by (rule proof_established_quiet [OF run(5)])
  show ?thesis
  proof (cases mode)
    case (SignedProcess key)
    have "\<forall>q h. Opened q h \<notin> set [Random nonce, Wrote hello, Got header, Got auth] \<union> set [Wrote ack]"
      for hello auth ack by simp
    from signed_trace [OF run(5) [unfolded SignedProcess] this run(6)] show ?thesis
      unfolding SignedProcess handshake_mode.case
      using run quiet SignedProcess
      by (intro exI [of _ nonce] exI [of _ p] exI [of _ pf]) (simp add: compatible_def)
  qed (rule exI [of _ nonce], rule exI [of _ p], rule exI [of _ pf],
      use run quiet mode hmac_laws.verify_slice_iff [OF assms(1)] in
        \<open>simp add: compatible_def proof_established_def mac_finalize_def hmac_input\<close>)+
qed

theorem server_accepts_only_proven_clients_witness:
  "let nonce = replicate 32 7; p = protocol_new 7 1 2 0;
       pf = hmac [5] (HMAC_LABEL @ to_le 2 HANDSHAKE_VERSION @ nonce);
       tr = [Random nonce] @ [Wrote (frame_packet (encode_hello 1 (protocol_new 7 1 0 0) nonce))]
            @ [Got (packet_header (encode_client_auth 1 p pf)), Got (encode_client_auth 1 p pf)]
            @ [] @ [Wrote (frame_packet (encode_ack ACK_OK []))]
   in \<exists>nonce p pf. Random nonce \<in> set tr
        \<and> received tr = frame_packet (encode_client_auth 1 p pf) \<and> Version 1 2 0 = proto_version p
        \<and> pf = hmac_sha256 (sample_env hmac) [5] (HMAC_LABEL @ to_le 2 HANDSHAKE_VERSION @ nonce)"
proof -
  let ?pf = "hmac [5] (HMAC_LABEL @ to_le 2 HANDSHAKE_VERSION @ replicate 32 7)"
  have "length ?pf \<le> 4000" by (simp add: hmac_def Let_def length_sha256)
  moreover have "proof_established (sample_env hmac) (Tcp 0) (HmacSha256 [5]) (replicate 32 7) ?pf []"
    by (simp add: proof_established_def mac_verify_slice_def hmac_input sample_env_def)
  ultimately have "runs (authenticate_server (sample_env hmac) (Tcp 0) (HmacSha256 [5]) (protocol_new 7 1 0 0))
      ([Random (replicate 32 7)] @ [Wrote (frame_packet (encode_hello 1 (protocol_new 7 1 0 0) (replicate 32 7)))]
       @ [Got (packet_header (encode_client_auth 1 (protocol_new 7 1 2 0) ?pf)),
          Got (encode_client_auth 1 (protocol_new 7 1 2 0) ?pf)]
       @ [] @ [Wrote (frame_packet (encode_ack ACK_OK []))])
      (Inr (Some (Version 1 2 0)))"
    using server_run [of "HmacSha256 [5]" "sample_env hmac" "Tcp 0" None "replicate 32 7"
        "protocol_new 7 1 0 0" "protocol_new 7 1 2 0" ?pf "[]"]
    by (simp add: attested_pid_def NONCE_LEN_def compatible_def protocol_new_def)
  from server_accepts_only_proven_clients [OF sample_hmac this] show ?thesis
    unfolding Let_def by (simp only: handshake_mode.case scheme_id.simps) blast
qed

text \<open>C28: A client that succeeds has spoken to a compatible server that confirmed it: it received a
  hello of its own scheme for a compatible protocol, whose version it returns, and an ack with
  status OK, and it sent exactly one packet, its client auth with the proof for the server's
  nonce.\<close>

theorem client_accepts_only_confirmed_servers:
  assumes "runs (authenticate_client env mode protocol) tr (Inr (Some v))"
  shows "\<exists>nonce p reason.
      received tr = frame_packet (encode_hello (scheme_id mode) p nonce)
                   @ frame_packet (encode_ack ACK_OK reason)
    \<and> sent tr = frame_packet (encode_client_auth (scheme_id mode) protocol
        (case mode of
           HmacSha256 key \<Rightarrow> hmac_sha256 env key (HMAC_LABEL @ to_le 2 HANDSHAKE_VERSION @ nonce)
         | _ \<Rightarrow> []))
    \<and> proto_id p = proto_id protocol \<and> major (proto_version p) = major (proto_version protocol)
    \<and> v = proto_version p"
proof -
  have mode: "mode \<noteq> Disabled" using assms by (auto simp: authenticate_client_def)
  have pf: "client_proof env mode nonce = (case mode of
           HmacSha256 key \<Rightarrow> hmac_sha256 env key (HMAC_LABEL @ to_le 2 HANDSHAKE_VERSION @ nonce)
         | _ \<Rightarrow> [])" for nonce
    by (cases mode) (simp_all add: client_proof_def mac_finalize_def hmac_input)
  from runs_client [OF assms mode] obtain h1 p nonce h2 reason where
      "compatible protocol p" "v = proto_version p"
      "h1 @ encode_hello (scheme_id mode) p nonce = frame_packet (encode_hello (scheme_id mode) p nonce)"
      "h2 @ encode_ack ACK_OK reason = frame_packet (encode_ack ACK_OK reason)"
      "tr = [Got h1, Got (encode_hello (scheme_id mode) p nonce),
             Wrote (frame_packet (encode_client_auth (scheme_id mode) protocol (client_proof env mode nonce))),
             Got h2, Got (encode_ack ACK_OK reason)]"
    by auto
  then show ?thesis
    unfolding pf [symmetric] by (intro exI [of _ nonce] exI [of _ p] exI [of _ reason]) (simp add: compatible_def)
qed

theorem client_accepts_only_confirmed_servers_witness:
  "let hello = encode_hello 0 (protocol_new 7 1 2 0) []; ack = encode_ack ACK_OK [];
       tr = [Got (packet_header hello), Got hello]
            @ [Wrote (frame_packet (encode_client_auth 0 (protocol_new 7 1 0 0) []))]
            @ [Got (packet_header ack), Got ack]
   in \<exists>nonce p reason. received tr = frame_packet (encode_hello 0 p nonce)
        @ frame_packet (encode_ack ACK_OK reason) \<and> Version 1 2 0 = proto_version p"
proof -
  have "runs (authenticate_client (sample_env hmac) VersionOnly (protocol_new 7 1 0 0))
      ([Got (packet_header (encode_hello 0 (protocol_new 7 1 2 0) [])), Got (encode_hello 0 (protocol_new 7 1 2 0) [])]
       @ [Wrote (frame_packet (encode_client_auth 0 (protocol_new 7 1 0 0) []))]
       @ [Got (packet_header (encode_ack ACK_OK [])), Got (encode_ack ACK_OK [])]) (Inr (Some (Version 1 2 0)))"
    using client_run [of VersionOnly "protocol_new 7 1 0 0" "protocol_new 7 1 2 0" "[]" "sample_env hmac"]
    by (simp add: compatible_def protocol_new_def client_proof_def)
  from client_accepts_only_confirmed_servers [OF this] show ?thesis
    unfolding Let_def by (simp only: scheme_id.simps) blast
qed

text \<open>C30: Every packet a side of the handshake sends, on success and on every refusal, fits the
  limit its peer enforces, so no reason text ever turns a refusal into a malformed packet.\<close>

theorem sent_packets_fit:
  assumes "hmac_laws env"
    and "runs (authenticate_server env c mode protocol) tr res
         \<or> runs (authenticate_client env mode protocol) tr res"
    and "Wrote bs \<in> set tr"
  shows "\<exists>body. bs = frame_packet body \<and> length body \<le> unat MAX_PACKET_LEN"
  using assms keepsD [OF framed_server] keepsD [OF framed_client [OF assms(1)]]
  unfolding writes_packets_def by blast

theorem sent_packets_fit_witness:
  "\<exists>body. frame_packet (encode_hello 0 (protocol_new 7 1 0 0) (replicate 32 7)) = frame_packet body
     \<and> length body \<le> unat MAX_PACKET_LEN"
proof -
  have "runs (authenticate_server (sample_env hmac) (Tcp 0) VersionOnly (protocol_new 7 1 0 0))
      ([Random (replicate 32 7)] @ [Wrote (frame_packet (encode_hello 0 (protocol_new 7 1 0 0) (replicate 32 7)))]
       @ [Elapsed]) (Inl (Report Timeout []))"
    by (auto simp: authenticate_server_def attested_pid_def runs_simps split_sum_ex runs_bind_ok_Inl
        runs_write_packet with_timeout_read_packet NONCE_LEN_def)
  from sent_packets_fit [OF sample_hmac disjI1 [OF this]] show ?thesis by simp
qed

end
