(* ===== verification/Session_Delivery.thy ===== *)
theory Session_Delivery
  imports Session Streams Handshake_Safety
begin

text \<open>
  From the handshake to the messages: a session that was accepted and one that was connected over the
  same pair of streams, as \<open>src/src/rpc/mod.rs\<close> establishes them, and what their networks then
  deliver to each other.
\<close>

section \<open>Runs that establish a session\<close>

lemma recontext_Inr [simp]: "recontext c r = Inr a \<longleftrightarrow> r = Inr a" "Inr a = recontext c r \<longleftrightarrow> r = Inr a"
  by (cases r; auto simp: recontext_def)+

lemma accept_session_run:
  "runs (accept_session env bootstrap (Inr conn) mode protocol) tr (Inr session) \<longleftrightarrow>
     (\<exists>version. runs (authenticate_server env conn mode protocol) tr (Inr version)
       \<and> session = (spawn_session bootstrap conn side.Server)\<lparr>peer_version := version\<rparr>)"
  by (auto simp: accept_session_def runs_bind_ok_Inr runs_bind)

lemma connect_session_run:
  "runs (connect_session env bootstrap plat ops endpoint mode protocol) tr (Inr session) \<longleftrightarrow>
     (\<exists>conn version. endpoint_connect plat ops endpoint = Inr conn
       \<and> runs (authenticate_client env mode protocol) tr (Inr version)
       \<and> session = (spawn_session bootstrap conn side.Client)\<lparr>peer_version := version\<rparr>)"
  by (auto simp: connect_session_def runs_bind_ok_Inr runs_bind)

lemma session_network:
  "network ((spawn_session bootstrap conn side)\<lparr>peer_version := version\<rparr>) = vat_network_new conn conn side default_reader_options"
  "peer_version ((spawn_session bootstrap conn side)\<lparr>peer_version := version\<rparr>) = version"
  by (simp_all add: spawn_session_def spawn_session_with_options_def Let_def)

text \<open>One direction of two networks with the default options.\<close>

lemma session_messages_arrive:
  assumes "byte_sink ops wire" and "byte_stream rd' rest'" and "capnp_framing cops lens_of raw_of table_of"
    and "list_all (wf_message (Some (1024 * 1024))) (map fst (queued (queued_items es)))"
    and "vat_run ops conv cops' rd (vat_network_new conn w side default_reader_options) es v" and "wire w = []"
    and "vat_run ops' conv' cops rd' (vat_network_new conn' w' side' default_reader_options) es' v'"
    and "rest' conn' = wire (sink v)"
  shows "prefix (map (read_segments cops) (received_messages es')) (map fst (queued (queued_items es)))"
proof -
  obtain k r where parsed: "parse_all 512 (traversal_limit_in_words default_reader_options) (rest' conn')
      = (take k (map fst (queued (queued_items es))), r)"
    using written_messages_parse [OF assms(1,4,5,6)] assms(8) by (auto simp: default_reader_options_def)
  have "framed_stream rd' rest' cops lens_of raw_of table_of" using assms(2,3) by (simp add: framed_stream_def)
  from framed_stream.vat_run_reader [OF this assms(7), unfolded reader_inv_def parsed]
  show ?thesis using take_is_prefix by (auto simp: Let_def intro: prefix_order.trans)
qed

section \<open>Connections in memory\<close>

text \<open>A socket as the bytes it still has to deliver and those it has taken, and its environment.\<close>

type_synonym mem_conn = "(bytes \<times> bytes) conn"

definition mem_reader :: "mem_conn reader_ops" where
  "mem_reader =
     \<lparr>read_append = (\<lambda>c n. (Inr (take n (fst (conn_socket c))), map_conn (\<lambda>(i, t). (drop n i, t)) c)),
      read_exact = (\<lambda>c n. if n \<le> length (fst (conn_socket c))
                         then (Inr (take n (fst (conn_socket c))), map_conn (\<lambda>(i, t). (drop n i, t)) c)
                         else (Inl UnexpectedEof, c))\<rparr>"

definition mem_sink :: "mem_conn sink_ops" where
  "mem_sink =
     \<lparr>write_vectored_all = (\<lambda>c cs. (Inr (), map_conn (\<lambda>(i, t). (i, t @ content cs)) c)), sink_flush = (\<lambda>c. (Inr (), c))\<rparr>"

definition mem_hs_env :: "(unit, unit, bytes \<times> bytes) hs_env" where
  "mem_hs_env =
     \<lparr>cfg_platform = Linux, cfg_debug_assertions = False, io_text = (\<lambda>_. []),
      base64_decode = (\<lambda>_. None), key_from_bytes = (\<lambda>_. None), signature_from_slice = (\<lambda>_. None),
      verify_signature = (\<lambda>_ _ _. Inl []),
      peer_lookup = \<lparr>pipe_client_process_id = (\<lambda>_. None), socket_peercred = (\<lambda>_. Inl io_error.NotFound)\<rparr>,
      hmac_sha256 = hmac, hmac_verify = (\<lambda>key m tag. tag = hmac key m)\<rparr>"

lemma conn_socket_map [simp]: "conn_socket (map_conn f c) = f (conn_socket c)"
  by (cases c rule: conn_socket.cases) simp_all

interpretation mem_readers: byte_stream mem_reader "\<lambda>c. fst (conn_socket c)"
  by unfold_locales (auto simp: mem_reader_def split: prod.splits)

interpretation mem_sinks: byte_sink mem_sink "\<lambda>c. snd (conn_socket c)"
  by unfold_locales (auto simp: mem_sink_def split: prod.splits)

interpretation mem_hmac: hmac_laws mem_hs_env
  by unfold_locales (simp_all add: mem_hs_env_def hmac_def Let_def length_sha256)

text \<open>The network of a server that has sent one message, and the connection its client has.\<close>

definition mem_server :: "(mem_conn, mem_conn) vat_network" where
  "mem_server = vat_network_new (Tcp ([], [])) (Tcp ([], [])) side.Server default_reader_options"

definition mem_sent :: "(mem_conn, mem_conn) vat_network" where
  "mem_sent = writer_turn mem_sink (\<lambda>e. writer_stopped) (snd (outgoing_send [[]] (new_outgoing_message mem_server)))"

definition mem_connect :: "(unit, bytes \<times> bytes) connect_ops" where
  "mem_connect =
     \<lparr>addr_text = (\<lambda>_. []), tcp_connect = (\<lambda>_. Inr (snd (conn_socket (sink mem_sent)), [])),
      uds_connect = (\<lambda>_. Inl io_error.NotFound), npipe_connect = (\<lambda>_. Inl io_error.NotFound),
      vsock_connect = (\<lambda>_ _. Inl io_error.NotFound), vsock_connect_loopback = (\<lambda>_. Inl io_error.NotFound)\<rparr>"

lemma mem_sent_run:
  "vat_run mem_sink (\<lambda>e. writer_stopped) list_capnp mem_reader mem_server [Queued (Message [[]] 0)] mem_sent"
proof -
  let ?v = "new_outgoing_message mem_server"
  have fresh: "stopped ?v = None" "building ?v = 1" "fst (outgoing_send [[]] ?v) = 0" "0 < strong mem_server"
    by (simp_all add: mem_server_def vat_network_new_def new_outgoing_message_def outgoing_send_def Let_def)
  have "vat_run mem_sink (\<lambda>e. writer_stopped) list_capnp mem_reader mem_server [] ?v"
    by (rule run_new_message [OF run_start fresh(4)])
  then have "vat_run mem_sink (\<lambda>e. writer_stopped) list_capnp mem_reader mem_server
      ([] @ sends (Message [[]] 0) ?v) (snd (outgoing_send [[]] ?v))"
    by (rule run_send) (use fresh in \<open>simp_all add: prod_eq_iff\<close>)
  then show ?thesis
    unfolding mem_sent_def by (intro run_writer_turn) (simp add: sends_def fresh(1))
qed

section \<open>Properties\<close>

text \<open>C1: An accepted and a connected session talk to each other. When both handshakes passed on one pair
  of streams, each session reports the version the other side presented (none without a handshake); the
  handshake took exactly its own packets from the streams, however closely the first messages follow them,
  so in both directions, when the messages are within the limits of the format and of the reader, those a
  session receives are the first of those the other session sent, unchanged and in order, in every interleaving of calls, writers and receives.\<close>

theorem authenticated_sessions_deliver:
  assumes server: "runs (accept_session env bootstrap (Inr conn) mode protocol) tr (Inr session)"
    and client: "runs (connect_session env' bootstrap' plat ops' endpoint mode' protocol') tr' (Inr session')"
    and opened: "endpoint_connect plat ops' endpoint = Inr conn'"
    and modes: "mode = Disabled \<longleftrightarrow> mode' = Disabled" and hmac: "hmac_laws env'"
    and laws: "byte_sink wr wire" "byte_stream rd rest" "capnp_framing cops lens_of raw_of table_of"
    and laws': "byte_sink wr' wire'" "byte_stream rd' rest'"
    and serving: "vat_run wr conv cops rd (network session) es v" and "wire conn = []"
    and calling: "vat_run wr' conv' cops rd' (network session') es' v'" and "wire' conn' = []"
    and down: "received tr' @ rest' conn' = sent tr @ wire (sink v)"
    and up: "received tr @ rest conn = sent tr' @ wire' (sink v')"
    and wf: "list_all (wf_message (Some (1024 * 1024))) (map fst (queued (queued_items es)))"
      "list_all (wf_message (Some (1024 * 1024))) (map fst (queued (queued_items es')))"
  shows "peer_version session = (if mode = Disabled then None else Some (proto_version protocol'))
    \<and> peer_version session' = (if mode = Disabled then None else Some (proto_version protocol))
    \<and> prefix (map (read_segments cops) (received_messages es')) (map fst (queued (queued_items es)))
    \<and> prefix (map (read_segments cops) (received_messages es)) (map fst (queued (queued_items es')))"
proof -
  obtain version where s: "runs (authenticate_server env conn mode protocol) tr (Inr version)"
      "session = (spawn_session bootstrap conn side.Server)\<lparr>peer_version := version\<rparr>"
    using server unfolding accept_session_run by blast
  obtain version' where c: "runs (authenticate_client env' mode' protocol') tr' (Inr version')"
      "session' = (spawn_session bootstrap' conn' side.Client)\<lparr>peer_version := version'\<rparr>"
    using client opened unfolding connect_session_run by auto
  note met = handshakes_meet [OF s(1) c(1) modes hmac down up]
  note serve = serving [unfolded s(2) session_network] and call = calling [unfolded c(2) session_network]
  show ?thesis
    using met session_messages_arrive [OF laws(1) laws'(2) laws(3) wf(1) serve \<open>wire conn = []\<close> call]
      session_messages_arrive [OF laws'(1) laws(2,3) wf(2) call \<open>wire' conn' = []\<close> serve]
    by (simp add: s(2) c(2) session_network(2))
qed

theorem authenticated_sessions_deliver_witness:
  "\<exists>tr tr' session session'.
     runs (accept_session mem_hs_env (\<lambda>_ _. ()) (Inr (Tcp ([], []))) VersionOnly (protocol_new 7 1 2 0)) tr (Inr session)
   \<and> runs (connect_session mem_hs_env (\<lambda>_ _. ()) Linux mem_connect (TcpEndpoint ()) VersionOnly (protocol_new 7 1 0 0)) tr' (Inr session')
   \<and> peer_version session = Some (Version 1 0 0) \<and> peer_version session' = Some (Version 1 2 0)"
proof -
  let ?b = "\<lambda>_ _. () :: unit" and ?nonce = "replicate 32 7" and ?p = "protocol_new 7 1 2 0" and ?p' = "protocol_new 7 1 0 0"
  let ?hello = "encode_hello 0 ?p ?nonce" and ?auth = "encode_client_auth 0 ?p' []" and ?ack = "encode_ack ACK_OK []"
  let ?conn' = "Tcp (snd (conn_socket (sink mem_sent)), []) :: mem_conn"
  let ?tr = "[Random ?nonce] @ [Wrote (frame_packet ?hello)] @ [Got (packet_header ?auth), Got ?auth]
       @ [] @ [Wrote (frame_packet ?ack)]"
  let ?tr' = "[Got (packet_header ?hello), Got ?hello] @ [Wrote (frame_packet ?auth)] @ [Got (packet_header ?ack), Got ?ack]"
  let ?s = "(spawn_session ?b (Tcp ([], [])) side.Server)\<lparr>peer_version := Some (proto_version ?p')\<rparr>"
  let ?s' = "(spawn_session ?b ?conn' side.Client)\<lparr>peer_version := Some (proto_version ?p)\<rparr>"
  have comp: "compatible ?p ?p'" "compatible ?p' ?p" by (simp_all add: compatible_def protocol_new_def)
  have "runs (authenticate_server mem_hs_env (Tcp ([], [])) VersionOnly ?p) ?tr (Inr (Some (proto_version ?p')))"
    by (rule server_run [of VersionOnly mem_hs_env "Tcp ([], [])" None ?nonce ?p ?p' "[]" "[]", unfolded scheme_id.simps])
      (use comp in \<open>simp_all add: attested_pid_def NONCE_LEN_def proof_established_def\<close>)
  then have server: "runs (accept_session mem_hs_env ?b (Inr (Tcp ([], []))) VersionOnly ?p) ?tr (Inr ?s)"
    unfolding accept_session_run by blast
  have no_proof: "client_proof mem_hs_env VersionOnly ?nonce = []" by (simp add: client_proof_def)
  have "runs (authenticate_client mem_hs_env VersionOnly ?p') ?tr' (Inr (Some (proto_version ?p)))"
    by (rule client_run [of VersionOnly ?p' ?p ?nonce mem_hs_env, unfolded scheme_id.simps no_proof]) (use comp in simp_all)
  moreover have opened: "endpoint_connect Linux mem_connect (TcpEndpoint ()) = Inr ?conn'"
    by (simp add: connect_tcp_def mem_connect_def)
  ultimately have client: "runs (connect_session mem_hs_env ?b Linux mem_connect (TcpEndpoint ()) VersionOnly ?p') ?tr' (Inr ?s')"
    unfolding connect_session_run by blast
  have networks: "network ?s = mem_server" by (simp add: session_network mem_server_def)
  have wf: "list_all (wf_message (Some (1024 * 1024))) (map fst (queued (queued_items [Queued (Message [[]] 0)])))"
    "list_all (wf_message (Some (1024 * 1024))) (map fst (queued (queued_items [])))"
    by (simp_all add: wf_message_def exceeds_def message_words_def)
  have streams: "received ?tr' @ fst (conn_socket ?conn') = sent ?tr @ snd (conn_socket (sink mem_sent))"
    "received ?tr @ fst (conn_socket (Tcp ([], []))) = sent ?tr' @ snd (conn_socket (sink (network ?s')))"
    by (simp_all add: frame_packet_def packet_header_def session_network vat_network_new_def)
  from authenticated_sessions_deliver [OF server client opened refl mem_hmac.hmac_laws_axioms
      mem_sinks.byte_sink_axioms mem_readers.byte_stream_axioms list_framing.capnp_framing_axioms
      mem_sinks.byte_sink_axioms mem_readers.byte_stream_axioms mem_sent_run [folded networks] _ run_start _ streams wf]
  have "peer_version ?s = Some (proto_version ?p') \<and> peer_version ?s' = Some (proto_version ?p)" by simp
  with server client show ?thesis unfolding protocol_new_def protocol.simps by blast
qed

end
