(* ===== verification/Frame_Body.thy ===== *)
theory Frame_Body
  imports Frame_Inbound
begin

text \<open>
  \<open>Body\<close> of \<open>src/src/rpc/frame.rs\<close>: the buffer through which \<open>read_exact\<close> fills the segments of a long
  message in place. \<open>read_body\<close> writes the bytes read at once; here they arrive in any number of pieces,
  each written behind the filled part and counted by \<open>set_len\<close>, and the segments are the same in the end.
\<close>

record 's body =
  body_segments :: 's
  filled :: nat

text \<open>A buffer is seen through the bytes \<open>raw\<close> of its segments.\<close>

definition body_as_init :: "('s \<Rightarrow> bytes) \<Rightarrow> 's body \<Rightarrow> bytes" where
  "body_as_init raw b = take (filled b) (raw (body_segments b))"

definition body_set_len :: "nat \<Rightarrow> 's body \<Rightarrow> 's body" where
  "body_set_len len b = b\<lparr>filled := len\<rparr>"

definition body_as_uninit :: "('s \<Rightarrow> bytes) \<Rightarrow> 's body \<Rightarrow> bytes" where
  "body_as_uninit raw b = raw (body_segments b)"

text \<open>A read that puts \<open>bs\<close> behind the filled part of \<open>as_uninit\<close> and advances the length.\<close>

definition body_receive :: "('b, 's) capnp_ops \<Rightarrow> 's body \<Rightarrow> bytes \<Rightarrow> 's body" where
  "body_receive ops b bs =
     body_set_len (filled b + length bs) (b\<lparr>body_segments := segments_write ops (body_segments b) (filled b) bs\<rparr>)"

lemma body_receive_simps [simp]:
  "filled (body_receive ops b bs) = filled b + length bs"
  "body_segments (body_receive ops b bs) = segments_write ops (body_segments b) (filled b) bs"
  by (simp_all add: body_receive_def body_set_len_def)

context capnp_framing
begin

text \<open>The filled part grows by what was received, and nothing outside the segments is touched.\<close>

lemma receive_in_place:
  assumes "filled b + length bs \<le> length (body_as_uninit raw_of b)"
  shows "body_as_init raw_of (body_receive ops b bs) = body_as_init raw_of b @ bs"
    and "length (body_as_uninit raw_of (body_receive ops b bs)) = length (body_as_uninit raw_of b)"
  using assms by (simp_all add: body_as_init_def body_as_uninit_def write_raw)

lemma receive_pieces:
  assumes "filled b + length (concat pieces) \<le> length (body_as_uninit raw_of b)"
  shows "filled (foldl (body_receive ops) b pieces) = filled b + length (concat pieces)
    \<and> body_as_init raw_of (foldl (body_receive ops) b pieces) = body_as_init raw_of b @ concat pieces
    \<and> length (body_as_uninit raw_of (foldl (body_receive ops) b pieces)) = length (body_as_uninit raw_of b)
    \<and> table_of (body_segments (foldl (body_receive ops) b pieces)) = table_of (body_segments b)"
  using assms
proof (induction pieces arbitrary: b)
  case (Cons bs pieces)
  then show ?case
    using Cons.IH [of "body_receive ops b bs"] receive_in_place [of b bs] by (simp add: write_table add.assoc)
qed simp

text \<open>
  However the rest of a body arrives, the message is the one \<open>read_body\<close> returns when it comes at once,
  and every byte of it is then initialised.
\<close>

lemma pieces_fill_message:
  assumes "length staged + length (concat pieces) = length (raw_of s)"
  defines "b \<equiv> foldl (body_receive ops) \<lparr>body_segments = segments_write ops s 0 staged, filled = length staged\<rparr> pieces"
  shows "read_segments ops (body_segments b)
      = read_segments ops (segments_write ops (segments_write ops s 0 staged) (length staged) (concat pieces))"
    and "body_as_init raw_of b = body_as_uninit raw_of b" and "body_as_uninit raw_of b = staged @ concat pieces"
proof -
  let ?b = "\<lparr>body_segments = segments_write ops s 0 staged, filled = length staged\<rparr>"
  have raw: "raw_of (segments_write ops s 0 staged) = staged @ drop (length staged) (raw_of s)"
    using assms(1) by (simp add: write_raw)
  have start: "body_as_init raw_of ?b = staged" "length (body_as_uninit raw_of ?b) = length (raw_of s)"
    using assms(1) by (simp_all add: body_as_init_def body_as_uninit_def raw)
  then have "filled ?b + length (concat pieces) \<le> length (body_as_uninit raw_of ?b)" using assms(1) by simp
  from receive_pieces [OF this] have b: "filled b = length (raw_of s)" "body_as_init raw_of b = staged @ concat pieces"
    "length (body_as_uninit raw_of b) = length (raw_of s)" "table_of (body_segments b) = table_of s"
    using assms(1) start unfolding b_def [symmetric] by (simp_all add: write_table)
  then show all: "body_as_init raw_of b = body_as_uninit raw_of b" by (simp add: body_as_init_def body_as_uninit_def)
  with b show whole: "body_as_uninit raw_of b = staged @ concat pieces" by simp
  have "raw_of (segments_write ops (segments_write ops s 0 staged) (length staged) (concat pieces)) = staged @ concat pieces"
    using assms(1) write_raw [of "length staged" "concat pieces" "segments_write ops s 0 staged"] by (simp add: raw)
  with b(4) whole show "read_segments ops (body_segments b)
      = read_segments ops (segments_write ops (segments_write ops s 0 staged) (length staged) (concat pieces))"
    by (simp add: read_segments_eq write_table body_as_uninit_def)
qed

end

end
