(* ===== verification/Error_Tests.thy ===== *)
theory Error_Tests
  imports Wire_Error "HOL-Library.Sublist"
begin

text \<open>
  The unit tests of \<open>src/src/error/rpc.rs\<close>. A test is a boolean function of the report
  operations, with its assertions as conjuncts, and every test is shown to pass on every
  implementation that satisfies the laws of \<open>error_stack\<close>.
\<close>

section \<open>The tests\<close>

text \<open>The context of the tests: its \<open>Display\<close> text holds a path that must not leave the process.\<close>

definition SensitivePath :: "string \<Rightarrow> report_context" where
  "SensitivePath path = OtherContext (''socket path: '' @ path)"

text \<open>\<open>str::contains\<close>\<close>

abbreviation contains :: "string \<Rightarrow> string \<Rightarrow> bool" where
  "contains text part \<equiv> sublist part text"

text \<open>\<open>matches!(report.current_context(), RpcError::Remote { kind, code })\<close>, with a pattern for each field.\<close>

definition is_remote :: "(remote_error_kind \<Rightarrow> bool) \<Rightarrow> wire_code option \<Rightarrow> report_context \<Rightarrow> bool" where
  "is_remote of_kind code c =
     (case c of RpcContext (Remote k code') \<Rightarrow> of_kind k \<and> code' = code | _ \<Rightarrow> False)"

definition layer_matching_survives_change_context :: "'r report_ops \<Rightarrow> bool" where
  "layer_matching_survives_change_context ops =
     (let report = change_context ops
            (attach ops (report_new ops (TransportContext Connect)) (OpaqueAttachment ''some local detail''))
            (RpcContext Setup)
      in current_context ops report = RpcContext Setup
         \<and> downcast_transport_error ops report \<noteq> None
         \<and> downcast_transport_error ops report = Some Connect)"

definition outgoing_exception_never_carries_attachments :: "'r report_ops \<Rightarrow> bool" where
  "outgoing_exception_never_carries_attachments ops =
     (let report = change_context ops
            (report_new ops (SensitivePath ''/run/user/1000/very-secret-service.sock'')) (RpcContext Handler);
          exn = to_capnp_exception ops report
      in kind exn = capnp_kind.Failed
         \<and> \<not> contains (extra exn) ''secret''
         \<and> \<not> contains (extra exn) ''/run/user''
         \<and> extra exn = rpc_error_fmt Handler)"

definition unimplemented_maps_to_capnp_unimplemented :: "'r report_ops \<Rightarrow> bool" where
  "unimplemented_maps_to_capnp_unimplemented ops =
     (let report = report_new ops (RpcContext rpc_error.Unimplemented);
          exn = to_capnp_exception ops report
      in kind exn = capnp_kind.Unimplemented)"

definition incoming_exception_roundtrip_preserves_kind_and_message :: "'r report_ops \<Rightarrow> bool" where
  "incoming_exception_roundtrip_preserves_kind_and_message ops =
     (let original = \<lparr>kind = capnp_kind.Disconnected, extra = ''peer went away''\<rparr>;
          report = from_capnp_exception ops original
      in is_remote (\<lambda>k. k = remote_error_kind.Disconnected) None (current_context ops report)
         \<and> downcast_remote_message ops report = Some ''peer went away'')"

definition remote_forwarded_as_disconnected_not_local_failure :: "'r report_ops \<Rightarrow> bool" where
  "remote_forwarded_as_disconnected_not_local_failure ops =
     (let incoming = from_capnp_exception ops \<lparr>kind = capnp_kind.Failed, extra = ''upstream broke''\<rparr>;
          outgoing = to_capnp_exception ops incoming
      in kind outgoing = capnp_kind.Disconnected)"

definition attached_code_crosses_the_wire_and_is_matchable :: "'r report_ops \<Rightarrow> bool" where
  "attached_code_crosses_the_wire_and_is_matchable ops =
     (let report = attach ops
            (change_context ops (report_new ops (SensitivePath ''/run/user/1000/x'')) (RpcContext Handler))
            (CodeAttachment wire_code.PermissionDenied);
          exn = to_capnp_exception ops report;
          received = from_capnp_exception ops exn
      in \<not> contains (extra exn) ''/run/user''
         \<and> is_remote (\<lambda>_. True) (Some wire_code.PermissionDenied) (current_context ops received))"

definition wire_message_replaces_context_text_but_not_attachments :: "'r report_ops \<Rightarrow> bool" where
  "wire_message_replaces_context_text_but_not_attachments ops =
     (let report = attach ops
            (attach ops
               (change_context ops (report_new ops (SensitivePath ''/run/user/1000/x'')) (RpcContext Handler))
               (CodeAttachment wire_code.NotFound))
            (MessageAttachment ''no such plugin: metrics'');
          exn = to_capnp_exception ops report;
          received = from_capnp_exception ops exn
      in \<not> contains (extra exn) ''/run/user''
         \<and> downcast_remote_message ops received = Some ''no such plugin: metrics'')"

definition unavailable_maps_to_overloaded_so_peers_know_to_retry :: "'r report_ops \<Rightarrow> bool" where
  "unavailable_maps_to_overloaded_so_peers_know_to_retry ops =
     (let report = attach ops (report_new ops (RpcContext Handler)) (CodeAttachment Unavailable);
          exn = to_capnp_exception ops report
      in kind exn = capnp_kind.Overloaded)"

definition unrecognised_code_degrades_to_unknown_not_an_error :: "'r report_ops \<Rightarrow> bool" where
  "unrecognised_code_degrades_to_unknown_not_an_error ops =
     (let from_newer_peer = \<lparr>kind = capnp_kind.Failed, extra = ''[ogurpchik:quota-exhausted] slow down''\<rparr>;
          received = from_capnp_exception ops from_newer_peer
      in is_remote (\<lambda>_. True) (Some wire_code.Unknown) (current_context ops received)
         \<and> downcast_remote_message ops received = Some ''slow down'')"

definition malformed_prefix_is_treated_as_plain_text :: "'r report_ops \<Rightarrow> bool" where
  "malformed_prefix_is_treated_as_plain_text ops =
     list_all (\<lambda>text.
       let received = from_capnp_exception ops \<lparr>kind = capnp_kind.Failed, extra = text\<rparr>
       in is_remote (\<lambda>_. True) None (current_context ops received)
          \<and> downcast_remote_message ops received = Some text)
       [''[ogurpchik:unterminated'', ''[ogurpchik'', ''plain message'']"

definition handler_built_exception_is_matchable_by_the_caller :: "'r report_ops \<Rightarrow> bool" where
  "handler_built_exception_is_matchable_by_the_caller ops =
     (let exn = exception InvalidArgument ''port must be non-zero'';
          received = from_capnp_exception ops exn
      in is_remote (\<lambda>_. True) (Some InvalidArgument) (current_context ops received)
         \<and> downcast_remote_message ops received = Some ''port must be non-zero'')"

definition relayed_remote_code_is_not_re_emitted_without_intent :: "'r report_ops \<Rightarrow> bool" where
  "relayed_remote_code_is_not_re_emitted_without_intent ops =
     (let incoming = from_capnp_exception ops (exception wire_code.PermissionDenied ''plugin said no'');
          relayed = to_capnp_exception ops incoming;
          (code, _) = decode_wire_text (extra relayed)
      in code = None)"

section \<open>Every test passes\<close>

lemmas evaluate_wire_text = decode_wire_text_def encode_wire_text_def WIRE_PREFIX_def from_slug_def
  exception_def capnp_kind_of_def is_remote_def Let_def

context error_stack
begin

lemmas evaluate_report = report_laws to_capnp_exception_def from_capnp_exception_def SensitivePath_def

lemma local_errors_pass:
  "layer_matching_survives_change_context ops"
  "unimplemented_maps_to_capnp_unimplemented ops"
  "unavailable_maps_to_overloaded_so_peers_know_to_retry ops"
  by (simp_all add: layer_matching_survives_change_context_def unimplemented_maps_to_capnp_unimplemented_def
      unavailable_maps_to_overloaded_so_peers_know_to_retry_def evaluate_report evaluate_wire_text)

lemma incoming_errors_pass:
  "incoming_exception_roundtrip_preserves_kind_and_message ops"
  "remote_forwarded_as_disconnected_not_local_failure ops"
  "unrecognised_code_degrades_to_unknown_not_an_error ops"
  "malformed_prefix_is_treated_as_plain_text ops"
  "handler_built_exception_is_matchable_by_the_caller ops"
  "relayed_remote_code_is_not_re_emitted_without_intent ops"
  by (simp_all add: incoming_exception_roundtrip_preserves_kind_and_message_def
      remote_forwarded_as_disconnected_not_local_failure_def
      unrecognised_code_degrades_to_unknown_not_an_error_def malformed_prefix_is_treated_as_plain_text_def
      handler_built_exception_is_matchable_by_the_caller_def
      relayed_remote_code_is_not_re_emitted_without_intent_def evaluate_report evaluate_wire_text)

lemma outgoing_errors_pass:
  "outgoing_exception_never_carries_attachments ops"
  "attached_code_crosses_the_wire_and_is_matchable ops"
  "wire_message_replaces_context_text_but_not_attachments ops"
  by (simp_all add: outgoing_exception_never_carries_attachments_def
      attached_code_crosses_the_wire_and_is_matchable_def
      wire_message_replaces_context_text_but_not_attachments_def evaluate_report evaluate_wire_text
      sublist_code)

end

end
