(* ===== verification/Vm_Tests.thy ===== *)
theory Vm_Tests
  imports Vm_Lookup
begin

text \<open>
  The unit tests of \<open>src/src/net/vsock/utils.rs\<close>. A test is a boolean function of the parsers the
  lookup is given; \<open>vm_parsers\<close> states what the documents and identifiers of the tests need of
  \<open>serde_json\<close> and \<open>Uuid\<close>, and a reader of flat JSON objects shows that it can hold.
\<close>

section \<open>The tests\<close>

definition WSL :: string where
  "WSL = ''c6de7088-6992-4adf-8038-5984755d5412''"

definition COWORK_RUNTIME :: string where
  "COWORK_RUNTIME = ''ed4d837e-aa16-57c4-9c8a-d1027b76533a''"

definition quote :: "string \<Rightarrow> string" where
  "quote s = CHR 0x22 # s @ [CHR 0x22]"

text \<open>\<open>[String]::join\<close>\<close>

fun join :: "string \<Rightarrow> string list \<Rightarrow> string" where
  "join sep [] = []"
| "join sep [s] = s"
| "join sep (s # ss) = s @ sep @ join sep ss"

definition json_object :: "(string \<times> string) list \<Rightarrow> string" where
  "json_object members = ''{'' @ join '','' (map (\<lambda>(k, v). quote k @ '':'' @ quote v) members) @ ''}''"

definition json_array :: "string list \<Rightarrow> string" where
  "json_array items = ''['' @ join '','' items @ '']''"

fun entry_fields :: "string \<times> string \<times> string \<Rightarrow> (string \<times> string) list" where
  "entry_fields (i, owner, runtime_id) =
     [(''Id'', i), (''SystemType'', ''VirtualMachine''), (''Name'', i), (''Owner'', owner),
      (''RuntimeId'', runtime_id), (''State'', ''Running'')]"

definition listing :: "(string \<times> string \<times> string) list \<Rightarrow> string" where
  "listing entries = json_array (map (json_object \<circ> entry_fields) entries)"

text \<open>\<open>None\<close> is the panic of \<open>unwrap\<close>.\<close>

definition parsed :: "vm_env \<Rightarrow> string \<Rightarrow> compute_system list option" where
  "parsed env json = (case parse_compute_systems env (as_bytes json) of Inl e \<Rightarrow> None | Inr vms \<Rightarrow> Some vms)"

definition best :: "vm_env \<Rightarrow> string \<Rightarrow> uuid option option" where
  "best env json = map_option (best_vm env) (parsed env json)"

text \<open>\<open>assert_eq!(found, Some(text.parse().unwrap()))\<close>\<close>

definition is_parsed :: "vm_env \<Rightarrow> string \<Rightarrow> uuid option option \<Rightarrow> bool" where
  "is_parsed env s found \<longleftrightarrow> parse_uuid env s \<noteq> None \<and> found = Some (parse_uuid env s)"

definition cowork :: "string \<times> string \<times> string" where
  "cowork = (''cowork-vm-45f50555'', ''cowork-vm-45f50555'', COWORK_RUNTIME)"

definition a_compute_system_with_a_non_uuid_id_does_not_hide_wsl :: "vm_env \<Rightarrow> bool" where
  "a_compute_system_with_a_non_uuid_id_does_not_hide_wsl env =
     (let json = listing [cowork, (WSL, ''WSL'', WSL)] in is_parsed env WSL (best env json))"

definition wsl_wins_wherever_it_is_listed :: "vm_env \<Rightarrow> bool" where
  "wsl_wins_wherever_it_is_listed env =
     (let json = listing [(WSL, ''WSL'', WSL), cowork] in is_parsed env WSL (best env json))"

definition without_wsl_the_runtime_id_addresses_the_vm :: "vm_env \<Rightarrow> bool" where
  "without_wsl_the_runtime_id_addresses_the_vm env =
     (let json = listing [cowork] in is_parsed env COWORK_RUNTIME (best env json))"

definition entries_without_any_uuid_are_skipped :: "vm_env \<Rightarrow> bool" where
  "entries_without_any_uuid_are_skipped env =
     (let json = listing [(''not-a-vm'', ''someone'', ''''), (WSL, ''WSL'', WSL)] in
      is_parsed env WSL (best env json)
      \<and> best env (listing [(''not-a-vm'', ''someone'', '''')]) = Some None)"

definition the_wsl_lookup_never_settles_for_another_vm :: "vm_env \<Rightarrow> bool" where
  "the_wsl_lookup_never_settles_for_another_vm env =
     (let wsl = (\<lambda>json. map_option (wsl_vm env) (parsed env json)) in
      wsl (listing [cowork]) = Some None
      \<and> is_parsed env WSL (wsl (listing [cowork, (WSL, ''WSL'', WSL)])))"

definition the_registry_answers_only_when_one_vm_runs :: "vm_env \<Rightarrow> bool" where
  "the_registry_answers_only_when_one_vm_runs env =
     (case (parse_uuid env WSL, parse_uuid env COWORK_RUNTIME) of
        (Some wsl, Some other) \<Rightarrow>
          the_only_vm [] = Inr None
          \<and> the_only_vm [wsl] = Inr (Some wsl)
          \<and> the_only_vm [other, wsl] = Inl (Ambiguous 2)
      | _ \<Rightarrow> False)"

definition missing_fields_and_an_empty_listing_are_not_errors :: "vm_env \<Rightarrow> bool" where
  "missing_fields_and_an_empty_listing_are_not_errors env =
     (is_parsed env WSL
        (best env (json_array
           [json_object [(''Id'', ''x'')],
            json_object [(''Owner'', ''WSL''), (''RuntimeId'', ''c6de7088-6992-4adf-8038-5984755d5412'')]]))
      \<and> best env ''[]'' = Some None
      \<and> best env '''' = Some None)"

section \<open>What the tests need of the parsers\<close>

text \<open>
  An object of string members gives the named members, with the default for those that are missing;
  names and values here need no escapes. A \<open>Uuid\<close> has at least 32 digits, and its hyphenated form
  parses.
\<close>

definition plain :: "string \<Rightarrow> bool" where
  "plain s = list_all (\<lambda>c. c \<noteq> CHR 0x22 \<and> c \<noteq> CHR 0x5C \<and> 31 < (of_char c :: nat)) s"

definition field_of :: "(string \<times> string) list \<Rightarrow> string \<Rightarrow> string" where
  "field_of members k = (case map_of members k of Some v \<Rightarrow> v | None \<Rightarrow> [])"

definition system_of :: "(string \<times> string) list \<Rightarrow> compute_system" where
  "system_of members =
     \<lparr>cs_id = field_of members ''Id'', cs_owner = field_of members ''Owner'', cs_runtime_id = field_of members ''RuntimeId''\<rparr>"

definition is_hex :: "char \<Rightarrow> bool" where
  "is_hex c \<longleftrightarrow> c \<in> set ''0123456789abcdef''"

definition hyphenated :: "string \<Rightarrow> bool" where
  "hyphenated s \<longleftrightarrow>
     length s = 36
     \<and> list_all (\<lambda>i. if i \<in> {8, 13, 18, 23} then s ! i = CHR ''-'' else is_hex (s ! i)) [0..<36]"

lemma trim_array: "trim (as_bytes (json_array items)) = as_bytes (json_array items)"
  by (rule trim_id) (simp_all add: json_array_def as_bytes_def)

locale vm_parsers =
  fixes env :: vm_env
  assumes json_objects:
      "list_all (\<lambda>members. members \<noteq> [] \<and> distinct (map fst members) \<and> list_all (\<lambda>(k, v). plain k \<and> plain v) members) objects
       \<Longrightarrow> from_json env (as_bytes (json_array (map json_object objects))) = Some (map system_of objects)"
    and uuid_long: "parse_uuid env s \<noteq> None \<Longrightarrow> 32 \<le> length s"
    and uuid_hyphenated: "hyphenated s \<Longrightarrow> parse_uuid env s \<noteq> None"
begin

lemma parsed_array:
  assumes "list_all (\<lambda>members. members \<noteq> [] \<and> distinct (map fst members) \<and> list_all (\<lambda>(k, v). plain k \<and> plain v) members) objects"
  shows "parsed env (json_array (map json_object objects)) = Some (map system_of objects)"
proof -
  have "trim (as_bytes (json_array (map json_object objects))) \<noteq> []"
    unfolding trim_array by (simp add: json_array_def as_bytes_def)
  then show ?thesis using json_objects [OF assms] by (simp add: parsed_def parse_compute_systems_def)
qed

lemma parsed_listing:
  assumes "list_all (\<lambda>(i, owner, runtime_id). plain i \<and> plain owner \<and> plain runtime_id) entries"
  shows "parsed env (listing entries) =
    Some (map (\<lambda>(i, owner, runtime_id). \<lparr>cs_id = i, cs_owner = owner, cs_runtime_id = runtime_id\<rparr>) entries)"
proof -
  have "list_all (\<lambda>members. members \<noteq> [] \<and> distinct (map fst members) \<and> list_all (\<lambda>(k, v). plain k \<and> plain v) members)
      (map entry_fields entries)"
    using assms by (induction entries) (auto simp: plain_def)
  from parsed_array [OF this] show ?thesis
    by (auto simp: listing_def system_of_def field_of_def)
qed

lemma short_text: "length s < 32 \<Longrightarrow> parse_uuid env s = None"
  using uuid_long not_less by blast

lemma constants_parse:
  obtains wsl other where "parse_uuid env WSL = Some wsl" and "parse_uuid env COWORK_RUNTIME = Some other"
proof -
  have "hyphenated WSL" "hyphenated COWORK_RUNTIME" by code_simp+
  then show ?thesis using that uuid_hyphenated by blast
qed

lemma plain_texts: "plain WSL" "plain COWORK_RUNTIME" "plain ''WSL''" "plain ''cowork-vm-45f50555''"
  "plain ''not-a-vm''" "plain ''someone''" "plain []"
  by code_simp+

lemmas look_up = best_def parsed_listing best_vm_def wsl_vm_def vm_id_def is_parsed_def short_text cowork_def
  plain_texts Let_def

lemma listings_pass:
  "a_compute_system_with_a_non_uuid_id_does_not_hide_wsl env"
  "wsl_wins_wherever_it_is_listed env"
  "without_wsl_the_runtime_id_addresses_the_vm env"
  "entries_without_any_uuid_are_skipped env"
  "the_wsl_lookup_never_settles_for_another_vm env"
  by (rule constants_parse;
      simp add: look_up a_compute_system_with_a_non_uuid_id_does_not_hide_wsl_def wsl_wins_wherever_it_is_listed_def
        without_wsl_the_runtime_id_addresses_the_vm_def entries_without_any_uuid_are_skipped_def
        the_wsl_lookup_never_settles_for_another_vm_def)+

lemma registry_passes: "the_registry_answers_only_when_one_vm_runs env"
  by (rule constants_parse) (simp add: the_registry_answers_only_when_one_vm_runs_def)

lemma missing_fields_pass: "missing_fields_and_an_empty_listing_are_not_errors env"
proof -
  have objects: "parsed env (json_array [json_object [(''Id'', ''x'')],
      json_object [(''Owner'', ''WSL''), (''RuntimeId'', ''c6de7088-6992-4adf-8038-5984755d5412'')]])
      = Some [system_of [(''Id'', ''x'')],
              system_of [(''Owner'', ''WSL''), (''RuntimeId'', ''c6de7088-6992-4adf-8038-5984755d5412'')]]"
    using parsed_array [of "[[(''Id'', ''x'')],
        [(''Owner'', ''WSL''), (''RuntimeId'', ''c6de7088-6992-4adf-8038-5984755d5412'')]]"]
    by (simp add: plain_def)
  have "parsed env ''[]'' = Some []" using parsed_array [of "[]"] by (simp add: json_array_def)
  moreover have "trim (as_bytes []) = []" by code_simp
  ultimately have none: "parsed env ''[]'' = Some []" "parsed env [] = Some []"
    by (simp_all add: parsed_def parse_compute_systems_def)
  show ?thesis
    by (rule constants_parse)
      (simp add: missing_fields_and_an_empty_listing_are_not_errors_def best_def objects none is_parsed_def best_vm_def
        vm_id_def system_of_def field_of_def WSL_def short_text)
qed

end

section \<open>A reader of flat objects\<close>

definition read_quoted :: "string \<Rightarrow> (string \<times> string) option" where
  "read_quoted s =
     (case s of
        c # s \<Rightarrow>
          (case dropWhile (\<lambda>c. c \<noteq> CHR 0x22) s of
             d # rest \<Rightarrow> if c = CHR 0x22 then Some (takeWhile (\<lambda>c. c \<noteq> CHR 0x22) s, rest) else None
           | [] \<Rightarrow> None)
      | [] \<Rightarrow> None)"

definition read_member :: "string \<Rightarrow> ((string \<times> string) \<times> string) option" where
  "read_member s =
     Option.bind (read_quoted s) (\<lambda>(k, s).
     Option.bind (strip_prefix '':'' s) (\<lambda>s.
     Option.bind (read_quoted s) (\<lambda>(v, s). Some ((k, v), s))))"

text \<open>Items separated by commas, up to the closing character.\<close>

fun read_items :: "nat \<Rightarrow> (string \<Rightarrow> ('a \<times> string) option) \<Rightarrow> char \<Rightarrow> string \<Rightarrow> ('a list \<times> string) option" where
  "read_items 0 item close s = None"
| "read_items (Suc fuel) item close s =
     (case item s of
        None \<Rightarrow> None
      | Some (x, c # s) \<Rightarrow>
          if c = close then Some ([x], s)
          else if c = CHR '','' then map_option (\<lambda>(xs, s). (x # xs, s)) (read_items fuel item close s)
          else None
      | Some (x, []) \<Rightarrow> None)"

definition read_object :: "string \<Rightarrow> ((string \<times> string) list \<times> string) option" where
  "read_object s = Option.bind (strip_prefix ''{'' s) (\<lambda>s. read_items (length s) read_member (CHR ''}'') s)"

definition read_array :: "bytes \<Rightarrow> compute_system list option" where
  "read_array bs =
     (let s = map (\<lambda>b. char_of (unat b)) bs in
      if s = ''[]'' then Some []
      else
        (case Option.bind (strip_prefix ''['' s) (\<lambda>s. read_items (length s) read_object (CHR '']'') s) of
           Some (objects, []) \<Rightarrow> Some (map system_of objects)
         | _ \<Rightarrow> None))"

lemma read_quoted_quote: "plain s \<Longrightarrow> read_quoted (quote s @ r) = Some (s, r)"
proof -
  assume "plain s"
  then have "\<forall>c \<in> set s. c \<noteq> CHR 0x22" by (auto simp: plain_def list_all_iff)
  then show ?thesis
    by (simp add: read_quoted_def quote_def dropWhile_append2 takeWhile_append2)
qed

lemma read_items_join:
  assumes "\<And>x r. x \<in> set xs \<Longrightarrow> item (show x @ r) = Some (x, r)" and "\<And>x. x \<in> set xs \<Longrightarrow> show x \<noteq> []"
    and "close \<noteq> CHR '',''" and "xs \<noteq> []" and "length (join '','' (map show xs)) < fuel"
  shows "read_items fuel item close (join '','' (map show xs) @ close # r) = Some (xs, r)"
  using assms(1,2,4,5)
proof (induction xs arbitrary: fuel rule: induct_list012)
  case (2 x)
  then show ?case using assms(3) by (cases fuel) auto
next
  case (3 x y xs)
  then obtain f where f: "fuel = Suc f" "length (join '','' (map show (y # xs))) < f"
    by (cases fuel) auto
  have "read_items f item close (join '','' (map show (y # xs)) @ close # r) = Some (y # xs, r)"
    by (rule "3.IH"(2)) (use "3.prems" f in auto)
  then show ?case
    using "3.prems"(1) [of x] assms(3) f(1) by simp
qed simp

lemma read_member_show: "plain k \<Longrightarrow> plain v \<Longrightarrow> read_member ((quote k @ '':'' @ quote v) @ r) = Some ((k, v), r)"
  by (simp add: read_member_def read_quoted_quote)

lemma read_object_show:
  assumes "members \<noteq> []" and "list_all (\<lambda>(k, v). plain k \<and> plain v) members"
  shows "read_object (json_object members @ r) = Some (members, r)"
proof -
  let ?show = "\<lambda>(k, v). quote k @ '':'' @ quote v"
  let ?text = "join '','' (map ?show members)"
  have "read_items (length (?text @ CHR ''}'' # r)) read_member (CHR ''}'') (?text @ CHR ''}'' # r) = Some (members, r)"
  proof (rule read_items_join)
    show "read_member ((case x of (k, v) \<Rightarrow> quote k @ '':'' @ quote v) @ r) = Some (x, r)" if "x \<in> set members" for x r
      using that assms(2) read_member_show by (fastforce simp: list_all_iff)
    show "(case x of (k, v) \<Rightarrow> quote k @ '':'' @ quote v) \<noteq> []" for x
      by (simp add: quote_def split: prod.split)
  qed (use assms(1) in simp_all)
  then show ?thesis by (simp add: read_object_def json_object_def)
qed

lemma char_of_as_bytes: "map (\<lambda>b. char_of (unat b)) (as_bytes s) = s"
proof -
  have "unat (of_char c :: u8) = of_char c" for c
  proof -
    have "(of_char c :: nat) < 256" by simp
    then show ?thesis
      using unat_of_nat [of "of_char c", where 'a = 8] unfolding of_nat_of_char by (simp add: take_bit_eq_mod)
  qed
  then show ?thesis by (simp add: as_bytes_def comp_def)
qed

definition parsing_vms :: vm_env where
  "parsing_vms =
     (sample_vms (Inr []))\<lparr>from_json := read_array, parse_uuid := (\<lambda>s. if hyphenated s then Some (of_nat (length s)) else None)\<rparr>"

interpretation parsing: vm_parsers parsing_vms
proof
  show "from_json parsing_vms (as_bytes (json_array (map json_object objects))) = Some (map system_of objects)"
    if "list_all (\<lambda>members. members \<noteq> [] \<and> distinct (map fst members) \<and> list_all (\<lambda>(k, v). plain k \<and> plain v) members) objects"
    for objects
  proof (cases "objects = []")
    case False
    let ?text = "join '','' (map json_object objects)"
    have "read_items (length (?text @ CHR '']'' # [])) read_object (CHR '']'') (?text @ CHR '']'' # []) = Some (objects, [])"
    proof (rule read_items_join)
      show "read_object (json_object x @ r) = Some (x, r)" if "x \<in> set objects" for x r
        using that \<open>list_all _ objects\<close> by (auto simp: list_all_iff read_object_show)
      show "json_object x \<noteq> []" for x by (simp add: json_object_def)
    qed (use False in simp_all)
    moreover have "?text \<noteq> []" using False by (cases objects rule: remdups_adj.cases) (auto simp: json_object_def)
    ultimately show ?thesis
      by (simp add: parsing_vms_def read_array_def char_of_as_bytes json_array_def)
  qed (simp add: parsing_vms_def read_array_def char_of_as_bytes json_array_def)
qed (auto simp: parsing_vms_def hyphenated_def split: if_splits)

end
