(* ===== verification/Endpoint_Tests.thy ===== *)
theory Endpoint_Tests
  imports Endpoint
begin

text \<open>
  The unit tests of \<open>src/src/endpoint.rs\<close> on names, directories and \<open>connect_ready\<close>. A test is a
  boolean function of the environment it runs in. What the directory tests need of the file system is
  the locale \<open>posix_dirs\<close>; the tests of the clock hold for every clock that is prompt enough.
\<close>

section \<open>Names\<close>

definition invalid_name :: "(endpoint_error report + 'x) \<times> 'f \<Rightarrow> bool" where
  "invalid_name answer = (case fst answer of Inl r \<Rightarrow> context_of r = InvalidServiceName | Inr _ \<Rightarrow> False)"

definition service_name_validation :: "platform \<Rightarrow> 'f dir_env \<Rightarrow> 'f \<Rightarrow> bool" where
  "service_name_validation plat env f \<longleftrightarrow>
     (\<exists>ep. fst (for_service plat env f ''myapp'' ''metrics-v2'' :: (_ + nat endpoint) \<times> 'f) = Inr ep)
     \<and> list_all (\<lambda>bad. invalid_name (for_service plat env f ''myapp'' bad :: (_ + nat endpoint) \<times> 'f))
         [[], ''a/b'', [CHR ''a'', CHR 0x5C, CHR ''b''], ''a b'', ''a.b'', ''a:b'', replicate 65 (CHR ''x'')]"

definition windows_convention_is_named_pipe :: "'f dir_env \<Rightarrow> 'f \<Rightarrow> bool" where
  "windows_convention_is_named_pipe env f =
     (case fst (for_service Windows env f ''myapp'' ''metrics'' :: (_ + nat endpoint) \<times> 'f) of
        Inr (NpipeEndpoint name) \<Rightarrow>
          name = [CHR 0x5C, CHR 0x5C, CHR ''.'', CHR 0x5C] @ ''pipe'' @ CHR 0x5C # ''myapp.metrics''
      | _ \<Rightarrow> False)"

text \<open>\<open>Path::ends_with\<close>, which compares whole components.\<close>

definition path_ends_with :: "string \<Rightarrow> string \<Rightarrow> bool" where
  "path_ends_with path rel \<longleftrightarrow> path = rel \<or> suffix (CHR ''/'' # rel) path"

definition unix_convention_is_uds_in_runtime_dir :: "platform \<Rightarrow> 'f dir_env \<Rightarrow> 'f \<Rightarrow> bool" where
  "unix_convention_is_uds_in_runtime_dir plat env f =
     (case fst (for_service plat env f ''myapp'' ''metrics'' :: (_ + nat endpoint) \<times> 'f) of
        Inr (UdsEndpoint path) \<Rightarrow> path_ends_with path ''myapp/metrics.sock''
      | _ \<Rightarrow> False)"

lemma myapp_names: "valid_name ''myapp''" "valid_name ''metrics''" "valid_name ''metrics-v2''"
  by code_simp+

lemma bad_names:
  "list_all (\<lambda>name. \<not> valid_name name)
     [[], ''a/b'', [CHR ''a'', CHR 0x5C, CHR ''b''], ''a b'', ''a.b'', ''a:b'', replicate 65 (CHR ''x'')]"
  by code_simp

lemma bad_name_refused: "valid_name app \<Longrightarrow> \<not> valid_name bad \<Longrightarrow> invalid_name (for_service plat env f app bad)"
  by (auto simp: invalid_name_def for_service_def validate_name_def valid_name_def)

lemma valid_name_accepted: "valid_name name \<Longrightarrow> validate_name dbg name = Inr ()"
  by (simp add: validate_name_iff)

lemma name_tests_pass:
  assumes "plat = Windows \<or> fst (runtime_dir env f ''myapp'') = Inr dir"
  shows "service_name_validation plat env f"
proof -
  have "\<exists>ep. fst (for_service plat env f ''myapp'' ''metrics-v2'' :: (_ + nat endpoint) \<times> 'a) = Inr ep"
    using assms
    by (cases "runtime_dir env f ''myapp''")
      (auto simp: for_service_def valid_name_accepted [OF myapp_names(1)] valid_name_accepted [OF myapp_names(3)])
  moreover have "list_all (\<lambda>bad. invalid_name (for_service plat env f ''myapp'' bad :: (_ + nat endpoint) \<times> 'a))
     [[], ''a/b'', [CHR ''a'', CHR 0x5C, CHR ''b''], ''a b'', ''a.b'', ''a:b'', replicate 65 (CHR ''x'')]"
    by (rule list.pred_mono_strong [OF bad_names]) (rule bad_name_refused [OF myapp_names(1)])
  ultimately show ?thesis unfolding service_name_validation_def by blast
qed

lemma windows_convention_passes: "windows_convention_is_named_pipe env f"
  by (simp add: windows_convention_is_named_pipe_def for_service_def valid_name_accepted [OF myapp_names(1)]
      valid_name_accepted [OF myapp_names(2)] PIPE_PREFIX_def)

lemma path_join_ends:
  assumes "valid_name app"
  shows "path_join base app = app \<or> (\<exists>b. path_join base app = b @ CHR ''/'' # app)"
proof (cases base rule: rev_cases)
  case (snoc b c)
  then show ?thesis by (auto simp: path_join_name [OF assms])
qed (simp add: path_join_name [OF assms])

lemma unix_convention_passes:
  assumes "plat \<noteq> Windows" and "fst (runtime_dir env f ''myapp'') = Inr dir"
  shows "unix_convention_is_uds_in_runtime_dir plat env f"
proof -
  obtain ep f' where ep: "for_service plat env f ''myapp'' ''metrics'' = (Inr ep :: _ + nat endpoint, f')"
    using assms
    by (cases "runtime_dir env f ''myapp''")
      (auto simp: for_service_def valid_name_accepted [OF myapp_names(1)] valid_name_accepted [OF myapp_names(2)])
  then obtain base where base: "ep = UdsEndpoint (path_join base ''myapp'' @ CHR ''/'' # ''metrics'' @ ''.sock'')"
    using for_service_unix [OF assms(1)] service_path_eq [OF myapp_names(1,2)] by metis
  have "path_ends_with (path_join base ''myapp'' @ CHR ''/'' # ''metrics'' @ ''.sock'') (''myapp'' @ CHR ''/'' # ''metrics'' @ ''.sock'')"
    using path_join_ends [OF myapp_names(1), of base] unfolding path_ends_with_def suffix_def by force
  then show ?thesis
    unfolding unix_convention_is_uds_in_runtime_dir_def ep base by simp
qed

section \<open>Private directories\<close>

text \<open>What the tests do themselves: \<open>fs::metadata\<close>, \<open>set_permissions\<close>, \<open>symlink\<close> and the removals.\<close>

record 'f dir_tools =
  process_id :: nat
  fs_metadata :: "'f \<Rightarrow> string \<Rightarrow> io_error + dir_metadata"
  set_permissions :: "'f \<Rightarrow> string \<Rightarrow> u32 \<Rightarrow> (io_error + unit) \<times> 'f"
  symlink :: "'f \<Rightarrow> string \<Rightarrow> string \<Rightarrow> (io_error + unit) \<times> 'f"
  remove_dir_all :: "'f \<Rightarrow> string \<Rightarrow> (io_error + unit) \<times> 'f"
  remove_link :: "'f \<Rightarrow> string \<Rightarrow> (io_error + unit) \<times> 'f"

definition test_dir :: "'f dir_env \<Rightarrow> 'f dir_tools \<Rightarrow> string \<Rightarrow> string" where
  "test_dir env tools label = path_join (temp_dir env) (''ogurpchik-'' @ label @ ''-'' @ show_nat (process_id tools))"

definition scratch :: "'f dir_env \<Rightarrow> 'f dir_tools \<Rightarrow> 'f \<Rightarrow> string \<Rightarrow> string \<times> 'f" where
  "scratch env tools f label =
     (let dir = test_dir env tools label in (dir, snd (remove_dir_all tools f dir)))"

text \<open>\<open>expect\<close> and \<open>unwrap\<close>: the test goes on with the new state, or has failed.\<close>

definition expect :: "('e + 'x) \<times> 'f \<Rightarrow> ('x \<Rightarrow> 'f \<Rightarrow> bool) \<Rightarrow> bool" where
  "expect answer k = (case answer of (Inl _, f) \<Rightarrow> False | (Inr x, f) \<Rightarrow> k x f)"

definition no_directory :: "endpoint_error report + unit \<Rightarrow> bool" where
  "no_directory r = (case r of Inl r \<Rightarrow> context_of r = NoRuntimeDirectory | Inr _ \<Rightarrow> False)"

definition private_dir_is_created_closed_and_accepted_again :: "'f dir_env \<Rightarrow> 'f dir_tools \<Rightarrow> 'f \<Rightarrow> bool" where
  "private_dir_is_created_closed_and_accepted_again env tools f =
     (case scratch env tools f ''private'' of
        (dir, f) \<Rightarrow>
          let uid = getuid env in
          expect (private_dir env f dir uid) (\<lambda>_ f.
            (case fs_metadata tools f dir of Inl _ \<Rightarrow> False | Inr m \<Rightarrow> dm_mode m AND 63 = 0)
            \<and> expect (private_dir env f dir uid) (\<lambda>_ f.
                expect (remove_dir_all tools f dir) (\<lambda>_ f. True))))"

text \<open>\<open>fs::create_dir\<close> asks for the mode \<open>0o777\<close>, which is 511.\<close>

definition private_dir_refuses_what_others_can_enter :: "'f dir_env \<Rightarrow> 'f dir_tools \<Rightarrow> 'f \<Rightarrow> bool" where
  "private_dir_refuses_what_others_can_enter env tools f =
     (case scratch env tools f ''open'' of
        (dir, f) \<Rightarrow>
          expect (create_dir env f dir 511) (\<lambda>_ f.
          expect (set_permissions tools f dir 511) (\<lambda>_ f.
            let uid = getuid env in
            case private_dir env f dir uid of
              (r, f) \<Rightarrow>
                no_directory r
                \<and> (case private_dir env f dir (uid + 1) of
                     (r, f) \<Rightarrow> no_directory r \<and> expect (remove_dir_all tools f dir) (\<lambda>_ f. True)))))"

definition private_dir_refuses_a_symlink :: "'f dir_env \<Rightarrow> 'f dir_tools \<Rightarrow> 'f \<Rightarrow> bool" where
  "private_dir_refuses_a_symlink env tools f =
     (case scratch env tools f ''target'' of
        (target, f) \<Rightarrow>
          (case scratch env tools f ''link'' of
             (link, f) \<Rightarrow>
               expect (create_dir env f target 511) (\<lambda>_ f.
               expect (symlink tools f target link) (\<lambda>_ f.
                 let uid = getuid env in
                 case private_dir env f link uid of
                   (r, f) \<Rightarrow>
                     (\<exists>e. r = Inl e)
                     \<and> expect (remove_link tools f link) (\<lambda>_ f.
                         expect (remove_dir_all tools f target) (\<lambda>_ f. True))))))"

text \<open>
  What the calls do to the nodes \<open>node f\<close> of the file system, for the directories the tests make. The mode of a new directory has no bit that was not asked for; removing a
  directory may remove what is below it.
\<close>

locale posix_dirs =
  fixes env :: "'f dir_env" and tools :: "'f dir_tools" and node :: "'f \<Rightarrow> string \<Rightarrow> dir_metadata option"
  assumes inspect: "inspect_dir env f p = (case node f p of None \<Rightarrow> Inl io_error.NotFound | Some m \<Rightarrow> Inr m)"
    and metadata_dir: "node f p = Some m \<Longrightarrow> dm_is_dir m \<Longrightarrow> fs_metadata tools f p = Inr m"
    and create_existing: "node f p = Some m \<Longrightarrow> create_dir env f p perm = (Inl io_error.AlreadyExists, f)"
    and create_new: "p = test_dir env tools label \<Longrightarrow> CHR ''/'' \<notin> set label \<Longrightarrow> node f p = None
      \<Longrightarrow> \<exists>f' m. create_dir env f p perm = (Inr (), f') \<and> node f' = (node f)(p \<mapsto> m)
            \<and> dm_is_dir m \<and> dm_uid m = getuid env \<and> dm_mode m AND 511 AND NOT perm = 0"
    and permissions: "node f p = Some m \<Longrightarrow> dm_uid m = getuid env
      \<Longrightarrow> \<exists>f' mode. set_permissions tools f p perm = (Inr (), f') \<and> node f' = (node f)(p \<mapsto> m\<lparr>dm_mode := mode\<rparr>)
            \<and> mode AND 511 = perm AND 511"
    and link_new: "p = test_dir env tools label \<Longrightarrow> CHR ''/'' \<notin> set label \<Longrightarrow> node f p = None
      \<Longrightarrow> \<exists>f' m. symlink tools f target p = (Inr (), f') \<and> node f' = (node f)(p \<mapsto> m) \<and> \<not> dm_is_dir m"
    and link_removed: "node f p = Some m \<Longrightarrow> \<not> dm_is_dir m
      \<Longrightarrow> \<exists>f'. remove_link tools f p = (Inr (), f') \<and> node f' = (node f)(p := None)"
    and dir_removed: "p = test_dir env tools label \<Longrightarrow> CHR ''/'' \<notin> set label
      \<Longrightarrow> \<exists>r f'. remove_dir_all tools f p = (r, f') \<and> (node f p \<noteq> None \<longrightarrow> r = Inr ()) \<and> node f' p = None
            \<and> (\<forall>q. q \<noteq> p \<and> \<not> prefix (p @ ''/'') q \<longrightarrow> node f' q = node f q)"
begin

lemma scratch_clears:
  "CHR ''/'' \<notin> set label \<Longrightarrow> \<exists>f'. scratch env tools f label = (test_dir env tools label, f') \<and> node f' (test_dir env tools label) = None
     \<and> (\<forall>q. q \<noteq> test_dir env tools label \<and> \<not> prefix (test_dir env tools label @ ''/'') q \<longrightarrow> node f' q = node f q)"
  using dir_removed [OF refl, of label f] by (auto simp: scratch_def)

lemma removed_again: "CHR ''/'' \<notin> set label \<Longrightarrow> node f (test_dir env tools label) = Some m \<Longrightarrow> \<exists>f'. remove_dir_all tools f (test_dir env tools label) = (Inr (), f')"
  using dir_removed [OF refl, of label f] by auto

lemma private_accepted: "node f p = Some m \<Longrightarrow> private_to uid m \<Longrightarrow> private_dir env f p uid = (Inr (), f)"
  by (simp add: private_dir_def create_existing inspect_private_def inspect private_to_def)

lemma private_refused:
  "node f p = Some m \<Longrightarrow> \<not> private_to uid m \<Longrightarrow> \<exists>r. private_dir env f p uid = (Inl r, f) \<and> context_of r = NoRuntimeDirectory"
  by (auto simp: private_dir_def create_existing inspect_private_def inspect private_to_def refuse_dir_def)

lemma closed_mode:
  assumes "(m :: u32) AND 511 AND NOT 448 = 0"
  shows "m AND 63 = 0"
proof -
  have "m AND 63 = m AND 511 AND NOT 448" by (simp add: and.assoc)
  also have "\<dots> = 0" by (rule assms)
  finally show ?thesis .
qed

lemma labels: "CHR ''/'' \<notin> set ''private''" "CHR ''/'' \<notin> set ''open''" "CHR ''/'' \<notin> set ''target''" "CHR ''/'' \<notin> set ''link''"
  by simp_all

lemma created_closed_passes: "private_dir_is_created_closed_and_accepted_again env tools f"
proof -
  obtain f1 where f1: "scratch env tools f ''private'' = (test_dir env tools ''private'', f1)" "node f1 (test_dir env tools ''private'') = None"
    using scratch_clears [OF labels(1)] by blast
  obtain f2 m where f2: "create_dir env f1 (test_dir env tools ''private'') 448 = (Inr (), f2)" "node f2 (test_dir env tools ''private'') = Some m"
      "dm_is_dir m" "dm_uid m = getuid env" "dm_mode m AND 511 AND NOT 448 = 0"
    using create_new [OF refl labels(1) f1(2), of 448] by auto
  then have m: "private_to (getuid env) m" by (simp add: private_to_def closed_mode)
  then have "private_dir env f1 (test_dir env tools ''private'') (getuid env) = (Inr (), f2)"
    using f2 by (auto simp: private_dir_def inspect_private_def inspect private_to_def)
  then show ?thesis
    unfolding private_dir_is_created_closed_and_accepted_again_def f1(1)
    using removed_again [OF labels(1) f2(2)] private_accepted [OF f2(2) m] metadata_dir [OF f2(2,3)] m
    by (auto simp: expect_def private_to_def)
qed

lemma open_refused_passes: "private_dir_refuses_what_others_can_enter env tools f"
proof -
  obtain f1 where f1: "scratch env tools f ''open'' = (test_dir env tools ''open'', f1)" "node f1 (test_dir env tools ''open'') = None"
    using scratch_clears [OF labels(2)] by blast
  obtain f2 m where f2: "create_dir env f1 (test_dir env tools ''open'') 511 = (Inr (), f2)" "node f2 (test_dir env tools ''open'') = Some m"
      "dm_uid m = getuid env"
    using create_new [OF refl labels(2) f1(2), of 511] by auto
  obtain f3 mode where f3: "set_permissions tools f2 (test_dir env tools ''open'') 511 = (Inr (), f3)"
      "node f3 (test_dir env tools ''open'') = Some (m\<lparr>dm_mode := mode\<rparr>)" "mode AND 511 = 511"
    using permissions [OF f2(2,3), of 511] by auto
  have "mode AND 63 = (mode AND 511) AND 63" by (simp add: and.assoc)
  then have "mode AND 63 \<noteq> 0" unfolding f3(3) by simp
  then have "\<not> private_to uid (m\<lparr>dm_mode := mode\<rparr>)" for uid by (simp add: private_to_def)
  then obtain r r' where "private_dir env f3 (test_dir env tools ''open'') (getuid env) = (Inl r, f3)" "context_of r = NoRuntimeDirectory"
      "private_dir env f3 (test_dir env tools ''open'') (getuid env + 1) = (Inl r', f3)" "context_of r' = NoRuntimeDirectory"
    using private_refused [OF f3(2)] by blast
  then show ?thesis
    unfolding private_dir_refuses_what_others_can_enter_def f1(1)
    using f2(1) f3(1) removed_again [OF labels(2) f3(2)] by (auto simp: expect_def no_directory_def Let_def)
qed

lemma symlink_refused_passes: "private_dir_refuses_a_symlink env tools f"
proof -
  have apart: "test_dir env tools ''target'' \<noteq> test_dir env tools ''link''" "\<not> prefix (test_dir env tools ''link'' @ ''/'') (test_dir env tools ''target'')"
    by (simp_all add: test_dir_def path_join_def)
  obtain f1 where f1: "scratch env tools f ''target'' = (test_dir env tools ''target'', f1)" "node f1 (test_dir env tools ''target'') = None"
    using scratch_clears [OF labels(3)] by blast
  obtain f2 where f2: "scratch env tools f1 ''link'' = (test_dir env tools ''link'', f2)" "node f2 (test_dir env tools ''link'') = None"
      "node f2 (test_dir env tools ''target'') = None"
    using scratch_clears [OF labels(4), of f1] apart f1(2) by auto
  obtain f3 m where f3: "create_dir env f2 (test_dir env tools ''target'') 511 = (Inr (), f3)" "node f3 = (node f2)(test_dir env tools ''target'' \<mapsto> m)"
    using create_new [OF refl labels(3) f2(3), of 511] by auto
  then have "node f3 (test_dir env tools ''link'') = None" using f2(2) apart(1) by simp
  from link_new [OF refl labels(4) this, of "test_dir env tools ''target''"] obtain f4 l where
    f4: "symlink tools f3 (test_dir env tools ''target'') (test_dir env tools ''link'') = (Inr (), f4)" "node f4 = (node f3)(test_dir env tools ''link'' \<mapsto> l)" "\<not> dm_is_dir l"
    by auto
  then have l: "node f4 (test_dir env tools ''link'') = Some l" "\<not> private_to (getuid env) l" by (simp_all add: private_to_def)
  obtain r where r: "private_dir env f4 (test_dir env tools ''link'') (getuid env) = (Inl r, f4)"
    using private_refused [OF l] by blast
  obtain f5 where f5: "remove_link tools f4 (test_dir env tools ''link'') = (Inr (), f5)" "node f5 = (node f4)(test_dir env tools ''link'' := None)"
    using link_removed [OF l(1) f4(3)] by blast
  have "node f5 (test_dir env tools ''target'') = Some m" using f5(2) f4(2) f3(2) apart(1) by simp
  then obtain f6 where f6: "remove_dir_all tools f5 (test_dir env tools ''target'') = (Inr (), f6)"
    using removed_again [OF labels(3)] by blast
  show ?thesis
    unfolding private_dir_refuses_a_symlink_def expect_def Let_def f1(1) prod.case f2(1) f3(1) sum.case f4(1) r f5(1) f6
    by blast
qed

end

text \<open>Directories as a map; the user is 7 and the temporary directory \<open>/tmp\<close>.\<close>

definition map_dirs :: "(string \<Rightarrow> dir_metadata option) dir_env" where
  "map_dirs =
     \<lparr>xdg_runtime_dir = None, path_is_dir = (\<lambda>f p. False), getuid = 7, temp_dir = ''/tmp'',
      create_dir = (\<lambda>f p perm. if f p = None then (Inr (), f(p \<mapsto> \<lparr>dm_is_dir = True, dm_uid = 7, dm_mode = perm\<rparr>))
                               else (Inl io_error.AlreadyExists, f)),
      inspect_dir = (\<lambda>f p. case f p of None \<Rightarrow> Inl io_error.NotFound | Some m \<Rightarrow> Inr m),
      create_dir_all = (\<lambda>f p. (Inr (), f)), io_error_text = (\<lambda>e. []), str_debug = (\<lambda>s. s)\<rparr>"

definition map_tools :: "(string \<Rightarrow> dir_metadata option) dir_tools" where
  "map_tools =
     \<lparr>process_id = 42, fs_metadata = inspect_dir map_dirs,
      set_permissions = (\<lambda>f p perm. case f p of None \<Rightarrow> (Inl io_error.NotFound, f) | Some m \<Rightarrow> (Inr (), f(p \<mapsto> m\<lparr>dm_mode := perm\<rparr>))),
      symlink = (\<lambda>f target p. (Inr (), f(p \<mapsto> \<lparr>dm_is_dir = False, dm_uid = 7, dm_mode = 511\<rparr>))),
      remove_dir_all = (\<lambda>f p. (if f p = None then Inl io_error.NotFound else Inr (), f(p := None))),
      remove_link = (\<lambda>f p. (Inr (), f(p := None)))\<rparr>"

lemma map_calls:
  "create_dir map_dirs f p perm =
     (if f p = None then (Inr (), f(p \<mapsto> \<lparr>dm_is_dir = True, dm_uid = getuid map_dirs, dm_mode = perm\<rparr>)) else (Inl io_error.AlreadyExists, f))"
  "inspect_dir map_dirs f p = (case f p of None \<Rightarrow> Inl io_error.NotFound | Some m \<Rightarrow> Inr m)"
  "fs_metadata map_tools f p = inspect_dir map_dirs f p"
  "set_permissions map_tools f p perm =
     (case f p of None \<Rightarrow> (Inl io_error.NotFound, f) | Some m \<Rightarrow> (Inr (), f(p \<mapsto> m\<lparr>dm_mode := perm\<rparr>)))"
  "symlink map_tools f target p = (Inr (), f(p \<mapsto> \<lparr>dm_is_dir = False, dm_uid = 7, dm_mode = 511\<rparr>))"
  "remove_dir_all map_tools f p = (if f p = None then Inl io_error.NotFound else Inr (), f(p := None))"
  "remove_link map_tools f p = (Inr (), f(p := None))"
  by (simp_all add: map_dirs_def map_tools_def)

lemma mode_subset: "(perm AND 511) AND NOT perm = (0 :: u32)"
proof -
  have "(perm AND 511) AND NOT perm = (perm AND NOT perm) AND 511" by (simp only: and.assoc and.commute and.left_commute)
  then show ?thesis by simp
qed

interpretation map_posix: posix_dirs map_dirs map_tools "\<lambda>f. f"
proof
  show "\<exists>f' m. create_dir map_dirs f p perm = (Inr (), f') \<and> f' = f(p \<mapsto> m)
      \<and> dm_is_dir m \<and> dm_uid m = getuid map_dirs \<and> dm_mode m AND 511 AND NOT perm = 0"
    if "f p = None" for f p perm
    using that mode_subset [of perm]
    by (intro exI [of _ "f(p \<mapsto> \<lparr>dm_is_dir = True, dm_uid = getuid map_dirs, dm_mode = perm\<rparr>)"]
        exI [of _ "\<lparr>dm_is_dir = True, dm_uid = getuid map_dirs, dm_mode = perm\<rparr>"])
      (simp add: map_calls and.assoc)
  show "\<exists>f' mode. set_permissions map_tools f p perm = (Inr (), f') \<and> f' = f(p \<mapsto> m\<lparr>dm_mode := mode\<rparr>)
      \<and> mode AND 511 = perm AND 511" if "f p = Some m" for f p m perm
    using that by (intro exI [of _ "f(p \<mapsto> m\<lparr>dm_mode := perm\<rparr>)"] exI [of _ perm]) (simp add: map_calls)
  show "\<exists>f' m. symlink map_tools f target p = (Inr (), f') \<and> f' = f(p \<mapsto> m) \<and> \<not> dm_is_dir m" for f p target
    by (simp add: map_calls exI [of _ "\<lparr>dm_is_dir = False, dm_uid = 7, dm_mode = 511\<rparr>"])
  show "\<exists>f'. remove_link map_tools f p = (Inr (), f') \<and> f' = f(p := None)" for f p by (simp add: map_calls)
  show "\<exists>r f'. remove_dir_all map_tools f p = (r, f') \<and> (f p \<noteq> None \<longrightarrow> r = Inr ()) \<and> f' p = None
      \<and> (\<forall>q. q \<noteq> p \<and> \<not> prefix (p @ ''/'') q \<longrightarrow> f' q = f q)" for f p
    unfolding map_calls by (intro exI conjI, rule refl) simp_all
  show "inspect_dir map_dirs f p = (case f p of None \<Rightarrow> Inl io_error.NotFound | Some m \<Rightarrow> Inr m)" for f p
    by (rule map_calls)
  show "fs_metadata map_tools f p = Inr m" if "f p = Some m" for f p m
    unfolding map_calls that by simp
  show "create_dir map_dirs f p perm = (Inl io_error.AlreadyExists, f)" if "f p = Some m" for f p m perm
    unfolding map_calls that by simp
qed

section \<open>Waiting for a service\<close>

text \<open>Nothing answers: every attempt is cut off.\<close>

definition connect_ready_keeps_to_its_budget_when_an_attempt_hangs :: "'c attempts \<Rightarrow> string \<Rightarrow> bool" where
  "connect_ready_keeps_to_its_budget_when_an_attempt_hangs env shown =
     (case connect_ready env shown 1500000000 of
        None \<Rightarrow> False
      | Some (result, elapsed, _) \<Rightarrow> (\<exists>e. result = Inl e) \<and> elapsed < 2500000000)"

definition connect_ready_succeeds_once_service_appears :: "'c attempts \<Rightarrow> string \<Rightarrow> bool" where
  "connect_ready_succeeds_once_service_appears env shown =
     (case connect_ready env shown 5000000000 of None \<Rightarrow> False | Some (result, _) \<Rightarrow> (\<exists>conn. result = Inr conn))"

lemma budget_passes:
  assumes "\<And>i limit. fst (attempt env i limit) = None" and "prompt d env" and "2 * d < 1000000000"
  shows "connect_ready_keeps_to_its_budget_when_an_attempt_hangs env shown"
proof -
  obtain r t n where run: "connect_ready env shown 1500000000 = Some (r, t, n)" "ready_result env 0 n r"
      "t \<le> 1500000000 + 2 * d"
    using ready_loop_returns [of FIRST_DELAY env 0 1500000000 shown 0] assms(2) by (auto simp: connect_ready_def)
  then have "\<exists>e. r = Inl e" using assms(1) by (cases r) (auto simp: ready_result_def)
  then show ?thesis
    using run assms(3) by (simp add: connect_ready_keeps_to_its_budget_when_an_attempt_hangs_def)
qed

text \<open>
  The service listens from 200 ms on, so the fourth attempt, which starts no earlier than after the
  pauses of 50, 100 and 200 ms, meets it; those before it succeed or are refused within 100 ms.
\<close>

lemma ready_loop_retry:
  assumes "attempt env i (min (give_up - now) CONNECT_ATTEMPT_LIMIT) = (Some (Inl r), took)" and "now + took + delay < give_up"
  shows "ready_loop env shown give_up now delay i =
    ready_loop env shown give_up (now + took + delay + oversleep env i) (min (delay * 2) MAX_DELAY) (i + 1)"
  using assms by (subst ready_loop.simps) (simp add: Let_def)

lemma ready_loop_done:
  assumes "attempt env i (min (give_up - now) CONNECT_ATTEMPT_LIMIT) = (Some (Inr conn), took)"
  shows "ready_loop env shown give_up now delay i = Some (Inr conn, now + took, i + 1)"
  using assms by (subst ready_loop.simps) (simp add: Let_def)

lemma appears_passes:
  assumes quick: "\<And>i limit. i < 3 \<Longrightarrow> (\<exists>conn took. attempt env i limit = (Some (Inr conn), took))
      \<or> (\<exists>r took. attempt env i limit = (Some (Inl r), took) \<and> took \<le> 100000000)"
    and served: "\<And>limit. \<exists>conn took. attempt env 3 limit = (Some (Inr conn), took)"
    and slept: "\<And>i. oversleep env i \<le> 100000000"
  shows "connect_ready_succeeds_once_service_appears env shown"
proof -
  have "\<exists>conn t n. ready_loop env shown 5000000000 now delay i = Some (Inr conn, t, n)"
    if "i \<le> 3" "now \<le> 400000000 * i" "delay \<le> 50000000 * 2 ^ i" for now delay i
    using that
  proof (induction "3 - i" arbitrary: now delay i rule: less_induct)
    case less
    let ?limit = "min (5000000000 - now) CONNECT_ATTEMPT_LIMIT"
    consider (up) conn took where "attempt env i ?limit = (Some (Inr conn), took)"
      | (down) r took where "i < 3" "attempt env i ?limit = (Some (Inl r), took)" "took \<le> 100000000"
      using quick [of i ?limit] served [of ?limit] less.prems(1) by (cases "i = 3") auto
    then show ?case
    proof cases
      case up
      then show ?thesis by (intro exI) (rule ready_loop_done)
    next
      case down
      then have "2 ^ i \<le> (2 :: nat) ^ 2" by (intro power_increasing) simp_all
      then have "delay \<le> 200000000" using less.prems(3) by simp
      then have "ready_loop env shown 5000000000 now delay i =
          ready_loop env shown 5000000000 (now + took + delay + oversleep env i) (min (delay * 2) MAX_DELAY) (i + 1)"
        using down less.prems(2) by (intro ready_loop_retry) simp_all
      moreover have "now + took + delay + oversleep env i \<le> 400000000 * (i + 1)"
        using down(3) \<open>delay \<le> 200000000\<close> slept [of i] less.prems(2) by simp
      moreover have "min (delay * 2) MAX_DELAY \<le> 50000000 * 2 ^ (i + 1)" using less.prems(3) by simp
      ultimately show ?thesis using less.hyps [of "i + 1"] down(1) by simp
    qed
  qed
  from this [of 0 0 FIRST_DELAY] show ?thesis
    by (auto simp: connect_ready_succeeds_once_service_appears_def connect_ready_def FIRST_DELAY_def)
qed

end
