(* ===== verification/Handshake_Tests.thy ===== *)
theory Handshake_Tests
  imports Error_Tests Handshake_Duplex
begin

text \<open>
  The unit tests of \<open>src/src/auth/handshake.rs\<close>. The two sides of a test are joined by a connection as in
  \<open>Duplex\<close>, so a test that passes here passes under every interleaving of its tasks. A test may have as
  one side a script that is not a handshake of this version.
\<close>

section \<open>The tests\<close>

definition SCHEMA :: protocol where
  "SCHEMA = protocol_new 0x5eed 1 0 0"

definition debug_output_does_not_carry_the_secret :: bool where
  "debug_output_does_not_carry_the_secret =
     (let shown = handshake_mode_debug (mode_hmac (as_bytes ''hunter2-hunter2''))
      in \<not> contains shown ''104'' \<and> \<not> contains shown ''hunter2'' \<and> contains shown ''15 bytes'')"

text \<open>What the tasks of the two sides return, with the context of a report.\<close>

definition both_end :: "sys \<Rightarrow> sys \<Rightarrow> (hs_report + 'a) io \<Rightarrow> (hs_report + 'b) io
    \<Rightarrow> (handshake_error + 'a \<Rightarrow> bool) \<Rightarrow> (handshake_error + 'b \<Rightarrow> bool) \<Rightarrow> bool" where
  "both_end sl sr server client server_result client_result \<longleftrightarrow>
     (\<exists>rs rc. ends_with sl sr (server, client, [], []) rs rc
        \<and> server_result (map_sum context_of id rs) \<and> client_result (map_sum context_of id rc))"

abbreviation ok :: "'e + 'a \<Rightarrow> bool" where
  "ok r \<equiv> (\<exists>a. r = Inr a)"

definition hmac_handshake_ok :: "('k, 'g, 's) hs_env \<Rightarrow> sys \<Rightarrow> sys \<Rightarrow> 's \<Rightarrow> bool" where
  "hmac_handshake_ok env sl sr s =
     both_end sl sr
       (authenticate_server env (Tcp s) (mode_hmac (as_bytes ''shared-secret'')) SCHEMA)
       (authenticate_client env (mode_hmac (as_bytes ''shared-secret'')) SCHEMA) ok ok"

definition hmac_wrong_secret_is_rejected :: "('k, 'g, 's) hs_env \<Rightarrow> sys \<Rightarrow> sys \<Rightarrow> 's \<Rightarrow> bool" where
  "hmac_wrong_secret_is_rejected env sl sr s =
     both_end sl sr
       (authenticate_server env (Tcp s) (mode_hmac (as_bytes ''right'')) SCHEMA)
       (authenticate_client env (mode_hmac (as_bytes ''wrong'')) SCHEMA)
       (\<lambda>r. r = Inl InvalidProof) (\<lambda>r. r = Inl Rejected)"

definition scheme_mismatch_is_detected_by_client :: "('k, 'g, 's) hs_env \<Rightarrow> sys \<Rightarrow> sys \<Rightarrow> 's \<Rightarrow> bool" where
  "scheme_mismatch_is_detected_by_client env sl sr s =
     both_end sl sr
       (authenticate_server env (Tcp s) (mode_hmac (as_bytes ''s'')) SCHEMA)
       (authenticate_client env mode_version_only SCHEMA)
       (\<lambda>_. True) (\<lambda>r. r = Inl SchemeMismatch)"

definition signed_process_refused_on_unattestable_transport :: "('k, 'g, 's) hs_env \<Rightarrow> 's \<Rightarrow> bool" where
  "signed_process_refused_on_unattestable_transport env s =
     (case authenticate_server env (Tcp s) (mode_signed_process (replicate 32 0)) SCHEMA of
        Ret (Inl err) \<Rightarrow> context_of err = PeerAttestationUnavailable
      | _ \<Rightarrow> False)"

definition handshake_between :: "('k, 'g, 's) hs_env \<Rightarrow> sys \<Rightarrow> sys \<Rightarrow> 's \<Rightarrow> protocol \<Rightarrow> protocol
    \<Rightarrow> (handshake_error + version option \<Rightarrow> bool) \<Rightarrow> (handshake_error + version option \<Rightarrow> bool) \<Rightarrow> bool" where
  "handshake_between env sl sr s server_protocol client_protocol =
     both_end sl sr
       (authenticate_server env (Tcp s) mode_version_only server_protocol)
       (authenticate_client env mode_version_only client_protocol)"

definition a_different_protocol_is_refused_by_both_sides :: "('k, 'g, 's) hs_env \<Rightarrow> sys \<Rightarrow> sys \<Rightarrow> 's \<Rightarrow> bool" where
  "a_different_protocol_is_refused_by_both_sides env sl sr s =
     handshake_between env sl sr s (protocol_new 1 1 0 0) (protocol_new 2 1 0 0)
       (\<lambda>r. r = Inl ProtocolMismatch) (\<lambda>r. r = Inl ProtocolMismatch)"

definition a_different_major_is_refused_by_both_sides :: "('k, 'g, 's) hs_env \<Rightarrow> sys \<Rightarrow> sys \<Rightarrow> 's \<Rightarrow> bool" where
  "a_different_major_is_refused_by_both_sides env sl sr s =
     handshake_between env sl sr s (protocol_new 7 2 0 0) (protocol_new 7 1 9 0)
       (\<lambda>r. r = Inl IncompatibleVersion) (\<lambda>r. r = Inl IncompatibleVersion)"

definition a_different_minor_connects_and_each_side_learns_the_other ::
  "('k, 'g, 's) hs_env \<Rightarrow> sys \<Rightarrow> sys \<Rightarrow> 's \<Rightarrow> bool" where
  "a_different_minor_connects_and_each_side_learns_the_other env sl sr s =
     (let server_protocol = protocol_new 7 1 3 1; client_protocol = protocol_new 7 1 0 4 in
      handshake_between env sl sr s server_protocol client_protocol
        (\<lambda>r. r = Inr (Some (proto_version client_protocol))) (\<lambda>r. r = Inr (Some (proto_version server_protocol))))"

definition major_zero_is_not_special :: "('k, 'g, 's) hs_env \<Rightarrow> sys \<Rightarrow> sys \<Rightarrow> 's \<Rightarrow> bool" where
  "major_zero_is_not_special env sl sr s =
     handshake_between env sl sr s (protocol_new 7 0 1 0) (protocol_new 7 0 2 0) ok ok"

definition the_protocol_travels_intact :: bool where
  "the_protocol_travels_intact =
     (let protocol = protocol_new 0xfd5a69cd561508f1 3 14 15 in
      (case decode_hello (encode_hello 1 protocol (replicate NONCE_LEN 9)) of
         Inr (_, decoded, _) \<Rightarrow> decoded = protocol | Inl _ \<Rightarrow> False)
      \<and> (case decode_client_auth (encode_client_auth 1 protocol []) of
           Inr (_, decoded, _) \<Rightarrow> decoded = protocol | Inl _ \<Rightarrow> False))"

definition v1_packet :: "u8 \<Rightarrow> u8 \<Rightarrow> bytes \<Rightarrow> bytes" where
  "v1_packet tag scheme tail =
     [tag] @ to_le 2 (1 :: u16) @ [scheme] @ to_le 2 (word_of_nat (length tail) :: u16) @ tail"

definition older_server_is_reported_as_version_not_malformed :: "('k, 'g, 's) hs_env \<Rightarrow> sys \<Rightarrow> sys \<Rightarrow> bool" where
  "older_server_is_reported_as_version_not_malformed env sl sr =
     both_end sl sr
       (write_packet (v1_packet TAG_HELLO 0 (replicate NONCE_LEN 0)))
       (authenticate_client env mode_version_only SCHEMA)
       ok (\<lambda>r. r = Inl UnsupportedVersion)"

definition older_client_is_reported_as_version_not_malformed :: "('k, 'g, 's) hs_env \<Rightarrow> sys \<Rightarrow> sys \<Rightarrow> 's \<Rightarrow> bool" where
  "older_client_is_reported_as_version_not_malformed env sl sr s =
     both_end sl sr
       (authenticate_server env (Tcp s) mode_version_only SCHEMA)
       (bind_ok read_packet_with_timeout (\<lambda>hello. write_packet (v1_packet TAG_CLIENT_AUTH 0 [])))
       (\<lambda>r. r = Inl UnsupportedVersion) ok"

text \<open>A client that claims a pid in its proof; \<open>expect\<close> and \<open>unwrap\<close> are the ends with an error.\<close>

definition forge_auth :: "bytes \<Rightarrow> (hs_report + unit) io" where
  "forge_auth hello_body =
     (case decode_hello hello_body of
        Inl e \<Rightarrow> Ret (Inl e)
      | Inr (scheme, _, _) \<Rightarrow>
          bind_ok (write_packet (encode_client_auth scheme SCHEMA (to_le 4 (0xDEAD :: u32)))) (\<lambda>_.
          bind_ok read_packet_with_timeout (\<lambda>ack_body. Ret (decode_ack ack_body))))"

definition forging_client :: "(hs_report + unit) io" where
  "forging_client = bind_ok read_packet_with_timeout forge_auth"

definition signed_process_uses_os_pid_not_wire_pid ::
  "('k, 'g, 's) hs_env \<Rightarrow> sys \<Rightarrow> sys \<Rightarrow> 's conn \<Rightarrow> bytes \<Rightarrow> bool" where
  "signed_process_uses_os_pid_not_wire_pid env sl sr server pk \<longleftrightarrow>
     both_end sl sr
       (authenticate_server env server (mode_signed_process pk) SCHEMA)
       (authenticate_client env (mode_signed_process pk) SCHEMA) ok ok
     \<and> both_end sl sr
       (authenticate_server env server (mode_signed_process pk) SCHEMA) forging_client ok ok"

section \<open>They pass\<close>

lemma pure_handshake_tests_pass: "debug_output_does_not_carry_the_secret" "the_protocol_travels_intact"
proof -
  show "debug_output_does_not_carry_the_secret" by code_simp
  show "the_protocol_travels_intact" by code_simp
qed

lemma both_endI:
  "ends_with sl sr (server, client, [], []) rs rc \<Longrightarrow> server_result (map_sum context_of id rs)
     \<Longrightarrow> client_result (map_sum context_of id rc) \<Longrightarrow> both_end sl sr server client server_result client_result"
  unfolding both_end_def by blast

text \<open>Two processes, the first with a source of randomness that works.\<close>

locale handshake_pair = hmac_laws env for env :: "('k, 'g, 's) hs_env" +
  fixes sl sr :: sys and nonce :: bytes
  assumes random: "sys_random sl NONCE_LEN = Inr nonce" and fresh: "length nonce = NONCE_LEN"
begin

lemma no_attestation:
  "attestation_passes env sl c (mode_hmac key)" "attestation_passes env sl c mode_version_only"
  "attested_pid env c (mode_hmac key) = Inr None" "attested_pid env c mode_version_only = Inr None"
  by (simp_all add: attestation_passes_def attested_pid_def mode_hmac_def mode_version_only_def)

lemma usable_modes:
  "mode_hmac key \<noteq> Disabled" "mode_version_only \<noteq> Disabled" "mode_signed_process k \<noteq> Disabled"
  by (simp_all add: mode_hmac_def mode_version_only_def mode_signed_process_def)

lemma same_protocol [simp]: "compatible p p"
  by (simp add: compatible_def)

lemma agreeing_tests_pass:
  "hmac_handshake_ok env sl sr s"
  "a_different_minor_connects_and_each_side_learns_the_other env sl sr s"
  "major_zero_is_not_special env sl sr s"
proof -
  note ends = honest_sides_succeed [OF hmac_laws_axioms _ _ random fresh]
  show "hmac_handshake_ok env sl sr s"
    unfolding hmac_handshake_ok_def
    by (rule both_endI, rule ends [OF usable_modes(1) no_attestation(1)]) simp_all
  show "a_different_minor_connects_and_each_side_learns_the_other env sl sr s"
    unfolding a_different_minor_connects_and_each_side_learns_the_other_def handshake_between_def Let_def
    by (rule both_endI, rule ends [OF usable_modes(2) no_attestation(2)]) (simp_all add: compatible_def protocol_new_def)
  show "major_zero_is_not_special env sl sr s"
    unfolding major_zero_is_not_special_def handshake_between_def
    by (rule both_endI, rule ends [OF usable_modes(2) no_attestation(2)]) (simp_all add: compatible_def protocol_new_def)
qed

lemma other_protocol_fails:
  assumes "incompatibility sp cp = Some (e, why)"
  shows "handshake_between env sl sr s sp cp (\<lambda>r. r = Inl e) (\<lambda>r. r = Inl e)"
proof -
  obtain why' where "ends_with sl sr
      (authenticate_server env (Tcp s) mode_version_only sp, authenticate_client env mode_version_only cp, [], [])
      (Inl (Report e [Text why])) (Inl (Report e [Text why']))"
    using incompatible_sides_fail [OF hmac_laws_axioms usable_modes(2) usable_modes(2) refl no_attestation(4) random fresh assms]
    by blast
  then show ?thesis unfolding handshake_between_def by (rule both_endI) simp_all
qed

lemma disagreeing_tests_pass:
  "a_different_protocol_is_refused_by_both_sides env sl sr s"
  "a_different_major_is_refused_by_both_sides env sl sr s"
  unfolding a_different_protocol_is_refused_by_both_sides_def a_different_major_is_refused_by_both_sides_def
  by (rule other_protocol_fails, simp add: incompatibility_def protocol_new_def)+

lemma scheme_mismatch_passes: "scheme_mismatch_is_detected_by_client env sl sr s"
proof -
  have "scheme_id (mode_hmac key) \<noteq> scheme_id mode_version_only" for key
    by (simp add: mode_hmac_def mode_version_only_def)
  from handshake_scheme_mismatch [OF usable_modes(1,2) this no_attestation(3) random fresh] show ?thesis
    unfolding scheme_mismatch_is_detected_by_client_def by (rule both_endI) simp_all
qed

text \<open>Two secrets whose codes for the nonce are different.\<close>

lemma wrong_secret_passes:
  assumes "hmac_sha256 env (as_bytes ''wrong'') (HMAC_LABEL @ to_le 2 HANDSHAKE_VERSION @ nonce)
    \<noteq> hmac_sha256 env (as_bytes ''right'') (HMAC_LABEL @ to_le 2 HANDSHAKE_VERSION @ nonce)"
  shows "hmac_wrong_secret_is_rejected env sl sr s"
  using wrong_secret_fails [OF hmac_laws_axioms random fresh same_protocol assms]
  unfolding hmac_wrong_secret_is_rejected_def mode_hmac_def by (rule both_endI) simp_all

lemma unattestable_passes: "signed_process_refused_on_unattestable_transport env s"
  by (cases "cfg_platform env")
    (simp_all add: signed_process_refused_on_unattestable_transport_def authenticate_server_def mode_signed_process_def attested_pid_def)

lemma older_server_passes: "older_server_is_reported_as_version_not_malformed env sl sr"
proof -
  let ?hello = "v1_packet TAG_HELLO 0 (replicate NONCE_LEN 0)"
  let ?refusal = "Report UnsupportedVersion [Text (''server='' @ show_nat 1 @ '' client='' @ show_nat 3)]"
  have "step sl sr (write_packet ?hello, q, [], []) (Ret (Inr ()), q, [], [] @ frame_packet ?hello)" for q :: "(hs_report + version option) io"
    by (rule left_step) (simp add: write_packet_def)
  note sent = this [unfolded append_Nil]
  have "length ?hello \<le> 4096" by (simp add: v1_packet_def NONCE_LEN_def)
  moreover have "packet_version ?hello = Some 1" "?hello \<noteq> [] \<and> hd ?hello \<noteq> TAG_ACK" by code_simp+
  ultimately have "(step sl sr)\<^sup>*\<^sup>* (Ret (Inr ()) :: (hs_report + unit) io, authenticate_client env mode_version_only SCHEMA, [], frame_packet ?hello)
      (Ret (Inr ()), Ret (Inl ?refusal), [], [])"
    using client_reads_first [OF usable_modes(2), of ?hello sl sr "Ret (Inr ())" env SCHEMA "[]"]
    by (simp add: answer_hello_def foreign_version_def HANDSHAKE_VERSION_def)
  note ends_withI [OF converse_rtranclp_into_rtranclp [OF sent this]]
  then show ?thesis
    unfolding older_server_is_reported_as_version_not_malformed_def by (rule both_endI) simp_all
qed

lemma older_client_passes: "older_client_is_reported_as_version_not_malformed env sl sr s"
proof -
  let ?auth = "v1_packet TAG_CLIENT_AUTH 0 []"
  let ?judge = "judge_client env mode_version_only SCHEMA None nonce"
  let ?waiting = "bind_ok read_packet_with_timeout ?judge"
  let ?hello = "encode_hello (scheme_id mode_version_only) SCHEMA nonce"
  obtain reason where reason: "?judge ?auth = refuse (as_bytes reason) (Report UnsupportedVersion [Text reason])"
  proof -
    have "packet_version ?auth = Some 1" by code_simp
    then show ?thesis using that by (auto simp: judge_client_def foreign_version_def HANDSHAKE_VERSION_def Let_def)
  qed
  have "(step sl sr)\<^sup>*\<^sup>* (?waiting, bind_ok read_packet_with_timeout (\<lambda>hello. write_packet ?auth), [], frame_packet ?hello)
      (?waiting, write_packet ?auth, [], [])"
    using right_read [of ?hello sl sr ?waiting "\<lambda>hello. write_packet ?auth" "[]" "[]"] fresh by (simp add: NONCE_LEN_def)
  also have "step sl sr \<dots> (?waiting, Ret (Inr ()), [] @ frame_packet ?auth, [])"
    by (rule right_step) (simp add: write_packet_def)
  also have "(step sl sr)\<^sup>*\<^sup>* \<dots> (?judge ?auth, Ret (Inr ()), [], [])"
    using left_read [of ?auth sl sr ?judge "Ret (Inr ())" "[]" "[]"] by (simp add: v1_packet_def)
  also note reason
  also note left_refuse
  finally have "(step sl sr)\<^sup>*\<^sup>* (?waiting, bind_ok read_packet_with_timeout (\<lambda>hello. write_packet ?auth), [], frame_packet ?hello)
      (Ret (Inl (Report UnsupportedVersion [Text reason])), Ret (Inr ()), [], [] @ frame_packet (encode_ack ACK_REJECTED (as_bytes reason)))" .
  note ends_withI [OF rtranclp_trans [OF server_says_hello [OF usable_modes(2) no_attestation(4) random] this]]
  then show ?thesis
    unfolding older_client_is_reported_as_version_not_malformed_def by (rule both_endI) simp_all
qed

lemma forged_pid_passes:
  assumes "attestation_passes env sl c (mode_signed_process pk)"
  shows "signed_process_uses_os_pid_not_wire_pid env sl sr c pk"
proof -
  let ?mode = "mode_signed_process pk" and ?forged = "to_le 4 (0xDEAD :: u32)"
  obtain attested where att: "attested_pid env c ?mode = Inr attested" using attestation_pid [OF assms] by blast
  let ?judge = "judge_client env ?mode SCHEMA attested nonce"
  let ?waiting = "bind_ok read_packet_with_timeout ?judge"
  let ?hello = "encode_hello (scheme_id ?mode) SCHEMA nonce" and ?auth = "encode_client_auth (scheme_id ?mode) SCHEMA ?forged"
  let ?await = "bind_ok read_packet_with_timeout (\<lambda>ack_body. Ret (decode_ack ack_body))"
  let ?accept = "bind_ok (write_packet (encode_ack ACK_OK [])) (\<lambda>_. Ret (Inr (Some (proto_version SCHEMA))))"
  have "decode_hello ?hello = Inr (scheme_id ?mode, SCHEMA, nonce)"
    using fresh current_hello by (simp add: NONCE_LEN_def)
  then have "(step sl sr)\<^sup>*\<^sup>* (?waiting, forging_client, [], frame_packet ?hello) (?waiting, bind_ok (write_packet ?auth) (\<lambda>_. ?await), [], [])"
    using right_read [of ?hello sl sr ?waiting forge_auth "[]" "[]"] fresh
    by (simp add: NONCE_LEN_def forging_client_def forge_auth_def)
  also have "step sl sr \<dots> (?waiting, ?await, [] @ frame_packet ?auth, [])" by (rule right_write)
  also have "(step sl sr)\<^sup>*\<^sup>* \<dots> (?judge ?auth, ?await, [], [])"
    using left_read [of ?auth sl sr ?judge ?await "[]" "[]"] by simp
  also have "?judge ?auth = bind_ok (check_proof env ?mode attested nonce (client_proof env ?mode nonce)) (\<lambda>_. ?accept)"
  proof -
    have "incompatibility SCHEMA SCHEMA = None" by simp
    then show ?thesis
      using judge_current_client [of ?forged env ?mode SCHEMA attested nonce SCHEMA]
      by (simp add: check_proof_def mode_signed_process_def del: incompatibility_None)
  qed
  also have "(step sl sr)\<^sup>*\<^sup>* (bind_ok (check_proof env ?mode attested nonce (client_proof env ?mode nonce)) (\<lambda>_. ?accept), ?await, [], [])
      (?accept, ?await, [], [])"
    by (rule proof_check_passes [OF hmac_laws_axioms assms att])
  also have "step sl sr \<dots> (Ret (Inr (Some (proto_version SCHEMA))), ?await, [], [] @ frame_packet (encode_ack ACK_OK []))"
    by (rule left_write)
  also have "(step sl sr)\<^sup>*\<^sup>* \<dots> (Ret (Inr (Some (proto_version SCHEMA))), Ret (Inr ()), [], [])"
    using right_read [of "encode_ack ACK_OK []" sl sr _ "\<lambda>ack_body. Ret (decode_ack ack_body)" "[]" "[]"]
    by (simp add: decode_any_ack)
  finally have "(step sl sr)\<^sup>*\<^sup>* (?waiting, forging_client, [], frame_packet ?hello)
      (Ret (Inr (Some (proto_version SCHEMA))), Ret (Inr ()), [], [])" .
  note forged = ends_withI [OF rtranclp_trans [OF server_says_hello [OF usable_modes(3) att random] this]]
  show ?thesis
    unfolding signed_process_uses_os_pid_not_wire_pid_def
  proof
    show "both_end sl sr (authenticate_server env c ?mode SCHEMA) forging_client ok ok"
      by (rule both_endI [OF forged]) simp_all
    show "both_end sl sr (authenticate_server env c ?mode SCHEMA) (authenticate_client env ?mode SCHEMA) ok ok"
      by (rule both_endI [OF honest_sides_succeed [OF hmac_laws_axioms usable_modes(3) assms random fresh same_protocol]]) simp_all
  qed
qed

end

interpretation sample_pair: handshake_pair "sample_env hmac" sample_sys sample_sys "replicate 32 7"
  by (intro handshake_pair.intro sample_hmac handshake_pair_axioms.intro)
    (simp_all add: sample_random [unfolded NONCE_LEN_def] NONCE_LEN_def)

end
