(* ===== verification/Signed_Tests.thy ===== *)
theory Signed_Tests
  imports Signed_Process Duplex
begin

text \<open>
  The unit tests of \<open>src/src/auth/signed_process/mod.rs\<close>. The files a test writes are what the
  operating system answers from; signing and the encoding of signatures are the crates the tests use,
  with the laws of the locale \<open>signing\<close>.
\<close>

record 'sk signer =
  sign :: "'sk \<Rightarrow> bytes \<Rightarrow> bytes"
  verifying_key :: "'sk \<Rightarrow> bytes"
  from_secret :: "bytes \<Rightarrow> 'sk"
  base64_encode :: "bytes \<Rightarrow> bytes"

definition files_sys :: "(string \<Rightarrow> bytes option) \<Rightarrow> sys" where
  "files_sys files =
     \<lparr>sys_random = (\<lambda>n. Inl []), sys_open = (\<lambda>_. Inl io_error.NotFound), sys_times = (\<lambda>_. Inl io_error.NotFound),
      sys_image = (\<lambda>_. Inl io_error.NotFound),
      sys_file = (\<lambda>path. case files path of None \<Rightarrow> Inl io_error.NotFound | Some bs \<Rightarrow> Inr bs)\<rparr>"

text \<open>\<open>verify_signed_file\<close> on these files; \<open>None\<close> would be a panic.\<close>

definition verdict :: "('k, 'g, 'z) attest_env_scheme \<Rightarrow> (string \<Rightarrow> bytes option) \<Rightarrow> string \<Rightarrow> bytes \<Rightarrow> (hs_report + unit) option" where
  "verdict env files path key = perform (files_sys files) (verify_signed_file env path key)"

definition SECRET :: bytes where
  "SECRET = replicate 32 7"

text \<open>\<open>PathBuf::join\<close> of a plain file name on Windows, where these tests run.\<close>

definition join_name :: "string \<Rightarrow> string \<Rightarrow> string" where
  "join_name dir name =
     (if dir = [] \<or> last dir \<in> {CHR 0x5C, CHR ''/''} \<or> length dir = 2 \<and> last dir = CHR '':'' then dir @ name
      else dir @ CHR 0x5C # name)"

definition temp_file_path :: "string \<Rightarrow> nat \<Rightarrow> string \<Rightarrow> string" where
  "temp_file_path temp_dir unique name = join_name temp_dir (''ogurpchik-'' @ name @ ''-'' @ show_nat unique)"

definition verify_signed_file_accepts_detached_signature ::
  "('k, 'g, 'z) attest_env_scheme \<Rightarrow> 'sk signer \<Rightarrow> string \<Rightarrow> nat \<Rightarrow> bool" where
  "verify_signed_file_accepts_detached_signature env sg temp unique =
     (let image_path = temp_file_path temp unique ''signed-process.exe'';
          sig_path = image_path @ ''.sig'';
          image = as_bytes ''fake gui binary'';
          signing_key = from_secret sg SECRET;
          signature = sign sg signing_key image;
          files = [image_path \<mapsto> image, sig_path \<mapsto> base64_encode sg signature]
      in verdict env files image_path (verifying_key sg signing_key) = Some (Inr ()))"

definition missing_signature_is_accepted_only_in_debug_builds ::
  "('k, 'g, 'z) attest_env_scheme \<Rightarrow> 'sk signer \<Rightarrow> string \<Rightarrow> nat \<Rightarrow> bool" where
  "missing_signature_is_accepted_only_in_debug_builds env sg temp unique =
     (let image_path = temp_file_path temp unique ''unsigned-process.exe'';
          files = [image_path \<mapsto> as_bytes ''freshly rebuilt, never signed''];
          public_key = verifying_key sg (from_secret sg SECRET);
          result = verdict env files image_path public_key
      in if cfg_debug_assertions env then result = Some (Inr ()) else (\<exists>e. result = Some (Inl e)))"

definition present_but_invalid_signature_is_rejected_in_every_profile ::
  "('k, 'g, 'z) attest_env_scheme \<Rightarrow> 'sk signer \<Rightarrow> string \<Rightarrow> nat \<Rightarrow> bool" where
  "present_but_invalid_signature_is_rejected_in_every_profile env sg temp unique =
     (let image_path = temp_file_path temp unique ''tampered-process.exe'';
          sig_path = image_path @ ''.sig'';
          signing_key = from_secret sg SECRET;
          signature = sign sg signing_key (as_bytes ''some other binary'');
          files = [image_path \<mapsto> as_bytes ''the actual binary'', sig_path \<mapsto> base64_encode sg signature]
      in \<exists>e. verdict env files image_path (verifying_key sg signing_key) = Some (Inl e))"

text \<open>
  Keys are 32 bytes; base64 is text without white space around it and decodes to what was encoded;
  a signature verifies for the message it was made for, and not for these others.
\<close>

locale signing =
  fixes env :: "('k, 'g, 'z) attest_env_scheme" and sg :: "'sk signer" and key :: 'k
  assumes key_length: "length (verifying_key sg (from_secret sg SECRET)) = 32"
    and key_parses: "key_from_bytes env (verifying_key sg (from_secret sg SECRET)) = Some key"
    and encoded_text: "is_utf8 (base64_encode sg bs)"
    and encoded: "base64_decode env (trim (base64_encode sg bs)) = Some bs"
    and signature_parses: "\<exists>g. signature_from_slice env (sign sg (from_secret sg SECRET) m) = Some g"
    and signature_valid: "signature_from_slice env (sign sg (from_secret sg SECRET) m) = Some g
      \<Longrightarrow> verify_signature env key m g = Inr ()"
    and signature_invalid: "signature_from_slice env (sign sg (from_secret sg SECRET) (as_bytes ''some other binary'')) = Some g
      \<Longrightarrow> verify_signature env key (as_bytes ''the actual binary'') g \<noteq> Inr ()"
begin

lemma parsed_key: "parse_verifying_key env (verifying_key sg (from_secret sg SECRET)) = Inr key"
  by (simp add: parse_verifying_key_def key_length key_parses)

lemma verdict_eq:
  assumes "signature_from_slice env (sign sg (from_secret sg SECRET) m) = Some g"
  shows "verdict env [path \<mapsto> img, (path @ ''.sig'') \<mapsto> base64_encode sg (sign sg (from_secret sg SECRET) m)] path
      (verifying_key sg (from_secret sg SECRET)) =
    Some (case verify_signature env key img g of
            Inl e \<Rightarrow> Inl (unverified [''signature verification failed: '' @ e]) | Inr _ \<Rightarrow> Inr ())"
  by (simp add: verdict_def verify_signed_file_def parsed_key files_sys_def read_signature_def signature_path_for_def
      parse_signature_def encoded_text encoded assms bind_ok_def Let_def split: sum.split)

lemma signature_tests_pass:
  "verify_signed_file_accepts_detached_signature env sg temp unique"
  "present_but_invalid_signature_is_rejected_in_every_profile env sg temp unique"
proof -
  obtain g where g: "signature_from_slice env (sign sg (from_secret sg SECRET) (as_bytes ''fake gui binary'')) = Some g"
    using signature_parses by blast
  show "verify_signed_file_accepts_detached_signature env sg temp unique"
    unfolding verify_signed_file_accepts_detached_signature_def Let_def verdict_eq [OF g]
    by (simp add: signature_valid [OF g])
  obtain h where h: "signature_from_slice env (sign sg (from_secret sg SECRET) (as_bytes ''some other binary'')) = Some h"
    using signature_parses by blast
  show "present_but_invalid_signature_is_rejected_in_every_profile env sg temp unique"
    unfolding present_but_invalid_signature_is_rejected_in_every_profile_def Let_def verdict_eq [OF h]
    using signature_invalid [OF h] by (auto split: sum.split)
qed

lemma missing_signature_passes: "missing_signature_is_accepted_only_in_debug_builds env sg temp unique"
  by (simp add: missing_signature_is_accepted_only_in_debug_builds_def verdict_def verify_signed_file_def parsed_key files_sys_def
      read_signature_def signature_path_for_def on_missing_signature_def bind_ok_def Let_def)

end

text \<open>
  A scheme in which a key is its own verifying key and a signature its message, and bytes are written
  as two letters each.
\<close>

definition letters :: "u8 \<Rightarrow> bytes" where
  "letters b = [97 + drop_bit 4 b, 97 + take_bit 4 b]"

fun read_letters :: "bytes \<Rightarrow> bytes option" where
  "read_letters [] = Some []"
| "read_letters [x] = None"
| "read_letters (x # y # bs) = map_option (\<lambda>r. (push_bit 4 (x - 97) + (y - 97)) # r) (read_letters bs)"

definition plain_env :: "(bytes, bytes) attest_env" where
  "plain_env =
     \<lparr>cfg_platform = Windows, cfg_debug_assertions = False, io_text = (\<lambda>_. []), base64_decode = read_letters,
      key_from_bytes = Some, signature_from_slice = Some,
      verify_signature = (\<lambda>key m g. if g = m then Inr () else Inl [])\<rparr>"

definition plain_signer :: "bytes signer" where
  "plain_signer = \<lparr>sign = (\<lambda>sk m. m), verifying_key = (\<lambda>sk. sk), from_secret = (\<lambda>bs. bs), base64_encode = (\<lambda>bs. concat (map letters bs))\<rparr>"

lemma letters_small: "x \<in> set (letters b) \<Longrightarrow> 0x20 < x \<and> x < 0x80"
proof -
  have "unat (drop_bit 4 b) < 16"
  proof -
    have "unat b < 256" using unsigned_less [of b] by simp
    then show ?thesis by (simp add: drop_bit_eq_div unat_div)
  qed
  moreover have "unat (take_bit 4 b) < 16"
    using take_bit_nat_less_exp [of 4 "unat b"] by (simp add: unsigned_take_bit_eq)
  ultimately show "x \<in> set (letters b) \<Longrightarrow> 0x20 < x \<and> x < 0x80"
    by (auto simp: letters_def word_less_nat_alt unat_word_ariths)
qed

lemma ascii_utf8: "\<forall>b \<in> set bs. b < 0x80 \<Longrightarrow> is_utf8 bs"
  by (induction bs) auto

lemma trim_letters: "trim (concat (map letters bs)) = concat (map letters bs)"
proof (cases "bs = []")
  case False
  then have "concat (map letters bs) \<noteq> []" by (auto simp: letters_def neq_Nil_conv)
  then show ?thesis
    using letters_small hd_in_set [of "concat (map letters bs)"] last_in_set [of "concat (map letters bs)"]
    by (intro trim_id) auto
qed (simp, code_simp)

lemma read_letters_all: "read_letters (concat (map letters bs)) = Some bs"
proof (induction bs)
  case (Cons b bs)
  then show ?case by (simp add: letters_def bits_ident)
qed simp

interpretation plain: signing plain_env plain_signer SECRET
proof
  show "is_utf8 (base64_encode plain_signer bs)" for bs
    using letters_small by (auto simp: plain_signer_def intro!: ascii_utf8)
  show "verify_signature plain_env SECRET (as_bytes ''the actual binary'') g \<noteq> Inr ()"
    if "signature_from_slice plain_env (sign plain_signer (from_secret plain_signer SECRET) (as_bytes ''some other binary'')) = Some g" for g
    using that by (auto simp: plain_env_def plain_signer_def as_bytes_def)
qed (simp_all add: plain_env_def plain_signer_def SECRET_def trim_letters read_letters_all)

end
