(* ===== verification/Frame_Tests.thy ===== *)
theory Frame_Tests
  imports Framing
begin

text \<open>
  The property tests of \<open>src/src/rpc/frame.rs\<close> and the fuzz target \<open>src/fuzz/fuzz_targets/inbound.rs\<close>. What a
  test draws at random is an argument; the messages are what \<open>build\<close> makes with the builder of \<open>capnp\<close>.
  The lemmas show that the tests pass for every drawing, not only for the sizes the strategies try.
\<close>

section \<open>The tests\<close>

text \<open>\<open>capnp::serialize\<close>\<close>

record serialize_ops =
  write_message :: "out_message \<Rightarrow> bytes"
  compute_serialized_size_in_words :: "out_message \<Rightarrow> nat"

definition stock_bytes :: "serialize_ops \<Rightarrow> out_message list \<Rightarrow> bytes" where
  "stock_bytes so messages = concat (map (write_message so) messages)"

definition concat_chunks :: "chunk list \<Rightarrow> bytes" where
  "concat_chunks cs = concat (map chunk_as_init cs)"

definition only_large_segments_by_reference :: "nat \<Rightarrow> chunk list \<Rightarrow> bool" where
  "only_large_segments_by_reference limit cs =
     list_all (\<lambda>c. case c of Segment segment \<Rightarrow> limit < seg_len segment | Inline _ \<Rightarrow> True) cs"

definition batch_round :: "out_message list \<Rightarrow> bytes \<Rightarrow> nat \<Rightarrow> batch \<Rightarrow> bool \<times> batch" where
  "batch_round messages expected limit b =
     (let b = foldl push b messages;
          counted = (byte_count b = length expected);
          (cs, b) = take_chunks b
      in (counted \<and> list_all (\<lambda>c. chunk_as_init c \<noteq> []) cs
            \<and> only_large_segments_by_reference limit cs \<and> concat_chunks cs = expected,
          recycle b cs))"

definition a_batch_is_byte_for_byte_what_capnp_serialize_writes :: "serialize_ops \<Rightarrow> out_message list \<Rightarrow> nat \<Rightarrow> bool" where
  "a_batch_is_byte_for_byte_what_capnp_serialize_writes so messages limit =
     (let expected = stock_bytes so messages;
          (first, b) = batch_round messages expected limit (batch_new limit);
          (second, b) = batch_round messages expected limit b
      in first \<and> second)"

text \<open>Reading the messages one by one; \<open>None\<close> is a failed assertion.\<close>

fun reads_back :: "('b, 's) capnp_ops \<Rightarrow> inbound \<Rightarrow> trickle \<Rightarrow> out_message list \<Rightarrow> (inbound \<times> trickle) option" where
  "reads_back cops ib r [] = Some (ib, r)"
| "reads_back cops ib r (m # ms) =
     (case inbound_next cops trickle_ops ib r of
        (Inr (Some got), ib, r) \<Rightarrow> if read_segments cops got = m then reads_back cops ib r ms else None
      | _ \<Rightarrow> None)"

definition reads_then :: "('b, 's) capnp_ops \<Rightarrow> reader_options \<Rightarrow> bytes \<Rightarrow> nat list \<Rightarrow> nat \<Rightarrow> out_message list
    \<Rightarrow> (capnp_kind + 's option) \<Rightarrow> bool" where
  "reads_then cops new_options stream steps cap messages end =
     (case reads_back cops (inbound_new new_options cap) (trickle_new stream steps) messages of
        None \<Rightarrow> False
      | Some (ib, r) \<Rightarrow> fst (inbound_next cops trickle_ops ib r) = end)"

definition inbound_reads_back_what_capnp_serialize_wrote :: "('b, 's) capnp_ops \<Rightarrow> serialize_ops \<Rightarrow> reader_options
    \<Rightarrow> out_message list \<Rightarrow> nat list \<Rightarrow> nat \<Rightarrow> bool" where
  "inbound_reads_back_what_capnp_serialize_wrote cops so new_options messages steps cap =
     reads_then cops new_options (stock_bytes so messages) steps cap messages (Inr None)"

definition inbound_reads_back_what_a_batch_wrote :: "('b, 's) capnp_ops \<Rightarrow> reader_options
    \<Rightarrow> out_message list \<Rightarrow> nat \<Rightarrow> nat list \<Rightarrow> nat \<Rightarrow> bool" where
  "inbound_reads_back_what_a_batch_wrote cops new_options messages limit steps cap =
     (let b = foldl push (batch_new limit) messages in
      reads_then cops new_options (concat_chunks (fst (take_chunks b))) steps cap messages (Inr None))"

fun boundaries :: "serialize_ops \<Rightarrow> nat \<Rightarrow> out_message list \<Rightarrow> nat list" where
  "boundaries so at [] = [at]"
| "boundaries so at (m # ms) = at # boundaries so (at + compute_serialized_size_in_words so m * WORD) ms"

definition a_stream_cut_inside_a_message_fails_and_on_a_boundary_ends :: "('b, 's) capnp_ops \<Rightarrow> serialize_ops
    \<Rightarrow> reader_options \<Rightarrow> out_message list \<Rightarrow> nat list \<Rightarrow> nat \<Rightarrow> nat \<Rightarrow> bool" where
  "a_stream_cut_inside_a_message_fails_and_on_a_boundary_ends cops so new_options messages steps cap cut_at =
     (let stream = stock_bytes so messages;
          bounds = boundaries so 0 messages;
          complete = length (filter (\<lambda>boundary. boundary \<le> cut_at) bounds) - 1
      in reads_then cops new_options (take cut_at stream) steps cap (take complete messages)
           (if cut_at \<in> set bounds then Inr None else Inl PrematureEndOfFile))"

definition inbound_accepts_exactly_what_capnp_accepts :: "('b, 's) capnp_ops \<Rightarrow> 's stock_read \<Rightarrow> serialize_ops
    \<Rightarrow> reader_options \<Rightarrow> u32 \<Rightarrow> u32 list \<Rightarrow> bytes \<Rightarrow> bool \<Rightarrow> out_message list \<Rightarrow> nat \<Rightarrow> nat list \<Rightarrow> nat \<Rightarrow> bool" where
  "inbound_accepts_exactly_what_capnp_accepts cops try_read_message so new_options count_field lengths body
       valid_first messages limit steps cap =
     (let arbitrary = to_le 4 count_field @ concat (map (to_le 4) lengths) @ body;
          valid = stock_bytes so messages;
          stream = (if valid_first then valid @ arbitrary else arbitrary @ valid);
          options = new_options\<lparr>traversal_limit_in_words := Some limit\<rparr>
      in ours cops stream steps cap options = stock cops try_read_message stream options)"

text \<open>The fuzz target.\<close>

record fuzz_input =
  fuzz_capacity :: u16
  fuzz_limit :: u16
  fuzz_steps :: "u16 list"
  fuzz_stream :: bytes

definition fuzz_target :: "('b, 's) capnp_ops \<Rightarrow> 's stock_read \<Rightarrow> reader_options \<Rightarrow> fuzz_input \<Rightarrow> bool" where
  "fuzz_target cops try_read_message new_options input =
     (let steps = map unat (take 16 (fuzz_steps input)) in
      inbound_matches_stock cops try_read_message new_options (fuzz_stream input) steps
        (unat (fuzz_capacity input)) (unat (fuzz_limit input)))"

section \<open>They pass\<close>

text \<open>\<open>capnp::serialize\<close> writes the stream framing and knows its size.\<close>

locale capnp_serialize =
  fixes so :: serialize_ops
  assumes writes_framing: "list_all (\<lambda>s. length s mod 8 = 0) m \<Longrightarrow> write_message so m = serialize m"
    and size_in_words: "list_all (\<lambda>s. length s mod 8 = 0) m
      \<Longrightarrow> compute_serialized_size_in_words so m * 8 = length (serialize m)"
begin

lemma stock_bytes_framing: "list_all (wf_message limit) ms \<Longrightarrow> stock_bytes so ms = concat (map serialize ms)"
  by (auto simp: stock_bytes_def list_all_iff wf_message_def intro!: arg_cong [of _ _ concat] writes_framing)

lemma size_of_message: "wf_message limit m \<Longrightarrow> compute_serialized_size_in_words so m * WORD = length (serialize m)"
  by (simp add: WORD_def size_in_words wf_messageD(3))

lemma boundaries_above: "\<forall>b \<in> set (boundaries so at ms). at \<le> b"
proof (induction ms arbitrary: at)
  case (Cons m ms)
  show ?case using Cons.IH [of "at + compute_serialized_size_in_words so m * WORD"] by auto
qed simp

text \<open>Where a cut falls: after the complete messages, with a part of the next one if it is inside.\<close>

lemma cut_falls:
  assumes "list_all (wf_message limit) ms" and "at \<le> cut_at" and "cut_at \<le> at + length (concat (map serialize ms))"
  defines "complete \<equiv> length (filter (\<lambda>b. b \<le> cut_at) (boundaries so at ms)) - 1"
  shows "\<exists>part. take (cut_at - at) (concat (map serialize ms)) = concat (map serialize (take complete ms)) @ part
    \<and> (if cut_at \<in> set (boundaries so at ms) then part = []
       else \<exists>m k. wf_message limit m \<and> part = take k (serialize m) \<and> 0 < k \<and> k < length (serialize m))"
  using assms(1-3) unfolding complete_def
proof (induction ms arbitrary: at)
  case (Cons m ms)
  let ?len = "length (serialize m)"
  have len: "compute_serialized_size_in_words so m * WORD = ?len" using Cons.prems(1) size_of_message [of limit m] by simp
  have above: "\<forall>b \<in> set (boundaries so (at + ?len) ms). at + ?len \<le> b" by (rule boundaries_above)
  show ?case
  proof (cases "cut_at < at + ?len")
    case True
    then have none: "filter (\<lambda>b. b \<le> cut_at) (boundaries so (at + ?len) ms) = []" "cut_at \<notin> set (boundaries so (at + ?len) ms)"
      using above by (force simp: filter_empty_conv)+
    show ?thesis using True Cons.prems(1,2) none by (auto simp: len intro!: exI [of _ m] exI [of _ "cut_at - at"])
  next
    case False
    let ?rest = "length (filter (\<lambda>b. b \<le> cut_at) (boundaries so (at + ?len) ms)) - 1"
    have first: "at + ?len \<in> set (filter (\<lambda>b. b \<le> cut_at) (boundaries so (at + ?len) ms))"
      using False by (cases ms) auto
    then have "length (filter (\<lambda>b. b \<le> cut_at) (boundaries so (at + ?len) ms)) = Suc ?rest"
      using length_pos_if_in_set [OF first] by simp
    then have complete: "length (filter (\<lambda>b. b \<le> cut_at) (boundaries so at (m # ms))) - 1 = Suc ?rest"
      using Cons.prems(2) by (simp add: len)
    have 0: "0 < ?len" using Cons.prems(1) length_frame_table_ge [of m] by (auto simp: serialize_def wf_message_def)
    have "cut_at \<in> set (boundaries so at (m # ms)) \<longleftrightarrow> cut_at \<in> set (boundaries so (at + ?len) ms)"
      using False 0 by (auto simp add: len simp del: length_greater_0_conv)
    moreover have "take (cut_at - at) (concat (map serialize (m # ms))) = serialize m @ take (cut_at - (at + ?len)) (concat (map serialize ms))"
      using False by simp
    ultimately show ?thesis
      using Cons.IH [of "at + ?len"] Cons.prems False unfolding complete by simp
  qed
qed simp

end

lemma reads_back_spec:
  assumes "capnp_framing cops lens_of raw_of table_of"
    and "list_all (wf_message (traversal_limit_in_words (options ib))) ms"
    and "inbound_inv ib" and "buffered ib @ trickle_rest r = concat (map serialize ms) @ t"
  shows "\<exists>ib' r'. reads_back cops ib r ms = Some (ib', r') \<and> inbound_inv ib' \<and> options ib' = options ib
    \<and> buffered ib' @ trickle_rest r' = t"
  using assms(2-4)
proof (induction ms arbitrary: ib r)
  case (Cons m ms)
  have framed: "framed_stream trickle_ops trickle_rest cops lens_of raw_of table_of"
    using assms(1) trickle.byte_stream_axioms by (simp add: framed_stream_def)
  obtain res ib' r' where step: "inbound_next cops trickle_ops ib r = (res, ib', r')"
    by (cases "inbound_next cops trickle_ops ib r") auto
  have parsed: "parse_frame 512 (traversal_limit_in_words (options ib)) (buffered ib @ trickle_rest r)
      = Inr (Some (m, concat (map serialize ms) @ t))"
    using Cons.prems by (simp add: parse_serialize)
  obtain got where "res = Inr (Some got)" "read_segments cops got = m" "inbound_inv ib'" "options ib' = options ib"
    "buffered ib' @ trickle_rest r' = concat (map serialize ms) @ t"
    using framed_stream.next_spec [OF framed Cons.prems(2), of r] unfolding step parsed delivers_def by auto
  with Cons.IH [of ib' r'] Cons.prems(1) step show ?case by simp
qed simp

lemma reads_then_spec:
  assumes "capnp_framing cops lens_of raw_of table_of"
    and "list_all (wf_message (traversal_limit_in_words opts)) ms"
    and "parse_frame 512 (traversal_limit_in_words opts) t = (case end of Inl e \<Rightarrow> Inl e | Inr _ \<Rightarrow> Inr None)"
    and "end = Inr None \<or> (\<exists>e. end = Inl e)"
  shows "reads_then cops opts (concat (map serialize ms) @ t) steps cap ms end"
proof -
  let ?ib = "inbound_new opts cap" and ?r = "trickle_new (concat (map serialize ms) @ t) steps"
  have framed: "framed_stream trickle_ops trickle_rest cops lens_of raw_of table_of"
    using assms(1) trickle.byte_stream_axioms by (simp add: framed_stream_def)
  have "inbound_inv ?ib" "options ?ib = opts" "buffered ?ib @ trickle_rest ?r = concat (map serialize ms) @ t"
    by (simp_all add: buffered_def inbound_new_def trickle_rest_def trickle_new_def inbound_inv_def vec_with_capacity_def)
  then obtain ib' r' where read: "reads_back cops ?ib ?r ms = Some (ib', r')" "inbound_inv ib'" "options ib' = opts"
    "buffered ib' @ trickle_rest r' = t"
    using reads_back_spec [OF assms(1), of ?ib ms ?r t] assms(2) by auto
  then have "fst (inbound_next cops trickle_ops ib' r') = end"
    using framed_stream.next_spec [OF framed read(2), of r'] assms(3,4)
    by (auto simp: delivers_def split: prod.splits)
  then show ?thesis by (simp add: reads_then_def read(1))
qed

lemma nothing_left: "parse_frame 512 limit [] = Inr None"
  by (simp add: parse_frame_def)

lemma pushed:
  assumes "list_all (wf_message limit') ms" and "batch_reach limit b" and "chunks b = []"
  shows "batch_reach limit (foldl push b ms)" and "content (chunks (foldl push b ms)) = concat (map serialize ms)"
proof -
  have nonempty: "list_all (\<lambda>m. m \<noteq> []) ms" using assms(1) by (auto simp: list_all_iff wf_message_def)
  then show "batch_reach limit (foldl push b ms)"
    using assms(2) by (induction ms arbitrary: b) (simp_all add: reach_push)
  show "content (chunks (foldl push b ms)) = concat (map serialize ms)"
    using frame_batch.push_all [OF _ nonempty, of b] batch_reach_inv [OF assms(2)] assms(3) by simp
qed

lemma batch_round_passes:
  assumes "list_all (wf_message limit') ms" and "batch_reach limit b" and "chunks b = []"
  shows "\<exists>b'. batch_round ms (concat (map serialize ms)) limit b = (True, b') \<and> batch_reach limit b' \<and> chunks b' = []"
proof -
  let ?b = "foldl push b ms"
  note pushed = pushed [OF assms]
  have inv: "batch_inv ?b" "inline_limit ?b = limit" using batch_reach_inv [OF pushed(1)] by blast+
  have "chunk_as_init c \<noteq> [] \<and> (case c of Segment segment \<Rightarrow> limit < seg_len segment | Inline _ \<Rightarrow> True)"
    if "chunk_ok limit c" for c
    using that by (cases c) (auto simp: segment_as_init_def)
  then have "list_all (\<lambda>c. chunk_as_init c \<noteq> []) (chunks ?b)" "only_large_segments_by_reference limit (chunks ?b)"
    using inv by (auto simp: batch_inv_def only_large_segments_by_reference_def elim!: list.pred_mono_strong)
  moreover have "byte_count ?b = length (concat (map serialize ms))" "concat_chunks (chunks ?b) = concat (map serialize ms)"
    using inv(1) pushed(2) by (simp_all add: byte_count_def batch_inv_def concat_chunks_def content_def)
  moreover have "batch_reach limit (recycle (snd (take_chunks ?b)) (chunks ?b))"
    using reach_write [OF pushed(1), of "chunks ?b"] by (simp add: prod_eq_iff)
  ultimately show ?thesis by (simp add: batch_round_def Let_def split_beta recycle_def)
qed

text \<open>The tests of \<open>frame.rs\<close>, for whatever they draw.\<close>

lemma frame_tests_pass:
  assumes "capnp_framing cops lens_of raw_of table_of" and "capnp_serialize so"
    and wf: "list_all (wf_message (traversal_limit_in_words new_options)) messages"
  shows "a_batch_is_byte_for_byte_what_capnp_serialize_writes so messages limit"
    and "inbound_reads_back_what_capnp_serialize_wrote cops so new_options messages steps cap"
    and "inbound_reads_back_what_a_batch_wrote cops new_options messages limit steps cap"
    and "cut_at \<le> length (stock_bytes so messages)
      \<Longrightarrow> a_stream_cut_inside_a_message_fails_and_on_a_boundary_ends cops so new_options messages steps cap cut_at"
proof -
  note bytes = capnp_serialize.stock_bytes_framing [OF assms(2) wf]
  show "a_batch_is_byte_for_byte_what_capnp_serialize_writes so messages limit"
  proof -
    have "chunks (batch_new limit) = []" by (simp add: batch_new_def)
    from batch_round_passes [OF wf reach_new this]
    obtain b where b: "batch_round messages (concat (map serialize messages)) limit (batch_new limit) = (True, b)"
      "batch_reach limit b" "chunks b = []" by blast
    from batch_round_passes [OF wf b(2,3)] b(1) show ?thesis
      by (auto simp: a_batch_is_byte_for_byte_what_capnp_serialize_writes_def bytes)
  qed
  have clean: "reads_then cops new_options (concat (map serialize messages)) steps cap messages (Inr None)"
    using reads_then_spec [OF assms(1) wf, of "[]" "Inr None" steps cap] by (simp add: nothing_left)
  show "inbound_reads_back_what_capnp_serialize_wrote cops so new_options messages steps cap"
    using clean by (simp add: inbound_reads_back_what_capnp_serialize_wrote_def bytes)
  have "concat_chunks (chunks (foldl push (batch_new limit) messages)) = concat (map serialize messages)"
    using pushed(2) [OF wf reach_new] by (simp add: batch_new_def concat_chunks_def content_def)
  then show "inbound_reads_back_what_a_batch_wrote cops new_options messages limit steps cap"
    using clean by (simp add: inbound_reads_back_what_a_batch_wrote_def Let_def)
  assume "cut_at \<le> length (stock_bytes so messages)"
  then obtain part where part: "take cut_at (concat (map serialize messages)) =
      concat (map serialize (take (length (filter (\<lambda>b. b \<le> cut_at) (boundaries so 0 messages)) - 1) messages)) @ part"
    "if cut_at \<in> set (boundaries so 0 messages) then part = []
     else \<exists>m k. wf_message (traversal_limit_in_words new_options) m \<and> part = take k (serialize m) \<and> 0 < k \<and> k < length (serialize m)"
    using capnp_serialize.cut_falls [OF assms(2) wf, of 0 cut_at] by (auto simp: bytes)
  have "parse_frame 512 (traversal_limit_in_words new_options) part =
      (if cut_at \<in> set (boundaries so 0 messages) then Inr None else Inl PrematureEndOfFile)"
    using part(2) by (auto simp: nothing_left parse_truncated split: if_splits)
  moreover have "list_all (wf_message (traversal_limit_in_words new_options)) (take n messages)" for n
    using wf by (auto simp: list_all_iff dest: in_set_takeD)
  ultimately show "a_stream_cut_inside_a_message_fails_and_on_a_boundary_ends cops so new_options messages steps cap cut_at"
    unfolding a_stream_cut_inside_a_message_fails_and_on_a_boundary_ends_def Let_def bytes part(1)
    by (intro reads_then_spec [OF assms(1)]) auto
qed

lemma stock_tests_pass:
  assumes "capnp_framing cops lens_of raw_of table_of" and "stock_reader cops try_read_message"
  shows "inbound_accepts_exactly_what_capnp_accepts cops try_read_message so new_options count_field lengths body
      valid_first messages limit steps cap"
    and "fuzz_target cops try_read_message new_options input"
  using ours_parses [OF assms(1)] stock_reader.stock_loop_parses [OF assms(2)]
  by (simp_all add: inbound_accepts_exactly_what_capnp_accepts_def fuzz_target_def inbound_matches_stock_def stock_def
      Let_def split: prod.splits)

text \<open>The framing itself as \<open>capnp::serialize\<close>.\<close>

definition framing_serialize :: serialize_ops where
  "framing_serialize =
     \<lparr>write_message = serialize, compute_serialized_size_in_words = (\<lambda>m. length (serialize m) div WORD)\<rparr>"

interpretation framing_writer: capnp_serialize framing_serialize
proof
  show "compute_serialized_size_in_words framing_serialize m * 8 = length (serialize m)"
    if "list_all (\<lambda>s. length s mod 8 = 0) m" for m
  proof -
    have "length (concat m) mod 8 = 0" using that by (induction m) (auto simp: mod_add_eq [symmetric])
    moreover have "length (frame_table m) mod 8 = 0"
      by (simp add: length_frame_table next_multiple_of_def WORD_def)
    ultimately have "length (serialize m) mod 8 = 0" by (simp add: serialize_def mod_add_eq [symmetric])
    then show ?thesis by (simp add: framing_serialize_def WORD_def mod_0_imp_dvd)
  qed
qed (simp add: framing_serialize_def)

lemmas framing_tests_pass =
  frame_tests_pass [OF list_framing.capnp_framing_axioms framing_writer.capnp_serialize_axioms]

end
