(* ===== verification/Transport_Tests.thy ===== *)
theory Transport_Tests
  imports Endpoint Streams Duplex
begin

text \<open>
  The unit tests of \<open>src/src/net/\<close> that open connections, with those of \<open>src/src/endpoint.rs\<close>. What the
  machine answers to the calls of the listeners and connections is a record; once connected, two ends
  are joined as in \<open>Duplex\<close>. The locale \<open>local_machine\<close> says what a machine does that has nothing else
  at the addresses of the tests. The tests of the acceptor of a pipe follow its instances.
\<close>

section \<open>Exchanges\<close>

definition read_expecting :: "bytes \<Rightarrow> (io_error + unit) io \<Rightarrow> (io_error + unit) io" where
  "read_expecting expected p =
     ReadExact (length expected) (\<lambda>r. case r of Inl e \<Rightarrow> Ret (Inl e) | Inr buf \<Rightarrow> if buf = expected then p else Panic)"

definition write_all :: "bytes \<Rightarrow> (io_error + unit) io \<Rightarrow> (io_error + unit) io" where
  "write_all bs p = WriteAll bs (\<lambda>r. case r of Inl e \<Rightarrow> Ret (Inl e) | Inr _ \<Rightarrow> p)"

definition asks_and_answers :: "sys \<Rightarrow> sys \<Rightarrow> string \<Rightarrow> string \<Rightarrow> bool" where
  "asks_and_answers sl sr question answer =
     ends_with sl sr
       (read_expecting (as_bytes question) (write_all (as_bytes answer) (Ret (Inr ()))),
        write_all (as_bytes question) (read_expecting (as_bytes answer) (Ret (Inr ()))), [], []) (Inr ()) (Inr ())"

definition ping_pong :: "sys \<Rightarrow> sys \<Rightarrow> bool" where
  "ping_pong sl sr = asks_and_answers sl sr ''ping'' ''pong''"

lemma exchange_passes: "asks_and_answers sl sr question answer"
proof -
  let ?q = "as_bytes question" and ?a = "as_bytes answer" and ?done = "Ret (Inr ()) :: (io_error + unit) io"
  let ?client = "read_expecting ?a ?done" and ?server = "write_all ?a ?done"
  have 1: "step sl sr (read_expecting ?q ?server, write_all ?q ?client, [], []) (read_expecting ?q ?server, ?client, ?q, [])"
    using right_step [of sr "write_all ?q ?client" "[]" "read_expecting ?q ?server" ?client "[]" ?q sl "[]"]
    by (simp add: write_all_def)
  have 2: "step sl sr (read_expecting ?q ?server, ?client, ?q, []) (?server, ?client, [], [])"
    using left_step [of sl "read_expecting ?q ?server" ?q ?client ?server "[]" "[]" sr "[]"]
    by (simp add: read_expecting_def deliver_def)
  have 3: "step sl sr (?server, ?client, [], []) (?done, ?client, [], ?a)"
    using left_step [of sl ?server "[]" ?client ?done "[]" ?a sr "[]"] by (simp add: write_all_def)
  have 4: "step sl sr (?done, ?client, [], ?a) (?done, ?done, [], [])"
    using right_step [of sr ?client ?a ?done ?done "[]" "[]" sl "[]"] by (simp add: read_expecting_def deliver_def)
  show ?thesis unfolding asks_and_answers_def
    by (rule ends_withI, (rule converse_rtranclp_into_rtranclp, rule 1 2 3 4)+, rule rtranclp.rtrancl_refl)
qed

lemma ping_pong_passes: "ping_pong sl sr"
  by (simp add: ping_pong_def exchange_passes)

section \<open>The tests\<close>

record ('a, 'f, 'l, 'h, 'p, 's) machine =
  m_listen :: "('a, 'f, 'l, 'h, 'p) listen_env"
  m_accept :: "('l, 'h, 's) accept_ops"
  m_connect :: "('a, 's) connect_ops"
  m_peer :: "'s peer_ops"
  m_any_port :: 'a
  m_local_addr :: "'l \<Rightarrow> io_error + 'a"
  m_close :: "'l \<Rightarrow> string \<Rightarrow> 'f \<Rightarrow> 'f"
  m_write :: "string \<Rightarrow> bytes \<Rightarrow> 'f \<Rightarrow> (io_error + unit) \<times> 'f"
  m_read :: "'f \<Rightarrow> string \<Rightarrow> io_error + bytes"
  m_raw_os_error :: "io_error \<Rightarrow> nat option"
  m_pid :: u32

text \<open>\<open>try_join!(\<dots>).expect(\<dots>)\<close>; \<open>None\<close> is the panic.\<close>

fun try_join :: "'e + 'x \<Rightarrow> 'e + 'y \<Rightarrow> ('x \<times> 'y) option" where
  "try_join (Inr x) (Inr y) = Some (x, y)"
| "try_join _ _ = None"

definition tcp_pair :: "('a, 'f, 'l, 'h, 'p, 's) machine \<Rightarrow> ('s conn \<times> 's conn) option" where
  "tcp_pair m =
     (case bind_tcp (le_addr_fmt (m_listen m)) (le_tcp_bind (m_listen m)) (m_any_port m) :: ('l, 'h) bound of
        Inr (TcpListener inner) \<Rightarrow>
          (case m_local_addr m inner of
             Inl _ \<Rightarrow> None
           | Inr addr \<Rightarrow> try_join (listener_accept (m_accept m) (TcpListener inner)) (connect_tcp (m_connect m) addr))
      | _ \<Rightarrow> None)"

definition npipe_pair :: "('a, 'f, 'l, 'h, 'p, 's) machine \<Rightarrow> string \<Rightarrow> ('s conn \<times> 's conn) option" where
  "npipe_pair m name =
     (case bind_npipe (le_pipes (m_listen m)) (le_security (m_listen m)) name of
        Inl _ \<Rightarrow> None
      | Inr listener \<Rightarrow> try_join (listener_accept (m_accept m) listener) (connect_npipe (m_connect m) name))"

text \<open>The listener stays, with the file system it was bound in.\<close>

definition uds_pair :: "platform \<Rightarrow> ('a, 'f, 'l, 'h, 'p, 's) machine \<Rightarrow> 'f \<Rightarrow> string
    \<Rightarrow> ('s conn \<times> 's conn \<times> ('l, 'h) listener \<times> 'f) option" where
  "uds_pair plat m f path =
     (case bind_uds plat (le_files (m_listen m)) f path of
        (Inl _, f) \<Rightarrow> None
      | (Inr listener, f) \<Rightarrow>
          map_option (\<lambda>(server, client). (server, client, listener, f))
            (try_join (listener_accept (m_accept m) listener) (connect_uds (m_connect m) path)))"

definition path_exists :: "('f, 'l) fs_ops \<Rightarrow> 'f \<Rightarrow> string \<Rightarrow> bool" where
  "path_exists ops f path = (case symlink_metadata ops f path of Inl _ \<Rightarrow> False | Inr _ \<Rightarrow> True)"

definition tcp_ping_pong_through_conn_enum :: "('a, 'f, 'l, 'h, 'p, 's) machine \<Rightarrow> sys \<Rightarrow> sys \<Rightarrow> bool" where
  "tcp_ping_pong_through_conn_enum m sl sr =
     (case tcp_pair m of
        None \<Rightarrow> False
      | Some (server, client) \<Rightarrow> conn_kind server = ''tcp'' \<and> conn_kind client = ''tcp'' \<and> ping_pong sl sr)"

definition uds_ping_pong_through_conn_enum ::
  "platform \<Rightarrow> ('a, 'f, 'l, 'h, 'p, 's) machine \<Rightarrow> 'f \<Rightarrow> string \<Rightarrow> sys \<Rightarrow> sys \<Rightarrow> bool" where
  "uds_ping_pong_through_conn_enum plat m f path sl sr =
     (case uds_pair plat m f path of
        None \<Rightarrow> False
      | Some (server, client, listener, f) \<Rightarrow>
          ping_pong sl sr
          \<and> \<not> path_exists (le_files (m_listen m)) (drop_listener plat (le_files (m_listen m)) f listener) path)"

text \<open>\<open>uds_path\<close> removes what an earlier test left.\<close>

definition uds_path :: "('a, 'f, 'l, 'h, 'p, 's) machine \<Rightarrow> 'f \<Rightarrow> string \<Rightarrow> 'f" where
  "uds_path m f path = snd (remove_file (le_files (m_listen m)) f path)"

definition uds_rebind_over_a_stale_socket_succeeds ::
  "platform \<Rightarrow> ('a, 'f, 'l, 'h, 'p, 's) machine \<Rightarrow> 'f \<Rightarrow> string \<Rightarrow> bool" where
  "uds_rebind_over_a_stale_socket_succeeds plat m f path =
     (let ops = le_files (m_listen m) in
      case unix_bind ops (uds_path m f path) path of
        (Inl _, f) \<Rightarrow> False
      | (Inr raw, f) \<Rightarrow>
          let f = m_close m raw path f in
          path_exists ops f path
          \<and> (case bind_uds plat ops f path :: ('l, 'h) bound \<times> 'f of (Inl _, _) \<Rightarrow> False | (Inr _, _) \<Rightarrow> True))"

definition uds_bind_leaves_a_regular_file_alone ::
  "platform \<Rightarrow> ('a, 'f, 'l, 'h, 'p, 's) machine \<Rightarrow> 'f \<Rightarrow> string \<Rightarrow> bool" where
  "uds_bind_leaves_a_regular_file_alone plat m f path =
     (let ops = le_files (m_listen m) in
      case m_write m path (as_bytes ''not a socket'') (uds_path m f path) of
        (Inl _, f) \<Rightarrow> False
      | (Inr _, f) \<Rightarrow>
          (case bind_uds plat ops f path :: ('l, 'h) bound \<times> 'f of
             (Inl _, f) \<Rightarrow>
               m_read m f path = Inr (as_bytes ''not a socket'') \<and> fst (remove_file ops f path) = Inr ()
           | (Inr _, _) \<Rightarrow> False))"

definition uds_bind_refuses_a_live_socket_and_keeps_it ::
  "platform \<Rightarrow> ('a, 'f, 'l, 'h, 'p, 's) machine \<Rightarrow> 'f \<Rightarrow> string \<Rightarrow> sys \<Rightarrow> sys \<Rightarrow> bool" where
  "uds_bind_refuses_a_live_socket_and_keeps_it plat m f path sl sr =
     (let ops = le_files (m_listen m) in
      case bind_uds plat ops (uds_path m f path) path of
        (Inl _, f) \<Rightarrow> False
      | (Inr first, f) \<Rightarrow>
          (case bind_uds plat ops f path :: ('l, 'h) bound \<times> 'f of (Inl _, _) \<Rightarrow> True | (Inr _, _) \<Rightarrow> False)
          \<and> (case listener_accept (m_accept m) first of Inl _ \<Rightarrow> False | Inr probe \<Rightarrow> True)
          \<and> (case try_join (listener_accept (m_accept m) first) (connect_uds (m_connect m) path) of
               None \<Rightarrow> False | Some (server, client) \<Rightarrow> ping_pong sl sr))"

definition npipe_ping_pong_through_conn_enum :: "('a, 'f, 'l, 'h, 'p, 's) machine \<Rightarrow> sys \<Rightarrow> sys \<Rightarrow> bool" where
  "npipe_ping_pong_through_conn_enum m sl sr =
     (case npipe_pair m (''ogurpchik-net-conn-test-'' @ show_nat (unat (m_pid m))) of
        None \<Rightarrow> False
      | Some (server, client) \<Rightarrow> conn_kind server = ''npipe'' \<and> ping_pong sl sr)"

definition vsock_ping_pong_through_conn_enum ::
  "platform \<Rightarrow> ('a, 'f, 'l, 'h, 'p, 's) machine \<Rightarrow> sys \<Rightarrow> sys \<Rightarrow> bool" where
  "vsock_ping_pong_through_conn_enum plat m sl sr =
     (case v_bind_loopback plat (le_guids (m_listen m)) (le_vsock (m_listen m)) 22345 of
        Inl e \<Rightarrow> is_unavailable plat (OsError e (m_raw_os_error m e))
      | Inr l \<Rightarrow>
          (case try_join (listener_accept (m_accept m) (VsockListener l)) (connect_vsock_loopback (m_connect m) 22345) of
             None \<Rightarrow> False
           | Some (server, client) \<Rightarrow> conn_kind server = ''vsock'' \<and> ping_pong sl sr))"

text \<open>
  The tests of \<open>net/vsock/general.rs\<close>: a loopback listener, or nothing to test. The two handles of a split
  stream are handles of that stream, so what is written to the one is answered on the other.
\<close>

definition loopback_or_skip :: "platform \<Rightarrow> ('a, 'f, 'l, 'h, 'p, 's) machine \<Rightarrow> u32 \<Rightarrow> ('l \<Rightarrow> bool) \<Rightarrow> bool" where
  "loopback_or_skip plat m port test =
     (case v_bind_loopback plat (le_guids (m_listen m)) (le_vsock (m_listen m)) port of
        Inr listener \<Rightarrow> test listener
      | Inl err \<Rightarrow> is_unavailable plat (OsError err (m_raw_os_error m err)))"

definition TEST_PORT :: u32 where "TEST_PORT = 12345"

definition test_stream_full_cycle :: "platform \<Rightarrow> ('a, 'f, 'l, 'h, 'p, 's) machine \<Rightarrow> sys \<Rightarrow> sys \<Rightarrow> bool" where
  "test_stream_full_cycle plat m sl sr =
     loopback_or_skip plat m TEST_PORT (\<lambda>listener.
       try_join (vsock_accept (m_accept m) listener) (vsock_connect_loopback (m_connect m) TEST_PORT) \<noteq> None
       \<and> asks_and_answers sl sr ''hello from client'' ''hello from server'')"

definition test_stream_split :: "platform \<Rightarrow> ('a, 'f, 'l, 'h, 'p, 's) machine \<Rightarrow> sys \<Rightarrow> sys \<Rightarrow> bool" where
  "test_stream_split plat m sl sr =
     loopback_or_skip plat m (TEST_PORT + 1) (\<lambda>listener.
       (case try_join (vsock_accept (m_accept m) listener) (vsock_connect_loopback (m_connect m) (TEST_PORT + 1)) of
          None \<Rightarrow> False
        | Some (server, stream) \<Rightarrow>
            (case v_split stream of
               (reader, writer) \<Rightarrow> reader = stream \<and> writer = stream \<and> asks_and_answers sl sr ''ping'' ''pong'')))"

text \<open>The tests of \<open>net/conn.rs\<close>.\<close>

definition npipe_server_peer_identity_is_os_reported_client_pid :: "('a, 'f, 'l, 'h, 'p, 's) machine \<Rightarrow> bool" where
  "npipe_server_peer_identity_is_os_reported_client_pid m =
     (case npipe_pair m (''ogurpchik-peerid-test-'' @ show_nat (unat (m_pid m))) of
        None \<Rightarrow> False
      | Some (server, client) \<Rightarrow>
          conn_peer_identity Windows (m_peer m) server = Pid (m_pid m)
          \<and> conn_peer_identity Windows (m_peer m) client = peer_identity.Unknown)"

definition uds_peer_identity_is_os_reported_peer_pid :: "('a, 'f, 'l, 'h, 'p, 's) machine \<Rightarrow> 'f \<Rightarrow> string \<Rightarrow> bool" where
  "uds_peer_identity_is_os_reported_peer_pid m f path =
     (case uds_pair Linux m f path of
        None \<Rightarrow> False
      | Some (server, _) \<Rightarrow> conn_peer_identity Linux (m_peer m) server = Pid (m_pid m))"

definition tcp_peer_identity_is_unknown :: "platform \<Rightarrow> ('a, 'f, 'l, 'h, 'p, 's) machine \<Rightarrow> bool" where
  "tcp_peer_identity_is_unknown plat m =
     (case tcp_pair m of
        None \<Rightarrow> False
      | Some (server, client) \<Rightarrow>
          conn_peer_identity plat (m_peer m) server = peer_identity.Unknown
          \<and> conn_peer_identity plat (m_peer m) client = peer_identity.Unknown)"

definition uds_peer_identity_is_unknown_on_windows :: "('a, 'f, 'l, 'h, 'p, 's) machine \<Rightarrow> 'f \<Rightarrow> string \<Rightarrow> bool" where
  "uds_peer_identity_is_unknown_on_windows m f path =
     (case uds_pair Windows m f path of
        None \<Rightarrow> False
      | Some (server, _) \<Rightarrow> conn_peer_identity Windows (m_peer m) server = peer_identity.Unknown)"

text \<open>The tests of \<open>endpoint.rs\<close> that connect.\<close>

definition tcp_endpoint_listen_connect_roundtrip :: "platform \<Rightarrow> ('a, 'f, 'l, 'h, 'p, 's) machine \<Rightarrow> 'f \<Rightarrow> bool" where
  "tcp_endpoint_listen_connect_roundtrip plat m f =
     (case fst (endpoint_listen plat (m_listen m) f (TcpEndpoint (m_any_port m))) of
        Inr (TcpListener inner) \<Rightarrow>
          (case m_local_addr m inner of
             Inl _ \<Rightarrow> False
           | Inr addr \<Rightarrow>
               (case try_join (listener_accept (m_accept m) (TcpListener inner))
                       (endpoint_connect plat (m_connect m) (TcpEndpoint addr)) of
                  None \<Rightarrow> False
                | Some (server, client) \<Rightarrow> conn_kind server = ''tcp'' \<and> conn_kind client = ''tcp''))
      | _ \<Rightarrow> False)"

definition conventional_npipe_endpoint_roundtrip :: "'f dir_env \<Rightarrow> ('a, 'f, 'l, 'h, 'p, 's) machine \<Rightarrow> 'f \<Rightarrow> bool" where
  "conventional_npipe_endpoint_roundtrip env m f =
     (case for_service Windows env f ''ogurpchik-test'' (''ep-'' @ show_nat (unat (m_pid m))) of
        (Inl _, f) \<Rightarrow> False
      | (Inr endpoint, f) \<Rightarrow>
          (case endpoint_listen Windows (m_listen m) f endpoint of
             (Inl _, f) \<Rightarrow> False
           | (Inr listener, f) \<Rightarrow>
               (case try_join (listener_accept (m_accept m) listener) (endpoint_connect Windows (m_connect m) endpoint) of
                  None \<Rightarrow> False
                | Some (server, client) \<Rightarrow> conn_kind server = ''npipe'' \<and> conn_kind client = ''npipe'')))"

section \<open>They pass\<close>

lemma digits_name: "list_all is_name_char (show_nat n)"
proof (induction n rule: show_nat.induct)
  case (1 n)
  have "is_name_char (digit d)" if "d < 10" for d
    using that by (simp add: is_name_char_def digit_def Let_def)
  with 1 show ?case by (subst show_nat.simps) simp
qed

lemma test_names: "valid_name ''ogurpchik-test''" "valid_name (''ep-'' @ show_nat (unat (pid :: u32)))"
proof -
  show "valid_name ''ogurpchik-test''" by code_simp
  have "length (show_nat (unat pid)) \<le> 10" using length_show_nat [of "unat pid" 10] unat_u32_less [of pid] by simp
  moreover have "list_all is_name_char ''ep-''" by code_simp
  ultimately show "valid_name (''ep-'' @ show_nat (unat pid))" by (simp add: valid_name_def digits_name)
qed

text \<open>
  A machine on which the calls of the tests succeed: files can be made and removed, a socket file
  answers a connection exactly while its listener lives, a connection to a listener is accepted, and
  the kernel reports the process at the other end.
\<close>

locale local_machine = socket_files "le_files (m_listen m)" nodes
  for m :: "('a, 'f, 'l, 'h, 'p, 's) machine" and nodes +
  fixes plat :: platform
  assumes metadata_found: "nodes f p = Some n \<Longrightarrow> \<exists>md. symlink_metadata (le_files (m_listen m)) f p = Inr md"
    and metadata_none: "nodes f p = None \<Longrightarrow> symlink_metadata (le_files (m_listen m)) f p = Inl io_error.NotFound"
    and connect_answer: "nodes f p = Some n \<Longrightarrow> n_socket n
      \<Longrightarrow> unix_connect (le_files (m_listen m)) f p = (if n_live n then Inr () else Inl ConnectionRefused)"
    and bind_works: "nodes f p = None \<Longrightarrow> \<exists>l f'. unix_bind (le_files (m_listen m)) f p = (Inr l, f')"
    and remove_works: "nodes f p = Some n \<Longrightarrow> fst (remove_file (le_files (m_listen m)) f p) = Inr ()"
    and close_leaves: "nodes (m_close m l p f) = (nodes f)(p := map_option (n_live_update (\<lambda>_. False)) (nodes f p))"
    and write_works: "nodes f p = None \<Longrightarrow> \<exists>f' n. m_write m p bs f = (Inr (), f') \<and> nodes f' p = Some n \<and> \<not> n_socket n
      \<and> m_read m f' p = Inr bs"
    and tcp_joins: "\<exists>l a s c. le_tcp_bind (m_listen m) (m_any_port m) = Inr l \<and> m_local_addr m l = Inr a
      \<and> tcp_accept (m_accept m) l = Inr s \<and> tcp_connect (m_connect m) a = Inr c"
    and uds_joins: "unix_bind (le_files (m_listen m)) f p = (Inr l, f') \<Longrightarrow> \<exists>s c. uds_accept (m_accept m) l = Inr s
      \<and> uds_connect (m_connect m) p = Inr c \<and> socket_peercred (m_peer m) s = Inr (m_pid m)"
    and pipe_joins: "\<exists>a s c. npipe_bind (le_pipes (m_listen m)) (le_security (m_listen m)) name = Inr a
      \<and> npipe_accept (m_accept m) a = Inr (Server s) \<and> npipe_connect (m_connect m) name = Inr (Client c)
      \<and> pipe_client_process_id (m_peer m) s = Some (m_pid m)"
    and vsock_joins: "v_bind_loopback plat (le_guids (m_listen m)) (le_vsock (m_listen m)) port = Inr l
      \<Longrightarrow> \<exists>s c. vsock_accept (m_accept m) l = Inr s \<and> vsock_connect_loopback (m_connect m) port = Inr c"
    and vsock_missing: "v_bind_loopback plat (le_guids (m_listen m)) (le_vsock (m_listen m)) port = Inl e
      \<Longrightarrow> is_unavailable plat (OsError e (m_raw_os_error m e))"
begin

lemma tcp_pair_connects: "\<exists>s c. tcp_pair m = Some (Tcp s, Tcp c)"
  using tcp_joins by (auto simp: tcp_pair_def bind_tcp_def connect_tcp_def recontext_def)

lemma npipe_pair_connects:
  "\<exists>s c. npipe_pair m name = Some (Npipe (Server s), Npipe (Client c)) \<and> pipe_client_process_id (m_peer m) s = Some (m_pid m)"
  using pipe_joins [of name] by (auto simp: npipe_pair_def bind_npipe_def connect_npipe_def recontext_def)

lemma bind_after_clear:
  assumes "clear_stale_socket plat' (le_files (m_listen m)) f p = (Inr (), f1)" and "nodes f1 p = None"
  shows "\<exists>l f'. bind_uds plat' (le_files (m_listen m)) f p = (Inr (UdsListener l p (file_identity plat' (le_files (m_listen m)) f' p)), f')
    \<and> unix_bind (le_files (m_listen m)) f1 p = (Inr l, f')"
  using bind_works [OF assms(2)] assms(1) by (auto simp: bind_uds_def)

lemma clear_free: "nodes f p = None \<Longrightarrow> clear_stale_socket plat' (le_files (m_listen m)) f p = (Inr (), f)"
  by (simp add: clear_stale_socket_def metadata_none)

lemma clear_stale:
  assumes "plat' \<noteq> Windows" and "nodes f p = Some n" and "n_socket n" and "\<not> n_live n"
  shows "\<exists>f'. clear_stale_socket plat' (le_files (m_listen m)) f p = (Inr (), f') \<and> nodes f' p = None"
proof -
  obtain md where md: "symlink_metadata (le_files (m_listen m)) f p = Inr md" using metadata_found [OF assms(2)] by blast
  then have "md_socket md" using metadata_of [OF md] assms(2,3) by auto
  moreover obtain r f' where remove: "remove_file (le_files (m_listen m)) f p = (r, f')" by fastforce
  ultimately have "clear_stale_socket plat' (le_files (m_listen m)) f p = (r, f')"
    using assms md connect_answer [OF assms(2,3)] by (simp add: clear_stale_socket_def is_socket_file_def)
  moreover have "r = Inr ()" using remove_works [OF assms(2)] remove by simp
  ultimately show ?thesis using removed [OF remove] by simp
qed

lemma uds_path_free: "nodes (uds_path m f p) p = None"
proof -
  obtain r f' where remove: "remove_file (le_files (m_listen m)) f p = (r, f')" by fastforce
  show ?thesis
    using removed [OF remove] remove_works [of f p] remove
    by (cases r; cases "nodes f p") (auto simp: uds_path_def)
qed

lemma uds_pair_connects:
  assumes "nodes f p = None"
  shows "\<exists>s c l f'. uds_pair plat' m f p = Some (Uds s, Uds c, UdsListener l p (file_identity plat' (le_files (m_listen m)) f' p), f')
    \<and> socket_peercred (m_peer m) s = Inr (m_pid m) \<and> unix_bind (le_files (m_listen m)) f p = (Inr l, f')"
proof -
  obtain l f' where bind: "bind_uds plat' (le_files (m_listen m)) f p
        = (Inr (UdsListener l p (file_identity plat' (le_files (m_listen m)) f' p)) :: ('l, 'h) bound, f')"
      "unix_bind (le_files (m_listen m)) f p = (Inr l, f')"
    using bind_after_clear [OF clear_free [OF assms] assms] by blast
  from uds_joins [OF bind(2)] bind show ?thesis by (auto simp: uds_pair_def connect_uds_def recontext_def)
qed

lemma socket_file_removed:
  assumes "plat' \<noteq> Windows" and "unix_bind (le_files (m_listen m)) f p = (Inr l, f')"
  shows "\<not> path_exists (le_files (m_listen m)) (drop_listener plat' (le_files (m_listen m)) f'
    (UdsListener l p (file_identity plat' (le_files (m_listen m)) f' p))) p"
proof -
  obtain n where n: "nodes f' p = Some n" using bound [OF assms(2)] by auto
  obtain r g where remove: "remove_file (le_files (m_listen m)) f' p = (r, g)" by fastforce
  then have "nodes g p = None" using removed [OF remove] remove_works [OF n] by simp
  moreover obtain md where "symlink_metadata (le_files (m_listen m)) f' p = Inr md" using metadata_found [OF n] by blast
  ultimately show ?thesis
    using assms(1) remove by (simp add: file_identity_def path_exists_def metadata_none)
qed

text \<open>The tests that only connect.\<close>

lemma connection_tests_pass:
  "tcp_ping_pong_through_conn_enum m sl sr" "npipe_ping_pong_through_conn_enum m sl sr"
  "npipe_server_peer_identity_is_os_reported_client_pid m" "tcp_peer_identity_is_unknown plat' m"
proof -
  obtain s c where tcp: "tcp_pair m = Some (Tcp s, Tcp c)" using tcp_pair_connects by blast
  then show "tcp_ping_pong_through_conn_enum m sl sr"
    by (simp add: tcp_ping_pong_through_conn_enum_def ping_pong_passes)
  from tcp show "tcp_peer_identity_is_unknown plat' m" by (cases plat') (simp_all add: tcp_peer_identity_is_unknown_def)
  show "npipe_ping_pong_through_conn_enum m sl sr"
    using npipe_pair_connects [of "''ogurpchik-net-conn-test-'' @ show_nat (unat (m_pid m))"]
    by (auto simp: npipe_ping_pong_through_conn_enum_def ping_pong_passes)
  show "npipe_server_peer_identity_is_os_reported_client_pid m"
    using npipe_pair_connects [of "''ogurpchik-peerid-test-'' @ show_nat (unat (m_pid m))"]
    by (auto simp: npipe_server_peer_identity_is_os_reported_client_pid_def npipe_client_pid_def)
qed

lemma vsock_tests_pass:
  "vsock_ping_pong_through_conn_enum plat m sl sr" "test_stream_full_cycle plat m sl sr" "test_stream_split plat m sl sr"
  using vsock_joins vsock_missing
  by (auto simp: vsock_ping_pong_through_conn_enum_def test_stream_full_cycle_def test_stream_split_def loopback_or_skip_def
      connect_vsock_loopback_def recontext_def ping_pong_passes exchange_passes v_split_def split: sum.split dest: vsock_joins)

lemma uds_connection_tests_pass:
  assumes "nodes f p = None"
  shows "plat' \<noteq> Windows \<Longrightarrow> uds_ping_pong_through_conn_enum plat' m f p sl sr"
    and "uds_peer_identity_is_os_reported_peer_pid m f p" and "uds_peer_identity_is_unknown_on_windows m f p"
proof -
  show "uds_ping_pong_through_conn_enum plat' m f p sl sr" if "plat' \<noteq> Windows"
    using uds_pair_connects [OF assms, of plat'] socket_file_removed [OF that, of f p]
    by (auto simp: uds_ping_pong_through_conn_enum_def ping_pong_passes)
  show "uds_peer_identity_is_os_reported_peer_pid m f p"
    using uds_pair_connects [OF assms, of Linux]
    by (auto simp: uds_peer_identity_is_os_reported_peer_pid_def linux_uds_peer_pid_def)
  show "uds_peer_identity_is_unknown_on_windows m f p"
    using uds_pair_connects [OF assms, of Windows] by (auto simp: uds_peer_identity_is_unknown_on_windows_def)
qed

text \<open>The tests that find something at the path.\<close>

lemma stale_socket_passes:
  assumes "plat' \<noteq> Windows"
  shows "uds_rebind_over_a_stale_socket_succeeds plat' m f p"
proof -
  let ?ops = "le_files (m_listen m)"
  obtain l f1 where bind: "unix_bind ?ops (uds_path m f p) p = (Inr l, f1)" using bind_works [OF uds_path_free] by blast
  then obtain n where n: "nodes f1 p = Some n" "n_socket n" using bound by fastforce
  let ?f2 = "m_close m l p f1"
  have stale: "nodes ?f2 p = Some (n\<lparr>n_live := False\<rparr>)" using n by (simp add: close_leaves)
  then obtain f3 where "clear_stale_socket plat' ?ops ?f2 p = (Inr (), f3)" "nodes f3 p = None"
    using clear_stale [OF assms stale] n by auto
  from bind_after_clear [OF this] have "\<exists>l f'. bind_uds plat' ?ops ?f2 p = (Inr l :: ('l, 'h) bound, f')" by blast
  moreover have "path_exists ?ops ?f2 p" using metadata_found [OF stale] by (auto simp: path_exists_def)
  ultimately show ?thesis using bind by (auto simp: uds_rebind_over_a_stale_socket_succeeds_def)
qed

lemma regular_file_passes:
  assumes "plat' \<noteq> Windows"
  shows "uds_bind_leaves_a_regular_file_alone plat' m f p"
proof -
  let ?ops = "le_files (m_listen m)"
  obtain f2 n where f2: "m_write m p (as_bytes ''not a socket'') (uds_path m f p) = (Inr (), f2)" "nodes f2 p = Some n"
    "\<not> n_socket n" "m_read m f2 p = Inr (as_bytes ''not a socket'')"
    using write_works [OF uds_path_free] by blast
  obtain md where md: "symlink_metadata ?ops f2 p = Inr md" using metadata_found [OF f2(2)] by blast
  then have "\<not> md_socket md" using metadata_of [OF md] f2(2,3) by auto
  then have "bind_uds plat' ?ops f2 p = (Inl (Report Bind [Text (''uds '' @ p)]) :: ('l, 'h) bound, f2)"
    using md assms by (simp add: bind_uds_def clear_stale_socket_def is_socket_file_def)
  then show ?thesis
    using f2 remove_works [OF f2(2)] by (simp add: uds_bind_leaves_a_regular_file_alone_def Let_def)
qed

lemma live_socket_passes:
  assumes "plat' \<noteq> Windows"
  shows "uds_bind_refuses_a_live_socket_and_keeps_it plat' m f p sl sr"
proof -
  let ?ops = "le_files (m_listen m)"
  obtain l f1 where first: "bind_uds plat' ?ops (uds_path m f p) p
      = (Inr (UdsListener l p (file_identity plat' ?ops f1 p)) :: ('l, 'h) bound, f1)"
    and bind: "unix_bind ?ops (uds_path m f p) p = (Inr l, f1)"
    using bind_after_clear [OF clear_free [OF uds_path_free] uds_path_free] by blast
  then obtain n where n: "nodes f1 p = Some n" "n_live n" using bound by fastforce
  then have "\<exists>e f'. bind_uds plat' ?ops f1 p = (Inl e :: ('l, 'h) bound, f')"
    using bind_uds_spec [OF assms, of f1 p] by (metis prod.exhaust)
  then show ?thesis
    using first uds_joins [OF bind]
    by (auto simp: uds_bind_refuses_a_live_socket_and_keeps_it_def connect_uds_def recontext_def ping_pong_passes Let_def)
qed

lemma endpoint_tests_pass:
  "tcp_endpoint_listen_connect_roundtrip plat' m f" "conventional_npipe_endpoint_roundtrip env m f"
proof -
  show "tcp_endpoint_listen_connect_roundtrip plat' m f"
    using tcp_joins by (auto simp: tcp_endpoint_listen_connect_roundtrip_def bind_tcp_def connect_tcp_def recontext_def)
  let ?service = "''ep-'' @ show_nat (unat (m_pid m))"
  let ?name = "PIPE_PREFIX @ ''ogurpchik-test'' @ CHR ''.'' # ?service"
  have "validate_name (str_debug env) ''ogurpchik-test'' = Inr ()" "validate_name (str_debug env) ?service = Inr ()"
    by (simp_all only: validate_name_iff test_names)
  then have named: "for_service Windows env f ''ogurpchik-test'' ?service = (Inr (NpipeEndpoint ?name), f)"
    unfolding for_service_def by (simp only: sum.case simp_thms if_True)
  obtain a s c where "npipe_bind (le_pipes (m_listen m)) (le_security (m_listen m)) ?name = Inr a"
    "npipe_accept (m_accept m) a = Inr (Server s)" "npipe_connect (m_connect m) ?name = Inr (Client c)"
    using pipe_joins [of ?name] by blast
  then show "conventional_npipe_endpoint_roundtrip env m f"
    unfolding conventional_npipe_endpoint_roundtrip_def named by (simp add: bind_npipe_def connect_npipe_def recontext_def)
qed

end

section \<open>A machine\<close>

text \<open>The files of \<open>Listener\<close> with their contents; every call is answered as the tests need it.\<close>

record machine_fs = map_fs + contents :: "string \<Rightarrow> bytes option"

definition sample_vsock :: "(nat, nat) vsock_os" where
  "sample_vsock =
     \<lparr>socket_new = Inr 3, socket_bind = (\<lambda>_ _. Inr ()), socket_listen = (\<lambda>_. Inr ()), submit_connect = (\<lambda>_ _. Inr ()),
      attach_socket = Inr, accept_into_addr = (\<lambda>_. Inr (1, 0)), update_accept_context = (\<lambda>_. Inr ())\<rparr>"

definition sample_machine :: "guid_ops \<Rightarrow> (nat, machine_fs, nat, nat, nat, nat) machine" where
  "sample_machine gs =
     \<lparr>m_listen = \<lparr>le_addr_fmt = show_nat, le_tcp_bind = Inr, le_files = map_fs_ops, le_pipes = (\<lambda>_ _. Inr 0),
        le_security = sample_security, le_guids = gs, le_vsock = sample_vsock\<rparr>,
      m_accept = \<lparr>tcp_accept = (\<lambda>_. Inr 1), uds_accept = (\<lambda>_. Inr 1), npipe_accept = (\<lambda>_. Inr (Server 1)),
        vsock_accept = (\<lambda>_. Inr 1)\<rparr>,
      m_connect = \<lparr>addr_text = show_nat, tcp_connect = (\<lambda>_. Inr 2), uds_connect = (\<lambda>_. Inr 2),
        npipe_connect = npipe_open (\<lambda>_. Inr 2), vsock_connect = (\<lambda>_ _. Inr 2), vsock_connect_loopback = (\<lambda>_. Inr 2)\<rparr>,
      m_peer = \<lparr>pipe_client_process_id = (\<lambda>_. Some 42), socket_peercred = (\<lambda>_. Inr 42)\<rparr>,
      m_any_port = 0, m_local_addr = (\<lambda>_. Inr 4242),
      m_close = (\<lambda>_ p f. f\<lparr>fs_nodes := (fs_nodes f)(p := map_option (n_live_update (\<lambda>_. False)) (fs_nodes f p))\<rparr>),
      m_write = (\<lambda>p bs f. (Inr (), f\<lparr>fs_nodes := (fs_nodes f)(p \<mapsto> \<lparr>n_socket = False, n_live = False, n_id = (1, 0)\<rparr>),
        contents := (contents f)(p \<mapsto> bs)\<rparr>)),
      m_read = (\<lambda>f p. case contents f p of None \<Rightarrow> Inl io_error.NotFound | Some bs \<Rightarrow> Inr bs),
      m_raw_os_error = (\<lambda>_. None), m_pid = 42\<rparr>"

lemma sample_machine_files [simp]: "le_files (m_listen (sample_machine gs)) = map_fs_ops"
  by (simp add: sample_machine_def)

interpretation test_machine: local_machine "sample_machine gs" fs_nodes Linux for gs
proof (intro local_machine.intro local_machine_axioms.intro)
  show "socket_files (le_files (m_listen (sample_machine gs))) fs_nodes"
    by (simp add: map_files.socket_files_axioms)
qed (auto simp: map_fs_ops_def sample_machine_def sample_vsock_def npipe_open_def npipe_bind_def create_server_def
      sample_security_ok vsock_listener_bind_loopback_def bind_internal_def Let_def)

end
