(* ===== verification/Npipe_Tests.thy ===== *)
theory Npipe_Tests
  imports Transport_Tests "HOL-Library.Monad_Syntax"
begin

text \<open>
  The unit tests of \<open>src/src/net/npipe.rs\<close>, on the instances of one pipe: the acceptor makes them and a
  client takes one that has no client yet. Which one is up to the system (\<open>pick\<close>); the tests count on
  the one that waits longest. Bytes written to an instance reach the server of that instance only.
\<close>

section \<open>The tests\<close>

definition bind_pipe :: "security_api \<Rightarrow> string \<Rightarrow> npipe_world option" where
  "bind_pipe api name =
     (case npipe_bind (\<lambda>_ _. Inr 0) api name of
        Inl _ \<Rightarrow> None
      | Inr a \<Rightarrow> Some \<lparr>acceptor = a, created = 1, clients = {}, handed = [], waiting = False\<rparr>)"

text \<open>The first poll of \<open>accept\<close>; a later one, which is \<open>None\<close> while it is pending; dropping it.\<close>

definition start_accept :: "security_api \<Rightarrow> npipe_world \<Rightarrow> npipe_world option" where
  "start_accept api w =
     (case accept_prepare (\<lambda>_ _. Inr (created w)) api (acceptor w) of
        (Inl _, _) \<Rightarrow> None
      | (Inr _, a) \<Rightarrow>
          Some (w\<lparr>acceptor := a, waiting := True,
                  created := created w + (if named_pipe_acceptor.spare (acceptor w) = None then 1 else 0)\<rparr>))"

definition poll_accept :: "npipe_world \<Rightarrow> (nat \<times> npipe_world) option" where
  "poll_accept w =
     (if \<not> waiting w \<or> listening (acceptor w) \<notin> clients w then None
      else (case accept_connected (Inr ()) (acceptor w) of
              (Some (Inr (Server h)), a) \<Rightarrow> Some (h, w\<lparr>acceptor := a, handed := handed w @ [h], waiting := False\<rparr>)
            | _ \<Rightarrow> None))"

definition drop_accept :: "npipe_world \<Rightarrow> npipe_world" where
  "drop_accept w = w\<lparr>waiting := False\<rparr>"

definition connect_pipe :: "(nat list \<Rightarrow> nat) \<Rightarrow> string \<Rightarrow> npipe_world \<Rightarrow> (nat \<times> npipe_world) option" where
  "connect_pipe pick endpoint w =
     (let free = filter (\<lambda>h. h \<notin> clients w) (held (acceptor w)) in
      if named_pipe_path_new endpoint \<noteq> npa_path (acceptor w) \<or> free = [] then None
      else Some (pick free, w\<lparr>clients := insert (pick free) (clients w)\<rparr>))"

definition accept_pipe :: "security_api \<Rightarrow> npipe_world \<Rightarrow> (nat \<times> npipe_world) option" where
  "accept_pipe api w = do { w \<leftarrow> start_accept api w; poll_accept w }"

definition expires :: "security_api \<Rightarrow> npipe_world \<Rightarrow> npipe_world option" where
  "expires api w = do { w \<leftarrow> start_accept api w; if poll_accept w = None then Some (drop_accept w) else None }"

text \<open>\<open>try_join!(accept, connect)\<close>\<close>

definition accept_and_connect :: "security_api \<Rightarrow> (nat list \<Rightarrow> nat) \<Rightarrow> string \<Rightarrow> npipe_world
    \<Rightarrow> (nat \<times> nat \<times> npipe_world) option" where
  "accept_and_connect api pick endpoint w =
     do { w \<leftarrow> start_accept api w;
          (client, w) \<leftarrow> connect_pipe pick endpoint w;
          (server, w) \<leftarrow> poll_accept w;
          Some (server, client, w) }"

definition sends :: "sys \<Rightarrow> sys \<Rightarrow> string \<Rightarrow> nat \<Rightarrow> nat \<Rightarrow> bool" where
  "sends sl sr text server client \<longleftrightarrow>
     server = client
     \<and> ends_with sl sr (read_expecting (as_bytes text) (Ret (Inr ())), write_all (as_bytes text) (Ret (Inr ())), [], [])
         (Inr ()) (Inr ())"

definition exchange :: "sys \<Rightarrow> sys \<Rightarrow> nat \<Rightarrow> nat \<Rightarrow> bool" where
  "exchange sl sr server client = sends sl sr ''ping'' server client"

definition pipe_name :: "u32 \<Rightarrow> string \<Rightarrow> string" where
  "pipe_name pid name = ''ogurpchik-net-test-'' @ show_nat (unat pid) @ ''-'' @ name"

definition test_named_pipe_roundtrip :: "security_api \<Rightarrow> (nat list \<Rightarrow> nat) \<Rightarrow> u32 \<Rightarrow> sys \<Rightarrow> sys \<Rightarrow> bool" where
  "test_named_pipe_roundtrip api pick pid sl sr \<longleftrightarrow>
     do { w \<leftarrow> bind_pipe api (pipe_name pid ''roundtrip'');
          (server, client, w) \<leftarrow> accept_and_connect api pick (npipe_local_addr (acceptor w)) w;
          Some (server = client \<and> asks_and_answers sl sr ''ping'' ''pong'') } = Some True"

fun reuse_rounds :: "security_api \<Rightarrow> (nat list \<Rightarrow> nat) \<Rightarrow> sys \<Rightarrow> sys \<Rightarrow> string \<Rightarrow> string list \<Rightarrow> npipe_world \<Rightarrow> bool" where
  "reuse_rounds api pick sl sr endpoint [] w = True"
| "reuse_rounds api pick sl sr endpoint (expected # later) w =
     (case accept_and_connect api pick endpoint w of
        None \<Rightarrow> False
      | Some (server, client, w) \<Rightarrow> sends sl sr expected server client \<and> reuse_rounds api pick sl sr endpoint later w)"

definition test_named_pipe_reuses_listener :: "security_api \<Rightarrow> (nat list \<Rightarrow> nat) \<Rightarrow> u32 \<Rightarrow> sys \<Rightarrow> sys \<Rightarrow> bool" where
  "test_named_pipe_reuses_listener api pick pid sl sr =
     (case bind_pipe api (pipe_name pid ''reuse'') of
        None \<Rightarrow> False
      | Some w \<Rightarrow> reuse_rounds api pick sl sr (npipe_local_addr (acceptor w)) [''one1'', ''two2''] w)"

definition an_accept_dropped_mid_wait_loses_no_client ::
  "security_api \<Rightarrow> (nat list \<Rightarrow> nat) \<Rightarrow> u32 \<Rightarrow> sys \<Rightarrow> sys \<Rightarrow> bool" where
  "an_accept_dropped_mid_wait_loses_no_client api pick pid sl sr \<longleftrightarrow>
     do { w \<leftarrow> bind_pipe api (pipe_name pid ''cancel'');
          let endpoint = npipe_local_addr (acceptor w);
          w \<leftarrow> expires api w;
          (client1, w) \<leftarrow> connect_pipe pick endpoint w;
          (server1, w) \<leftarrow> accept_pipe api w;
          w \<leftarrow> expires api w;
          (server2, client2, w) \<leftarrow> accept_and_connect api pick endpoint w;
          w \<leftarrow> start_accept api w;
          let pending = (poll_accept w = None);
          (client3, w) \<leftarrow> connect_pipe pick endpoint w;
          (server3, w) \<leftarrow> accept_pipe api (drop_accept w);
          Some (exchange sl sr server1 client1 \<and> exchange sl sr server2 client2 \<and> pending \<and> exchange sl sr server3 client3)
        } = Some True"

section \<open>They pass\<close>

lemma sends_passes: "sends sl sr text h h"
proof -
  let ?t = "as_bytes text" and ?done = "Ret (Inr ()) :: (io_error + unit) io"
  have 1: "step sl sr (read_expecting ?t ?done, write_all ?t ?done, [], []) (read_expecting ?t ?done, ?done, ?t, [])"
    using right_step [of sr "write_all ?t ?done" "[]" "read_expecting ?t ?done" ?done "[]" ?t sl "[]"]
    by (simp add: write_all_def)
  have 2: "step sl sr (read_expecting ?t ?done, ?done, ?t, []) (?done, ?done, [], [])"
    using left_step [of sl "read_expecting ?t ?done" ?t ?done ?done "[]" "[]" sr "[]"]
    by (simp add: read_expecting_def deliver_def)
  have "ends_with sl sr (read_expecting ?t ?done, write_all ?t ?done, [], []) (Inr ()) (Inr ())"
    by (rule ends_withI, (rule converse_rtranclp_into_rtranclp, rule 1 2)+, rule rtranclp.rtrancl_refl)
  then show ?thesis by (simp add: sends_def)
qed

lemmas pipe_steps = bind_pipe_def npipe_bind_def create_server_def start_accept_def accept_prepare_def poll_accept_def
  accept_connected_def drop_accept_def connect_pipe_def accept_pipe_def expires_def accept_and_connect_def held_def
  npipe_local_addr_def pipe_names_normal

lemma pipe_tests_pass:
  assumes "fst (apply_pipe_security api) = Inr ()" and "\<And>h hs. pick (h # hs) = h"
  shows "test_named_pipe_roundtrip api pick pid sl sr" "test_named_pipe_reuses_listener api pick pid sl sr"
    "an_accept_dropped_mid_wait_loses_no_client api pick pid sl sr"
  using assms
  by (simp_all add: test_named_pipe_roundtrip_def test_named_pipe_reuses_listener_def
      an_accept_dropped_mid_wait_loses_no_client_def exchange_def sends_passes exchange_passes pipe_steps Let_def)

text \<open>
  The order matters: were a client given the spare instance, the next accept would wait on the other one
  and the client would not be handed out.
\<close>

lemma spare_client_waits: "\<not> an_accept_dropped_mid_wait_loses_no_client sample_security last pid sl sr"
  by (simp add: an_accept_dropped_mid_wait_loses_no_client_def pipe_steps sample_security_ok Let_def)

lemma pipe_tests_pass_here: "an_accept_dropped_mid_wait_loses_no_client sample_security hd pid sl sr"
  by (rule pipe_tests_pass) (simp_all add: sample_security_ok)

end
