(* ===== verification/Acceptor_Loop.thy ===== *)
theory Acceptor_Loop
  imports Session
begin

text \<open>
  The loop of \<open>SessionAcceptor::next\<close> (\<open>src/src/rpc/acceptor.rs\<close>) as a function of what its polls find.
  \<open>future::select\<close> polls the accept before the handshakes, and these are looked at only when it is not
  ready. Every run of the loop is one of the histories of \<open>Session\<close>, so what holds of those holds of it.
\<close>

section \<open>The loop\<close>

text \<open>
  What a poll finds ready: the accept under way, and the handshake of a connection with its outcome,
  which counts only while that handshake is pending.
\<close>

record 's poll =
  ready_accept :: "(transport_error report + 's conn) option"
  ready_handshake :: "('s conn \<times> ('s conn \<times> version option) option) option"

definition select_step :: "'s poll \<Rightarrow> 's session_acceptor \<Rightarrow> ('s accept_step \<times> 's session_acceptor) option" where
  "select_step p a =
     (case ready_accept p of
        Some accepted \<Rightarrow> Some (Accepted accepted, a)
      | None \<Rightarrow>
          (case ready_handshake p of
             Some (conn, settled) \<Rightarrow>
               if conn \<in># pending a then Some (Settled settled, a\<lparr>pending := pending a - {#conn#}\<rparr>) else None
           | None \<Rightarrow> None))"

text \<open>The result, if the polls lead to one, with the acceptor and the polls that are left.\<close>

fun acceptor_next :: "('s conn, 'r) bootstrap \<Rightarrow> 's poll list \<Rightarrow> 's session_acceptor
    \<Rightarrow> (rpc_error report + ('s conn, 'r) rpc_session) option \<times> 's session_acceptor \<times> 's poll list" where
  "acceptor_next bootstrap [] a = (None, begin_turn a, [])"
| "acceptor_next bootstrap (p # ps) a =
     (let a = begin_turn a in
      case select_step p a of
        None \<Rightarrow> acceptor_next bootstrap ps a
      | Some (settled, a) \<Rightarrow>
          (case end_turn bootstrap settled a of
             (Return result, a) \<Rightarrow> (Some result, a, ps)
           | (Again, a) \<Rightarrow> acceptor_next bootstrap ps a))"

section \<open>It runs the histories of the acceptor\<close>

definition genuine :: "('k, 'g, 's) hs_env \<Rightarrow> 's session_acceptor \<Rightarrow> 's poll \<Rightarrow> bool" where
  "genuine env a p = (case ready_handshake p of None \<Rightarrow> True | Some (conn, settled) \<Rightarrow> settles env a conn settled)"

lemma end_turn_settings:
  "end_turn bootstrap settled a = (t, a') \<Longrightarrow> sa_mode a' = sa_mode a \<and> sa_protocol a' = sa_protocol a"
  by (auto simp: end_turn_def recontext_def Let_def split: accept_step.splits sum.splits option.splits if_splits)

lemma acceptor_run_settings:
  "acceptor_run env bootstrap a0 es a \<Longrightarrow> sa_mode a = sa_mode a0 \<and> sa_protocol a = sa_protocol a0"
  by (induction rule: acceptor_run.induct) (auto simp: begin_turn_def dest: end_turn_settings)

lemma settles_settings:
  "settles env a conn r \<Longrightarrow> sa_mode a' = sa_mode a \<Longrightarrow> sa_protocol a' = sa_protocol a \<Longrightarrow> settles env a' conn r"
  by (induction rule: settles.induct) (auto intro: settles.intros)

lemma genuine_now:
  assumes "genuine env a0 p" and "acceptor_run env bootstrap a0 es a" and "ready_handshake p = Some (conn, settled)"
  shows "settles env a conn settled"
  using assms(1,3) acceptor_run_settings [OF assms(2)] by (auto simp: genuine_def intro: settles_settings)

text \<open>A turn of the loop is one event of a history, or two when a connection is turned away.\<close>

lemma turn_runs:
  assumes run: "acceptor_run env bootstrap a0 es a" and "accepting a" and "genuine env a0 p"
    and "select_step p a = Some (settled, a1)" and "end_turn bootstrap settled a1 = (t, a2)"
  shows "\<exists>es'. acceptor_run env bootstrap a0 (es @ es') a2
    \<and> (\<forall>session. t = Return (Inr session) \<longrightarrow> (\<exists>conn. last es' = Handed_out conn session \<and> es' \<noteq> []))"
proof (cases "ready_accept p")
  case (Some accepted)
  then have step: "settled = Accepted accepted" "a1 = a" using assms(4) by (auto simp: select_step_def)
  show ?thesis
  proof (cases accepted)
    case (Inl report)
    then obtain report' where "t = Return (Inl report')"
      using assms(5) step by (auto simp: end_turn_def recontext_def Let_def)
    with acc_failed [OF run assms(2), of report report' a2] assms(5) step Inl show ?thesis by auto
  next
    case (Inr conn)
    then have "t = Again" using assms(5) step by (auto simp: end_turn_def recontext_def Let_def split: if_splits)
    with acc_accepted [OF run assms(2), of conn a2] assms(5) step Inr show ?thesis by auto
  qed
next
  case None
  then obtain conn outcome where conn: "ready_handshake p = Some (conn, outcome)" "conn \<in># pending a"
      "settled = Settled outcome" "a1 = a\<lparr>pending := pending a - {#conn#}\<rparr>"
    using assms(4) by (auto simp: select_step_def split: option.splits if_splits)
  note settles = genuine_now [OF assms(3) run conn(1)]
  show ?thesis
  proof (cases outcome)
    case None
    then have "t = Again" using assms(5) conn by (simp add: end_turn_def)
    with acc_gone [OF run conn(2), of a2] settles assms(5) conn None show ?thesis by auto
  next
    case (Some passed)
    then obtain session where "t = Return (Inr session)" using assms(5) conn by (cases passed) (auto simp: end_turn_def)
    with acc_passed [OF run conn(2), of passed session a2] settles assms(5) conn Some show ?thesis by auto
  qed
qed

lemma acceptor_next_runs:
  assumes "acceptor_run env bootstrap a0 es a" and "\<forall>p \<in> set ps. genuine env a0 p"
    and "acceptor_next bootstrap ps a = (result, a', rest)"
  shows "\<exists>es'. acceptor_run env bootstrap a0 (es @ es') a'
    \<and> (\<forall>session. result = Some (Inr session) \<longrightarrow> (\<exists>conn. last es' = Handed_out conn session \<and> es' \<noteq> []))"
  using assms
proof (induction ps arbitrary: es a)
  case Nil
  then show ?case using acc_begin by (intro exI [of _ "[]"]) auto
next
  case (Cons p ps)
  let ?a = "begin_turn a"
  have begun: "acceptor_run env bootstrap a0 es ?a" using Cons.prems(1) by (rule acc_begin)
  have later: "\<exists>es'. acceptor_run env bootstrap a0 (es1 @ es') a'
      \<and> (\<forall>session. result = Some (Inr session) \<longrightarrow> (\<exists>conn. last es' = Handed_out conn session \<and> es' \<noteq> []))"
    if "acceptor_run env bootstrap a0 es1 b" "acceptor_next bootstrap ps b = (result, a', rest)" for es1 b
    using Cons.IH [OF that(1) _ that(2)] Cons.prems(2) by simp
  show ?case
  proof (cases "select_step p ?a")
    case None
    then show ?thesis using later [OF begun] Cons.prems(3) by simp
  next
    case (Some x)
    then obtain settled a1 where sel: "select_step p ?a = Some (settled, a1)" by (cases x) auto
    obtain t a2 where ended: "end_turn bootstrap settled a1 = (t, a2)" by fastforce
    obtain es1 where es1: "acceptor_run env bootstrap a0 (es @ es1) a2"
        "\<forall>session. t = Return (Inr session) \<longrightarrow> (\<exists>conn. last es1 = Handed_out conn session \<and> es1 \<noteq> [])"
      using turn_runs [OF begun _ _ sel ended] Cons.prems(2) by (auto simp: begin_turn_def)
    show ?thesis
    proof (cases t)
      case Again
      then have "acceptor_next bootstrap ps a2 = (result, a', rest)" using Cons.prems(3) sel ended by simp
      from later [OF es1(1) this] obtain es2 where "acceptor_run env bootstrap a0 (es @ es1 @ es2) a'"
          "\<forall>session. result = Some (Inr session) \<longrightarrow> (\<exists>conn. last es2 = Handed_out conn session \<and> es2 \<noteq> [])" by auto
      then show ?thesis by (intro exI [of _ "es1 @ es2"]) auto
    next
      case (Return r)
      then have "result = Some r" "a' = a2" using Cons.prems(3) sel ended by auto
      then show ?thesis using es1 Return by (intro exI [of _ es1]) auto
    qed
  qed
qed

section \<open>Properties\<close>

lemma next_returns_when_passed:
  assumes "ready_accept p = None" and "ready_handshake p = Some (conn, Some (conn, version))" and "conn \<in># pending a"
  shows "fst (acceptor_next bootstrap (p # ps) a)
    = Some (Inr ((spawn_session bootstrap conn side.Server)\<lparr>peer_version := version\<rparr>))"
  using assms by (simp add: select_step_def begin_turn_def end_turn_def)

text \<open>C5: The loop of the acceptor implements its histories. At any point of a history, so on the first
  call of \<open>next\<close> and on every later one, and whatever its polls find, the call continues that history; a
  session it returns is the last one the history hands out, on a
  connection whose handshake passed and with the version that handshake gave; never more handshakes are pending than allowed; and a handshake
  that has passed is returned by the first poll that finds no further connection to accept.\<close>

theorem acceptor_loop_hands_out:
  fixes n mode protocol
  defines "a0 \<equiv> set_max_pending n (acceptor_new mode protocol)"
  assumes "acceptor_run env bootstrap a0 before a"
    and "\<forall>p \<in> set ps. genuine env a0 p" and "acceptor_next bootstrap ps a = (result, a', rest)"
  shows "(\<exists>es. acceptor_run env bootstrap a0 (before @ es) a'
      \<and> (\<forall>session. result = Some (Inr session) \<longrightarrow> (\<exists>conn. es \<noteq> [] \<and> last es = Handed_out conn session
           \<and> passed_session env bootstrap mode protocol conn session)))
    \<and> size (pending a') \<le> max n 1
    \<and> (\<forall>p conn version. ready_accept p = None \<and> ready_handshake p = Some (conn, Some (conn, version)) \<and> conn \<in># pending a'
        \<longrightarrow> fst (acceptor_next bootstrap [p] a')
              = Some (Inr ((spawn_session bootstrap conn side.Server)\<lparr>peer_version := version\<rparr>)))"
proof -
  obtain es where run: "acceptor_run env bootstrap a0 (before @ es) a'"
      "\<forall>session. result = Some (Inr session) \<longrightarrow> (\<exists>conn. last es = Handed_out conn session \<and> es \<noteq> [])"
    using acceptor_next_runs [OF assms(2-4)] by auto
  have inv: "acceptor_inv env bootstrap mode protocol (max n 1) (before @ es) a'"
    using acceptor_run_inv run(1) unfolding a0_def by blast
  then have "\<exists>conn. es \<noteq> [] \<and> last es = Handed_out conn session \<and> passed_session env bootstrap mode protocol conn session"
    if "result = Some (Inr session)" for session
    using run(2) that by (metis acceptor_inv_def last_in_set Un_iff set_append)
  moreover have "size (pending a') \<le> max n 1" using inv by (simp add: acceptor_inv_def)
  ultimately show ?thesis using run(1) next_returns_when_passed by blast
qed

theorem acceptor_loop_hands_out_witness:
  "\<exists>session a'. acceptor_next (\<lambda>_ _. ())
       [\<lparr>ready_accept = Some (Inr (Tcp 3)), ready_handshake = None\<rparr>,
        \<lparr>ready_accept = None, ready_handshake = Some (Tcp 3, Some (Tcp 3, None))\<rparr>]
       (set_max_pending 1 (acceptor_new Disabled (protocol_new 7 1 0 0))) = (Some (Inr session), a', [])
     \<and> (\<exists>conn. passed_session (sample_env hmac) (\<lambda>_ _. ()) Disabled (protocol_new 7 1 0 0) conn session)"
proof -
  let ?b = "\<lambda>_ _. () :: unit" and ?a = "set_max_pending 1 (acceptor_new Disabled (protocol_new 7 1 0 0))"
  let ?ps = "[\<lparr>ready_accept = Some (Inr (Tcp 3)), ready_handshake = None\<rparr>,
    \<lparr>ready_accept = None, ready_handshake = Some (Tcp 3, Some (Tcp 3, None))\<rparr>] :: nat poll list"
  have "settles (sample_env hmac) ?a (Tcp 3) (Some (Tcp 3, None))"
    by (rule settled_passed [of _ _ _ "[]"])
      (simp add: set_max_pending_def acceptor_new_def authenticate_server_def attested_pid_def bind_ok_def)
  then have "\<forall>p \<in> set ?ps. genuine (sample_env hmac) ?a p" by (simp add: genuine_def)
  moreover obtain session a' where "acceptor_next ?b ?ps ?a = (Some (Inr session), a', [])"
    by (simp add: select_step_def begin_turn_def end_turn_def recontext_def set_max_pending_def acceptor_new_def)
  ultimately show ?thesis using acceptor_loop_hands_out [OF acc_start, of ?ps "sample_env hmac" 1 Disabled "protocol_new 7 1 0 0" ?b] by blast
qed

end
