(* ===== verification/Vsock_Ping.thy ===== *)
theory Vsock_Ping
  imports Session
begin

text \<open>
  The example \<open>src/examples/vsock_ping.rs\<close>: a program that waits for a peer on a vsock port or connects to
  one, with the library in between. The arguments decide the role and the endpoint; the handshake and the
  session are those of the library. The call over \<open>capnp\<close> is the reply its service computes.
\<close>

section \<open>The program\<close>

definition PING_SCHEMA :: protocol where
  "PING_SCHEMA = protocol_new 0xec40 1 0 0"

definition ping_handshake :: handshake_mode where
  "ping_handshake = mode_hmac (as_bytes ''wsl-vsock-test'')"

definition ping_reply :: "platform \<Rightarrow> string \<Rightarrow> string" where
  "ping_reply plat msg =
     (let who = (if plat = Windows then ''windows host'' else ''wsl guest'') in who @ '' echo: '' @ msg)"

text \<open>\<open>str::parse::<u32>\<close>\<close>

definition parse_u32 :: "string \<Rightarrow> u32 option" where
  "parse_u32 s =
     (let ds = map of_char (case s of [] \<Rightarrow> [] | c # r \<Rightarrow> if c = CHR ''+'' then r else s) :: nat list;
          n = foldl (\<lambda>n d. 10 * n + (d - 48)) 0 ds
      in if ds = [] \<or> \<not> list_all (\<lambda>d. 48 \<le> d \<and> d \<le> 57) ds \<or> 2 ^ 32 \<le> n then None
         else Some (word_of_nat n))"

datatype 'a ping_role = Listen "'a endpoint" | ConnectTo "'a endpoint"

text \<open>\<open>Inl\<close> is a panic with its message.\<close>

definition ping_usage :: string where
  "ping_usage = ''usage: vsock_ping --listen|--connect <port>''"

definition ping_connect_endpoint :: "platform \<Rightarrow> vm_env \<Rightarrow> u32 \<Rightarrow> string + 'a endpoint" where
  "ping_connect_endpoint plat vms port =
     (if plat = Windows then
        (case vsock_to_wsl vms port of
           Inl _ \<Rightarrow> Inl ''failed to resolve the WSL VM''
         | Inr endpoint \<Rightarrow> Inr endpoint)
      else Inr (vsock_to_host port))"

definition ping_role :: "platform \<Rightarrow> vm_env \<Rightarrow> string list \<Rightarrow> string + 'a ping_role" where
  "ping_role plat vms args =
     (if length args < 2 then Inl ping_usage
      else
        let mode = args ! 1 in
        (case (if 2 < length args then parse_u32 (args ! 2) else None) of
           None \<Rightarrow> Inl ''port must be a number''
         | Some port \<Rightarrow>
             if mode = ''--listen'' then Inr (Listen (VsockEndpoint (Cid 0xFFFFFFFF) port))
             else if mode = ''--connect'' then
               map_sum id ConnectTo (ping_connect_endpoint plat vms port)
             else Inl (''unknown mode '' @ mode @ ''; '' @ ping_usage)))"

text \<open>The branches of \<open>main\<close> up to the session: the acceptor of the one, the session of the other.\<close>

definition ping_listen :: "platform \<Rightarrow> ('a, 'f, 'l, 'h, 'p) listen_env \<Rightarrow> 'f \<Rightarrow> 'a endpoint
    \<Rightarrow> (string + ('l, 'h) listener \<times> 's session_acceptor) \<times> 'f" where
  "ping_listen plat env f endpoint =
     (case endpoint_listen plat env f endpoint of
        (Inl _, f) \<Rightarrow> (Inl ''listen failed'', f)
      | (Inr listener, f) \<Rightarrow> (Inr (listener, acceptor_new ping_handshake PING_SCHEMA), f))"

definition ping_connect :: "('k, 'g, 's) hs_env \<Rightarrow> ('s conn, 'r) bootstrap \<Rightarrow> platform \<Rightarrow> ('a, 's) connect_ops
    \<Rightarrow> 'a endpoint \<Rightarrow> (rpc_error report + ('s conn, 'r) rpc_session) io" where
  "ping_connect env bootstrap plat ops endpoint = connect_session env bootstrap plat ops endpoint ping_handshake PING_SCHEMA"

section \<open>Its two sides meet\<close>

text \<open>The roles the program can take, and the ports they use.\<close>

lemma ping_roles:
  assumes "ping_role plat vms args = Inr role"
  shows "\<exists>port. parse_u32 (args ! 2) = Some port
    \<and> (role = Listen (VsockEndpoint (Cid 0xFFFFFFFF) port) \<and> args ! 1 = ''--listen''
       \<or> args ! 1 = ''--connect''
         \<and> role = ConnectTo (VsockEndpoint (if plat = Windows then Guid (the (projr (wsl_vmid vms))) else Cid 2) port))"
  using assms
  by (auto simp: ping_role_def ping_connect_endpoint_def vsock_to_wsl_def vsock_to_host_def Let_def
      split: if_splits option.splits sum.splits wsl_lookup_error.splits)

text \<open>Every port can be given by its decimal digits, so both sides can be started on it.\<close>

lemma show_nat_codes:
  "list_all (\<lambda>d. 48 \<le> d \<and> d \<le> 57) (map of_char (show_nat n) :: nat list)
   \<and> foldl (\<lambda>n d. 10 * n + (d - 48)) 0 (map of_char (show_nat n)) = n"
proof (induction n rule: show_nat.induct)
  case (1 n)
  have "of_char (digit d) = (48 + d :: nat)" if "d < 10" for d using that by (simp add: digit_def)
  with 1 show ?case by (cases "n < 10") (simp_all add: show_nat.simps [of n])
qed

lemma show_nat_nonempty: "show_nat n \<noteq> []"
  by (subst show_nat.simps) simp

lemma parse_u32_show: "parse_u32 (show_nat (unat port)) = Some port"
proof -
  let ?s = "show_nat (unat port)"
  have "\<forall>c \<in> set ?s. of_char c \<noteq> (43 :: nat)"
    using show_nat_codes [of "unat port"] by (force simp: list_all_iff)
  then have "(case ?s of [] \<Rightarrow> [] | c # r \<Rightarrow> if c = CHR ''+'' then r else ?s) = ?s"
    by (cases ?s) auto
  then show ?thesis
    using show_nat_codes [of "unat port"] unat_u32_less [of port] by (simp add: parse_u32_def Let_def show_nat_nonempty)
qed

text \<open>Both sides run the same mode with the same protocol, so they accept each other.\<close>

lemma ping_sides_authenticate:
  assumes "hmac_laws env" and "sys_random sl NONCE_LEN = Inr nonce" and "length nonce = NONCE_LEN"
  shows "ends_with sl sr
    (authenticate_server env conn (sa_mode (acceptor_new ping_handshake PING_SCHEMA)) (sa_protocol (acceptor_new ping_handshake PING_SCHEMA)),
     authenticate_client env ping_handshake PING_SCHEMA, [], [])
    (Inr (Some (proto_version PING_SCHEMA))) (Inr (Some (proto_version PING_SCHEMA)))"
proof -
  have "attestation_passes env sl conn ping_handshake" "compatible PING_SCHEMA PING_SCHEMA" "ping_handshake \<noteq> Disabled"
    by (simp_all add: attestation_passes_def ping_handshake_def mode_hmac_def compatible_def)
  then show ?thesis
    using honest_sides_succeed [OF assms(1) _ _ assms(2,3), of ping_handshake conn PING_SCHEMA PING_SCHEMA sr]
    by (simp add: acceptor_new_def)
qed

lemma ping_sides_authenticate_here:
  "ends_with sample_sys sample_sys
    (authenticate_server (sample_env hmac) conn (sa_mode (acceptor_new ping_handshake PING_SCHEMA))
       (sa_protocol (acceptor_new ping_handshake PING_SCHEMA)),
     authenticate_client (sample_env hmac) ping_handshake PING_SCHEMA, [], [])
    (Inr (Some (proto_version PING_SCHEMA))) (Inr (Some (proto_version PING_SCHEMA)))"
  by (rule ping_sides_authenticate [OF sample_hmac sample_random]) (simp add: NONCE_LEN_def)

end
