(* ===== verification/Spec2Isabelle.thy ===== *)
theory Spec2Isabelle
  imports Framing Gate Session_Delivery Frame_Body Error_Tests Vm_Tests Endpoint_Tests Handshake_Tests Signed_Tests
    Frame_Tests Npipe_Tests Acceptor_Loop Vsock_Ping
begin

text \<open>
  A verification development for \<^emph>\<open>oguRPChik\<close>: RPC between a host, agents in its virtual machines
  and plugins, over TCP, Unix sockets, named pipes and vsock, with a handshake before the first
  message. All paths are under \<open>src/src/\<close>.

  \<^bold>\<open>The program and its theories.\<close>
  A server finds its address (\<open>endpoint.rs\<close>), listens there (\<open>net/listener.rs\<close>) and lets an acceptor run
  the handshakes of many connections at once (\<open>rpc/acceptor.rs\<close>, \<open>auth/handshake.rs\<close>); a client
  connects, again until the service is ready, and runs its half. A connection that passed becomes a
  session (\<open>rpc/mod.rs\<close>): a network (\<open>rpc/network.rs\<close>) whose writer task sends framed messages and whose
  reader takes them from the connection (\<open>rpc/frame.rs\<close>). Errors are reports (\<open>error/\<close>); some cross the
  wire. The theories, from the bottom:

  \<^item> \<open>Prelude\<close>: words and their little-endian bytes, codecs as a locale, \<open>Vec\<close> with its capacity,
    reports, results.
  \<^item> \<open>Wire_Error\<close> (\<open>error/\<close>): error contexts, wire codes, \<open>to_capnp_exception\<close> and
    \<open>from_capnp_exception\<close> over a report given by the locale \<open>error_stack\<close>.
  \<^item> \<open>Frame_Batch\<close>, \<open>Frame_Inbound\<close>, \<open>Frame_Failures\<close>, \<open>Frame_Body\<close>, \<open>Framing\<close> (\<open>rpc/frame.rs\<close>): \<open>Batch\<close>,
    \<open>Inbound\<close>, also on streams whose reads fail, its buffer for long messages, and batch and reader together with the reference reader of the fuzz target
    (\<open>check::stock\<close>, \<open>fuzzing\<close> of \<open>rpc/mod.rs\<close>).
  \<^item> \<open>Effects\<close>, \<open>Duplex\<close>: asynchronous code as interaction trees, their runs against any environment, and
    two of them joined by a pair of streams, with every interleaving.
  \<^item> \<open>Conn\<close> (\<open>net/conn.rs\<close>): the connection, opening it, the identity of its peer.
  \<^item> \<open>Signed_Process\<close> (\<open>auth/signed_process/\<close>): attestation of a process by its signed image.
  \<^item> \<open>Handshake_Packet\<close>, \<open>Handshake\<close>, \<open>Hmac_Sha256\<close>, \<open>Handshake_Duplex\<close>, \<open>Handshake_Safety\<close>, \<open>Gate\<close>
    (\<open>auth/handshake.rs\<close>): packets, both halves of the handshake, the code of the standard as an instance
    of the parameter, the halves against each other, each half against a hostile peer, and the gate.
  \<^item> \<open>Vm_Lookup\<close>, \<open>Vsock\<close> (\<open>net/vsock/\<close>), \<open>Npipe\<close> (\<open>net/npipe.rs\<close>), \<open>Listener\<close> (\<open>net/listener.rs\<close>),
    \<open>Endpoint\<close> (\<open>endpoint.rs\<close>): the transports and how a service is found.
  \<^item> \<open>Network\<close>, \<open>Vat_Network\<close> (\<open>rpc/network.rs\<close>): the writer task, and the network with its handles,
    messages, promises and receives.
  \<^item> \<open>Streams\<close> (the \<open>AsyncRead\<close> and \<open>AsyncWrite\<close> impls of \<open>net/\<close>): reading and writing a connection.
  \<^item> \<open>Session\<close>, \<open>Acceptor_Loop\<close> (\<open>rpc/mod.rs\<close>, \<open>rpc/acceptor.rs\<close>) and \<open>Session_Delivery\<close>: sessions, the
    acceptor with its loop, and the way from the handshake to the delivered messages.
  \<^item> \<open>Error_Tests\<close>, \<open>Frame_Tests\<close>, \<open>Handshake_Tests\<close>, \<open>Signed_Tests\<close>, \<open>Vm_Tests\<close>, \<open>Endpoint_Tests\<close>,
    \<open>Transport_Tests\<close>, \<open>Npipe_Tests\<close>: the unit and property tests of these files, under the names they have
    there, and the fuzz target; \<open>Vsock_Ping\<close>: the example \<open>examples/vsock_ping.rs\<close>.

  \<^bold>\<open>How the code is modelled.\<close>
  A function keeps its name where HOL allows it. Structs are records and enums datatypes; a
  \<open>Result\<close> is a sum with the error on the left; integers of the wire are words, and a cast such as
  \<open>reason.len() as u16\<close> wraps. State is passed explicitly; what can happen in several orders is a step
  relation: \<open>batch_reach\<close>, \<open>gate_reach\<close>, \<open>npipe_step\<close>, \<open>vat_run\<close>, \<open>acceptor_run\<close> and
  \<open>step\<close> of \<open>Duplex\<close>. A call to a crate or to the operating system is a field of a record of parameters;
  what the proofs need of it is a locale, and every locale is interpreted on concrete functions:
  \<open>error_stack\<close> (the crate \<open>error-stack\<close>), \<open>byte_stream\<close>, \<open>failing_stream\<close> and \<open>byte_sink\<close> (what a network needs of a
  connection), \<open>transports\<close> and \<open>io_ext_laws\<close> (\<open>compio\<close>), \<open>capnp_framing\<close> and \<open>stock_reader\<close> (\<open>capnp\<close>),
  \<open>hmac_laws\<close>, \<open>guid_layout\<close>, \<open>socket_files\<close>; for the tests \<open>capnp_serialize\<close>, \<open>signing\<close>, \<open>vm_parsers\<close>,
  \<open>posix_dirs\<close>, \<open>handshake_pair\<close> and \<open>local_machine\<close>. A test is a boolean definition. The platform the crate is built for is an argument.

  \<^bold>\<open>What is proved.\<close>
  \<^item> Errors: a code reaches the peer, nothing that was not opted in does, a relay forgets the code.
  \<^item> Framing: a batch is byte for byte the stream framing, its references stay inside the messages they
    keep alive; the reader refines a parser, equals the stock reader on every stream and under every
    fragmentation, and gives back what a batch wrote.
  \<^item> Handshake: packets are exact; a side that succeeds has seen the proof, or attested the process at the
    other end, whatever the peer sends;
    two honest sides succeed, and wrong secrets, versions and schemes fail on both, under every
    interleaving; handles are closed; packets fit the limit of the reader.
  \<^item> Network: writing in order with honest acknowledgements, reading once and in order, lifetimes of the
    handles, shutdown that ends, and end-to-end delivery between two networks.
  \<^item> Transports: over a connection of any transport the reader delivers what arrives or reports the
    read that failed, and the writer's batches go out in order; Unix sockets of others are left alone and
    a listener's own is removed when it is dropped; a pipe loses no client when an accept is cancelled,
    although one that reached the spare instance waits for its turn, and it gets its security descriptor;
    WSL lookup finds WSL.
  \<^item> Endpoints: distinct and private places for services; \<open>connect_ready\<close> always returns.
  \<^item> Sessions: the acceptor hands out only connections that passed and bounds those that wait, and its
    loop runs no other histories; two sessions over one pair of streams know each other's version and
    receive what the other sent.
  \<^item> Tests: every modelled test passes, on every schedule and for every value it draws; those of the
    named pipes on a system that gives a client the instance that waits longest (\<open>spare_client_waits\<close>
    shows that one of them fails otherwise). A rejection with a reason too long for a packet does not
    arrive as one.

  \<^bold>\<open>Bounds and fuel.\<close>
  \<open>ours\<close> reads with one unit of fuel more than the stream has bytes, which is enough because each message
  takes at least one; \<open>inbound_equals_stock\<close> shows that it returns. \<open>ready_loop\<close> and \<open>stock_loop\<close> are
  partial functions in the option type, where \<open>None\<close> would be a loop without end; both are shown to
  return. \<open>fill\<close>, \<open>write_loop\<close>, \<open>parse_all\<close> and the other loops are total. Times are natural numbers of
  nanoseconds; capacities and lengths are natural numbers, except where the code narrows them.

  \<^bold>\<open>Not modelled.\<close>
  \<^item> \<open>lib.rs\<close>, \<open>net/mod.rs\<close>, \<open>auth/mod.rs\<close>, \<open>error/mod.rs\<close>: module declarations and re-exports.
  \<^item> Log output (\<open>tracing\<close>), and \<open>Debug\<close> of \<open>ConnectionLease\<close>.
  \<^item> The accessors of \<open>Outgoing\<close> and \<open>Incoming\<close> that hand a message of \<open>capnp\<close> to its library, the builder
    calls with which the tests make messages, and the strategies that draw their sizes.
  \<^item> The RPC system of \<open>capnp\<close> itself: a session is followed down to its network, not up to the calls
    of the application. So the tests of \<open>rpc/mod.rs\<close> and \<open>rpc/network.rs\<close>, which make such calls, the
    benches, the programs under \<open>src/tests/\<close> and the call of the example are not modelled.
  \<^item> Real time other than in \<open>connect_ready\<close>: a timeout may strike at any wait, and a handshake may be late.
  \<^item> How Hyper-V routes between partitions. \<open>loopback_meets_on_linux\<close> shows that on Windows a
    loopback listener and a loopback connection name different partitions; whether the system still joins
    them is not decided here.
\<close>

end
